(* ===== verification/DB_Prelude.thy ===== *)
theory DB_Prelude
  imports Main "HOL-Library.Word" "HOL-Library.Sublist"
begin

text \<open>
  Shared vocabulary of the DistBuildSys development: the machine types of the C++ sources,
  the ways a C++ call can fail, \<open>std::string\<close> operations, a file store with output streams,
  and the generic lemmas the component theories share.

  Strings and file contents are byte sequences in the program (\<open>std::string\<close>,
  \<open>protobuf bytes\<close>); both are the type \<open>string\<close> (a list of 8-bit characters) here.
  A \<open>std::vector<uint8_t>\<close> is a list of 8-bit words.
\<close>

unbundle bit_operations_syntax

section \<open>Collections of facts\<close>

named_theorems str_eval \<open>evaluation of string predicates on literals\<close>
named_theorems res_simps \<open>the result type: binding, catching, lifting\<close>

section \<open>Machine types\<close>

type_synonym u8 = "8 word"
type_synonym u16 = "16 word"
type_synonym u32 = "32 word"
type_synonym u64 = "64 word"
type_synonym i32 = "32 word"
type_synonym byte_vec = "u8 list"

text \<open>An \<open>int\<close> is its 32-bit pattern (\<open>i32\<close>): the casts between \<open>int\<close> and
  \<open>uint32_t\<close> in the sources keep the pattern.\<close>

definition u64_size :: "'a list \<Rightarrow> u64" where
  "u64_size xs = of_nat (length xs)"

definition u32_size :: "'a list \<Rightarrow> u32" where
  "u32_size xs = of_nat (length xs)"

lemma unat_u32_size [simp]: "length xs < 2 ^ 32 \<Longrightarrow> unat (u32_size xs) = length xs"
  by (simp add: u32_size_def unat_of_nat take_bit_nat_eq_self)

lemma unat_u64_size [simp]: "length xs < 2 ^ 64 \<Longrightarrow> unat (u64_size xs) = length xs"
  by (simp add: u64_size_def unat_of_nat take_bit_nat_eq_self)

lemma u64_size_inj:
  "length xs < 2 ^ 64 \<Longrightarrow> length ys < 2 ^ 64 \<Longrightarrow> u64_size xs = u64_size ys \<longleftrightarrow> length xs = length ys"
  by (metis u64_size_def unat_u64_size)

section \<open>Results: exceptions and undefined behaviour\<close>

text \<open>
  A call of the sources returns, throws a C++ exception, or has undefined behaviour (an
  unchecked read past the end of a buffer, a dangling pointer). A \<open>catch\<close> clause handles
  the first kind of failure and never the second.
\<close>

datatype exn =
    Eof
  | Out_Of_Range
  | Filesystem_Error
  | Socket_Error
  | Runtime_Error string

datatype cpp_error = Throw exn | Undefined

type_synonym 'a result = "cpp_error + 'a"

definition bind_r :: "'a result \<Rightarrow> ('a \<Rightarrow> 'b result) \<Rightarrow> 'b result" where
  "bind_r m f = (case m of Inl e \<Rightarrow> Inl e | Inr x \<Rightarrow> f x)"

definition catch_r :: "'a result \<Rightarrow> (exn \<Rightarrow> 'a result) \<Rightarrow> 'a result" where
  "catch_r m h = (case m of Inl (Throw e) \<Rightarrow> h e | _ \<Rightarrow> m)"

lemma bind_r_simps [simp, res_simps]:
  "bind_r (Inr x) f = f x"
  "bind_r (Inl e) f = Inl e"
  by (simp_all add: bind_r_def)

lemma catch_r_simps [simp, res_simps]:
  "catch_r (Inr x) h = Inr x"
  "catch_r (Inl (Throw e)) h = h e"
  "catch_r (Inl Undefined) h = Inl Undefined"
  by (simp_all add: catch_r_def)

lemma bind_r_Inr_iff: "bind_r m f = Inr y \<longleftrightarrow> (\<exists>x. m = Inr x \<and> f x = Inr y)"
  by (cases m) simp_all

lemma bind_r_cong [fundef_cong]:
  "m = m' \<Longrightarrow> (\<And>x. m' = Inr x \<Longrightarrow> f x = g x) \<Longrightarrow> bind_r m f = bind_r m' g"
  by (cases m') simp_all

section \<open>\<open>std::string\<close>\<close>

definition starts_with :: "string \<Rightarrow> string \<Rightarrow> bool" where
  "starts_with s p \<longleftrightarrow> prefix p s"

definition ends_with :: "string \<Rightarrow> string \<Rightarrow> bool" where
  "ends_with s p \<longleftrightarrow> prefix (rev p) (rev s)"

lemma starts_with_Nil [simp, str_eval]: "starts_with s []"
  by (simp add: starts_with_def)

lemma starts_with_Cons [simp, str_eval]:
  "starts_with [] (p # ps) = False"
  "starts_with (c # s) (p # ps) \<longleftrightarrow> c = p \<and> starts_with s ps"
  by (auto simp: starts_with_def)

lemma starts_with_append [simp]: "starts_with (p @ s) p"
  by (simp add: starts_with_def)

lemma starts_with_iff: "starts_with s p \<longleftrightarrow> (\<exists>r. s = p @ r)"
  by (simp add: starts_with_def prefix_def)

lemma ends_with_iff: "ends_with s p \<longleftrightarrow> (\<exists>r. s = r @ p)"
  by (metis (no_types, lifting) ends_with_def prefix_def rev_append rev_rev_ident)

lemma ends_with_starts [str_eval]: "ends_with s p = starts_with (rev s) (rev p)"
  by (simp add: ends_with_def starts_with_def)

lemma ends_with_append [simp]: "ends_with (s @ p) p"
  by (auto simp: ends_with_iff)

text \<open>\<open>substr(pos)\<close> throws \<open>std::out_of_range\<close> past the end; the callers modelled
  with \<open>drop\<close> are guarded.\<close>

text \<open>\<open>s.find(c, pos)\<close> for one character: the first index at or after \<open>pos\<close>,
  \<open>None\<close> for \<open>npos\<close>.\<close>

fun find_char_in :: "char \<Rightarrow> string \<Rightarrow> nat option" where
  "find_char_in c [] = None"
| "find_char_in c (x # xs) = (if x = c then Some 0 else map_option Suc (find_char_in c xs))"

definition find_char :: "string \<Rightarrow> char \<Rightarrow> nat \<Rightarrow> nat option" where
  "find_char s c pos = map_option (\<lambda>i. pos + i) (find_char_in c (drop pos s))"

lemma find_char_in_append:
  "c \<notin> set xs \<Longrightarrow> find_char_in c (xs @ c # ys) = Some (length xs)"
  by (induction xs) auto

lemma find_char_in_None: "find_char_in c s = None \<longleftrightarrow> c \<notin> set s"
  by (induction s) auto

lemma find_char_in_Some:
  "find_char_in c s = Some i \<Longrightarrow> i < length s \<and> s ! i = c \<and> c \<notin> set (take i s)"
proof (induction s arbitrary: i)
  case (Cons x xs)
  then show ?case by (cases i) (auto split: if_splits)
qed simp

text \<open>\<open>std::isspace\<close> in the C locale.\<close>

definition isspace :: "char \<Rightarrow> bool" where
  "isspace c \<longleftrightarrow> c \<in> {CHR '' '', CHR 0x09, CHR 0x0A, CHR 0x0B, CHR 0x0C, CHR 0x0D}"

lemma isspace_eval [str_eval]:
  "isspace c \<longleftrightarrow> c = CHR '' '' \<or> c = CHR 0x09 \<or> c = CHR 0x0A \<or> c = CHR 0x0B \<or> c = CHR 0x0C \<or> c = CHR 0x0D"
  by (simp add: isspace_def)

section \<open>Characters and bytes\<close>

definition byte_of_char :: "char \<Rightarrow> u8" where
  "byte_of_char c = of_char c"

definition char_of_byte :: "u8 \<Rightarrow> char" where
  "char_of_byte b = char_of (unat b)"

lemma char_of_byte_of_char [simp]: "char_of_byte (byte_of_char c) = c"
proof -
  have "(of_char c :: u8) = of_nat (of_char c)"
    by (simp add: of_nat_of_char)
  then have "unat (of_char c :: u8) = of_char c"
    by (simp add: unat_of_nat take_bit_nat_eq_self del: of_nat_of_char)
  then show ?thesis
    by (simp add: byte_of_char_def char_of_byte_def)
qed

lemma map_char_of_byte_of_char [simp]: "map (char_of_byte \<circ> byte_of_char) s = s"
  by (induction s) simp_all

section \<open>Splitting a byte sequence into chunks\<close>

text \<open>The reference definition behind the two chunked senders: blocks of \<open>n\<close> bytes, the
  last one possibly shorter.\<close>

function chunks_of :: "nat \<Rightarrow> 'a list \<Rightarrow> 'a list list" where
  "chunks_of n xs = (if n = 0 \<or> xs = [] then [] else take n xs # chunks_of n (drop n xs))"
  by pat_completeness auto
termination
  by (relation "measure (\<lambda>(n, xs). length xs)") auto

declare chunks_of.simps [simp del]

lemma chunks_of_Nil [simp]: "chunks_of n [] = []"
  by (subst chunks_of.simps) simp

lemma chunks_of_step: "0 < n \<Longrightarrow> xs \<noteq> [] \<Longrightarrow> chunks_of n xs = take n xs # chunks_of n (drop n xs)"
  by (subst chunks_of.simps) simp

lemma concat_chunks_of: "0 < n \<Longrightarrow> concat (chunks_of n xs) = xs"
proof (induction n xs rule: chunks_of.induct)
  case (1 n xs)
  then show ?case by (cases "xs = []") (simp_all add: chunks_of_step)
qed

section \<open>Association lists\<close>

lemma map_of_filter_key:
  "map_of (filter (\<lambda>(k, _). k \<noteq> key) xs) j = (if j = key then None else map_of xs j)"
  by (induction xs) auto

section \<open>Sums over updated lists\<close>

lemma sum_list_map_update:
  fixes f :: "'a \<Rightarrow> 'b :: comm_monoid_add"
  assumes "i < length xs"
  shows "sum_list (map f (xs[i := x])) + f (xs ! i) = sum_list (map f xs) + f x"
  using assms
proof (induction xs arbitrary: i)
  case (Cons y ys)
  then show ?case by (cases i) (auto simp: ac_simps)
qed simp

end
