(* ===== verification/Unix_Ipc.thy ===== *)
theory Unix_Ipc
  imports DB_Prelude
begin

text \<open>
  The IPC channel between the compiler wrapper and the daemon: \<open>src/src/unix_ipc_socket.hpp\<close>
  (\<open>UnixIpcRequest\<close>, \<open>UnixIpcResponse\<close>, \<open>UnixIpcManager\<close>) and the wrapper's own copy
  of the codec in \<open>src/src/distbuild_wrapper.cpp\<close>.

  A byte buffer is a list of 8-bit words. The sources read through raw pointers with no bounds
  check, so a read past the end of the buffer is the value \<open>Inl Undefined\<close>; the socket reads
  and the exceptions they throw are \<open>Inl (Throw Eof)\<close>.
\<close>

section \<open>Requests and responses\<close>

record unix_ipc_request =
  current_working_dir :: string
  cmd_line_args :: "string list"

record unix_ipc_response =
  compiler_exit_code :: i32
  stdout_content :: string
  stderr_content :: string

definition mk_response :: "i32 \<Rightarrow> string \<Rightarrow> string \<Rightarrow> unix_ipc_response" where
  "mk_response code out err =
     \<lparr>compiler_exit_code = code, stdout_content = out, stderr_content = err\<rparr>"

section \<open>The daemon's codec\<close>

definition append_u32 :: "byte_vec \<Rightarrow> u32 \<Rightarrow> byte_vec" where
  "append_u32 out v =
     out @ [ucast (drop_bit 24 v AND 0xFF), ucast (drop_bit 16 v AND 0xFF),
            ucast (drop_bit 8 v AND 0xFF), ucast (v AND 0xFF)]"

definition read_u32 :: "byte_vec \<Rightarrow> nat \<Rightarrow> u32 result" where
  "read_u32 data offset =
     (if offset + 4 \<le> length data
      then Inr (push_bit 24 (ucast (data ! offset)) OR push_bit 16 (ucast (data ! (offset + 1)))
                OR push_bit 8 (ucast (data ! (offset + 2))) OR ucast (data ! (offset + 3)))
      else Inl Undefined)"

definition append_string :: "byte_vec \<Rightarrow> string \<Rightarrow> byte_vec" where
  "append_string out s = append_u32 out (u32_size s) @ map byte_of_char s"

definition read_string :: "byte_vec \<Rightarrow> nat \<Rightarrow> (string \<times> nat) result" where
  "read_string data offset =
     bind_r (read_u32 data offset) (\<lambda>len.
       let start = offset + 4; n = unat len
       in if start + n \<le> length data
          then Inr (map char_of_byte (take n (drop start data)), start + n)
          else Inl Undefined)"

definition serialize_request :: "unix_ipc_request \<Rightarrow> byte_vec" where
  "serialize_request req =
     (let out = append_string [] (current_working_dir req);
          out = append_u32 out (u32_size (cmd_line_args req))
      in foldl append_string out (cmd_line_args req))"

text \<open>The loop \<open>for (i = 0; i < argc; ++i)\<close>, counted down by what is left.\<close>

fun read_args :: "nat \<Rightarrow> byte_vec \<Rightarrow> nat \<Rightarrow> string list \<Rightarrow> (string list \<times> nat) result" where
  "read_args 0 data offset args = Inr (args, offset)"
| "read_args (Suc n) data offset args =
     bind_r (read_string data offset) (\<lambda>(s, offset'). read_args n data offset' (args @ [s]))"

definition deserialize_request :: "byte_vec \<Rightarrow> unix_ipc_request result" where
  "deserialize_request data =
     bind_r (read_string data 0) (\<lambda>(cwd, offset).
       bind_r (read_u32 data offset) (\<lambda>argc.
         bind_r (read_args (unat argc) data (offset + 4) []) (\<lambda>(args, _).
           Inr \<lparr>current_working_dir = cwd, cmd_line_args = args\<rparr>)))"

definition serialize_response :: "unix_ipc_response \<Rightarrow> byte_vec" where
  "serialize_response resp =
     append_string (append_string (append_u32 [] (compiler_exit_code resp)) (stdout_content resp))
       (stderr_content resp)"

section \<open>One connection of the daemon\<close>

record unix_ipc_manager =
  active_connections :: u32

text \<open>\<open>boost::asio::async_read\<close> of exactly \<open>n\<close> bytes from what the peer sends before it
  stops: the bytes and the rest, or the end-of-file exception.\<close>

definition async_read :: "nat \<Rightarrow> byte_vec \<Rightarrow> (byte_vec \<times> byte_vec) result" where
  "async_read n input = (if n \<le> length input then Inr (take n input, drop n input) else Inl (Throw Eof))"

text \<open>Both ends read a frame the same way: four size bytes, then that many bytes of payload,
  then the decoder.\<close>

definition read_frame :: "(byte_vec \<Rightarrow> nat \<Rightarrow> u32 result) \<Rightarrow> (byte_vec \<Rightarrow> 'm result) \<Rightarrow> byte_vec \<Rightarrow> 'm result" where
  "read_frame read_size decode input =
     bind_r (async_read 4 input) (\<lambda>(size_buf, rest).
     bind_r (read_size size_buf 0) (\<lambda>payload_size.
     bind_r (async_read (unat payload_size) rest) (\<lambda>(payload, _). decode payload)))"

text \<open>The \<open>try\<close> block of \<open>_handle_session\<close>: what is written to the connection.\<close>

definition serve_connection ::
    "(unix_ipc_request \<Rightarrow> unix_ipc_response result) \<Rightarrow> byte_vec \<Rightarrow> byte_vec result" where
  "serve_connection request_handler input =
     bind_r (read_frame read_u32 deserialize_request input) (\<lambda>request.
     bind_r (request_handler request) (\<lambda>response.
       let response_data = serialize_response response
       in Inr (append_u32 [] (u32_size response_data) @ response_data)))"

definition handle_session ::
    "(unix_ipc_request \<Rightarrow> unix_ipc_response result) \<Rightarrow> unix_ipc_manager \<Rightarrow> byte_vec
      \<Rightarrow> (unix_ipc_manager \<times> byte_vec) result" where
  "handle_session request_handler m input =
     (let m1 = m\<lparr>active_connections := active_connections m + 1\<rparr>
      in bind_r (catch_r (serve_connection request_handler input) (\<lambda>_. Inr []))
           (\<lambda>written. Inr (m1\<lparr>active_connections := active_connections m1 - 1\<rparr>, written)))"

section \<open>The wrapper's codec\<close>

text \<open>\<open>distbuild_wrapper.cpp\<close> does not call the daemon's private codec: it has its own
  functions of the same names, here with the suffix \<open>_w\<close>.\<close>

definition append_u32_w :: "byte_vec \<Rightarrow> u32 \<Rightarrow> byte_vec" where
  "append_u32_w out v =
     (((out @ [ucast (drop_bit 24 v AND 0xFF)]) @ [ucast (drop_bit 16 v AND 0xFF)])
       @ [ucast (drop_bit 8 v AND 0xFF)]) @ [ucast (v AND 0xFF)]"

definition read_u32_w :: "byte_vec \<Rightarrow> nat \<Rightarrow> u32 result" where
  "read_u32_w data offset =
     (if offset + 4 \<le> length data
      then Inr (push_bit 24 (ucast (data ! offset)) OR push_bit 16 (ucast (data ! (offset + 1)))
                OR push_bit 8 (ucast (data ! (offset + 2))) OR ucast (data ! (offset + 3)))
      else Inl Undefined)"

definition append_string_w :: "byte_vec \<Rightarrow> string \<Rightarrow> byte_vec" where
  "append_string_w out s = append_u32_w out (u32_size s) @ map byte_of_char s"

definition read_string_w :: "byte_vec \<Rightarrow> nat \<Rightarrow> (string \<times> nat) result" where
  "read_string_w data offset =
     bind_r (read_u32_w data offset) (\<lambda>len.
       if offset + 4 + unat len \<le> length data
       then Inr (map char_of_byte (take (unat len) (drop (offset + 4) data)), offset + 4 + unat len)
       else Inl Undefined)"

definition serialize_request_w :: "unix_ipc_request \<Rightarrow> byte_vec" where
  "serialize_request_w req =
     foldl append_string_w
       (append_u32_w (append_string_w [] (current_working_dir req)) (u32_size (cmd_line_args req)))
       (cmd_line_args req)"

definition deserialize_response_w :: "byte_vec \<Rightarrow> unix_ipc_response result" where
  "deserialize_response_w data =
     bind_r (read_u32_w data 0) (\<lambda>exit_code.
     bind_r (read_string_w data 4) (\<lambda>(out, offset).
     bind_r (read_string_w data offset) (\<lambda>(err, _).
       Inr (mk_response exit_code out err))))"

text \<open>
  \<open>send_request_to_distbuild\<close>. The daemon behind the socket is the argument \<open>peer\<close>: what
  it sends back for the bytes it gets (a refused connection is an exception). The text of an
  exception is the argument \<open>what\<close>.
\<close>

definition send_request_to_distbuild ::
    "(exn \<Rightarrow> string) \<Rightarrow> (byte_vec \<Rightarrow> byte_vec result) \<Rightarrow> string \<Rightarrow> string list
      \<Rightarrow> unix_ipc_response result" where
  "send_request_to_distbuild what peer cwd cmd_args =
     (let payload = serialize_request_w \<lparr>current_working_dir = cwd, cmd_line_args = cmd_args\<rparr>;
          framed = append_u32_w [] (u32_size payload) @ payload
      in catch_r
           (bind_r (peer framed) (\<lambda>answer. read_frame read_u32_w deserialize_response_w answer))
           (\<lambda>e. Inr (mk_response 1 [] (''distbuild: '' @ what e))))"

text \<open>\<open>main\<close> of the wrapper: the exit code and what goes to the two output streams (the
  timing line that \<open>main\<close> appends to the standard output is left out).\<close>

definition wrapper_main ::
    "(exn \<Rightarrow> string) \<Rightarrow> (byte_vec \<Rightarrow> byte_vec result) \<Rightarrow> string \<Rightarrow> string list
      \<Rightarrow> (i32 \<times> string \<times> string) result" where
  "wrapper_main what peer cwd argv =
     (if length argv < 3 then Inr (1, [], ''distbuild: Not enough cmd line args'' @ [CHR 0x0A])
      else bind_r (send_request_to_distbuild what peer cwd (tl argv)) (\<lambda>r.
             Inr (compiler_exit_code r, stdout_content r, stderr_content r)))"

section \<open>Lemmas\<close>

subsection \<open>Four bytes\<close>

lemma length_append_u32 [simp]: "length (append_u32 out v) = length out + 4"
  by (simp add: append_u32_def)

lemma append_u32_Nil_append: "append_u32 out v = out @ append_u32 [] v"
  by (simp add: append_u32_def)

lemma bytes_compose_u32:
  "push_bit 24 (ucast (ucast (drop_bit 24 v AND 0xFF :: u32) :: u8))
   OR push_bit 16 (ucast (ucast (drop_bit 16 v AND 0xFF :: u32) :: u8))
   OR push_bit 8 (ucast (ucast (drop_bit 8 v AND 0xFF :: u32) :: u8))
   OR ucast (ucast (v AND 0xFF :: u32) :: u8) = (v :: u32)"
proof (rule bit_word_eqI)
  fix n
  assume n: "n < LENGTH(32)"
  have mask: "(0xFF :: u32) = mask 8"
    by (simp add: mask_eq_exp_minus_1)
  consider "n < 8" | "8 \<le> n \<and> n < 16" | "16 \<le> n \<and> n < 24" | "24 \<le> n"
    by linarith
  then show "bit (push_bit 24 (ucast (ucast (drop_bit 24 v AND 0xFF :: u32) :: u8))
   OR push_bit 16 (ucast (ucast (drop_bit 16 v AND 0xFF :: u32) :: u8))
   OR push_bit 8 (ucast (ucast (drop_bit 8 v AND 0xFF :: u32) :: u8))
   OR ucast (ucast (v AND 0xFF :: u32) :: u8) :: u32) n = bit v n"
    using n by cases (auto simp: mask bit_simps)
qed

lemma read_u32_append:
  "read_u32 (append_u32 pre v @ rest) (length pre) = Inr v"
  by (simp add: read_u32_def append_u32_def nth_append bytes_compose_u32)

subsection \<open>Strings\<close>

lemma length_append_string [simp]: "length (append_string out s) = length out + 4 + length s"
  by (simp add: append_string_def)

lemma append_string_Nil_append: "append_string out s = out @ append_string [] s"
  by (simp add: append_string_def append_u32_def)

lemma foldl_append_string: "foldl append_string out ss = out @ concat (map (append_string []) ss)"
proof (induction ss arbitrary: out)
  case (Cons s ss)
  show ?case
    by (simp add: Cons.IH) (subst append_string_Nil_append, simp)
qed simp

lemma read_string_append:
  assumes "length s < 2 ^ 32"
  shows "read_string (pre @ append_string [] s @ rest) (length pre) = Inr (s, length pre + 4 + length s)"
proof -
  have "read_u32 (pre @ append_string [] s @ rest) (length pre) = Inr (u32_size s)"
    using read_u32_append [of pre "u32_size s" "map byte_of_char s @ rest"]
    by (simp add: append_string_def append_u32_def)
  moreover have "take (length s) (drop (length pre + 4) (pre @ append_string [] s @ rest))
      = map byte_of_char s"
    by (simp add: append_string_def append_u32_def)
  ultimately show ?thesis
    using assms by (simp add: read_string_def Let_def)
qed

lemma read_args_append:
  assumes "\<forall>s \<in> set ss. length s < 2 ^ 32"
  shows "read_args (length ss) (pre @ concat (map (append_string []) ss) @ rest) (length pre) acc
     = Inr (acc @ ss, length pre + length (concat (map (append_string []) ss)))"
  using assms
proof (induction ss arbitrary: pre acc)
  case (Cons s ss)
  have "read_string (pre @ append_string [] s @ concat (map (append_string []) ss) @ rest) (length pre)
      = Inr (s, length pre + 4 + length s)"
    using Cons.prems by (intro read_string_append) simp
  moreover have "read_args (length ss)
       ((pre @ append_string [] s) @ concat (map (append_string []) ss) @ rest)
       (length (pre @ append_string [] s)) (acc @ [s])
     = Inr ((acc @ [s]) @ ss, length (pre @ append_string [] s) + length (concat (map (append_string []) ss)))"
    using Cons.prems by (intro Cons.IH) simp
  ultimately show ?case
    by (simp add: add.assoc)
qed simp

subsection \<open>The two copies of the codec agree\<close>

lemma append_u32_w_eq [simp]: "append_u32_w = append_u32"
  by (intro ext) (simp add: append_u32_w_def append_u32_def)

lemma read_u32_w_eq [simp]: "read_u32_w = read_u32"
  by (intro ext) (simp add: read_u32_w_def read_u32_def)

lemma append_string_w_eq [simp]: "append_string_w = append_string"
  by (intro ext) (simp add: append_string_w_def append_string_def)

lemma read_string_w_eq [simp]: "read_string_w = read_string"
  by (intro ext) (simp add: read_string_w_def read_string_def Let_def)

lemma serialize_request_w_eq [simp]: "serialize_request_w = serialize_request"
  by (intro ext) (simp add: serialize_request_w_def serialize_request_def Let_def)

lemma serialize_request_flat:
  "serialize_request req = append_string [] (current_working_dir req)
     @ append_u32 [] (u32_size (cmd_line_args req))
     @ concat (map (append_string []) (cmd_line_args req))"
  by (simp add: serialize_request_def Let_def foldl_append_string)
     (subst append_u32_Nil_append, simp)

lemma serialize_response_flat:
  "serialize_response resp = append_u32 [] (compiler_exit_code resp)
     @ append_string [] (stdout_content resp) @ append_string [] (stderr_content resp)"
  unfolding serialize_response_def
  by (subst append_string_Nil_append, subst append_string_Nil_append) simp

subsection \<open>Frames\<close>

text \<open>The contract of an encoder and a decoder on the two ends of the socket, and what framing
  makes of it.\<close>

locale wire_codec =
  fixes encode :: "'m \<Rightarrow> byte_vec"
    and decode :: "byte_vec \<Rightarrow> 'm result"
    and fits :: "'m \<Rightarrow> bool"
  assumes decode_encode: "fits m \<Longrightarrow> decode (encode m) = Inr m"
    and encode_length: "fits m \<Longrightarrow> length (encode m) < 2 ^ 32"
begin

lemma read_frame_encode:
  assumes "fits m"
  shows "read_frame read_u32 decode (append_u32 [] (u32_size (encode m)) @ encode m) = Inr m"
proof -
  have "read_u32 (append_u32 [] (u32_size (encode m))) 0 = Inr (u32_size (encode m))"
    using read_u32_append [of "[]" "u32_size (encode m)" "[]"] by simp
  with assms show ?thesis
    using encode_length [OF assms] by (simp add: read_frame_def async_read_def decode_encode)
qed

lemma read_frame_cut:
  assumes "fits m" and "k < 4 + length (encode m)"
  shows "read_frame read_u32 decode (take k (append_u32 [] (u32_size (encode m)) @ encode m))
    = Inl (Throw Eof)"
proof (cases "k < 4")
  case True
  then show ?thesis by (simp add: read_frame_def async_read_def)
next
  case False
  have "read_u32 (append_u32 [] (u32_size (encode m))) 0 = Inr (u32_size (encode m))"
    using read_u32_append [of "[]" "u32_size (encode m)" "[]"] by simp
  moreover have "take 4 (take k (append_u32 [] (u32_size (encode m)) @ encode m))
      = append_u32 [] (u32_size (encode m))"
    using False by (simp add: min_def)
  moreover have "length (drop 4 (take k (append_u32 [] (u32_size (encode m)) @ encode m))) < length (encode m)"
    using assms(2) False by simp
  ultimately show ?thesis
    using False encode_length [OF assms(1)] assms(2) by (simp add: read_frame_def async_read_def)
qed

end

definition request_fits :: "unix_ipc_request \<Rightarrow> bool" where
  "request_fits req \<longleftrightarrow> length (serialize_request req) < 2 ^ 32"

definition response_fits :: "unix_ipc_response \<Rightarrow> bool" where
  "response_fits resp \<longleftrightarrow> length (serialize_response resp) < 2 ^ 32"

lemma length_concat_strings:
  "s \<in> set ss \<Longrightarrow> length s \<le> length (concat (map (append_string []) ss))"
  by (induction ss) auto

lemma length_args_le: "length ss \<le> length (concat (map (append_string []) ss))"
  by (induction ss) auto

lemma request_fits_parts:
  assumes "request_fits req"
  shows "length (current_working_dir req) < 2 ^ 32"
    and "length (cmd_line_args req) < 2 ^ 32"
    and "\<forall>s \<in> set (cmd_line_args req). length s < 2 ^ 32"
  using assms length_args_le [of "cmd_line_args req"] length_concat_strings
  by (fastforce simp: request_fits_def serialize_request_flat)+

lemma deserialize_serialize_request:
  assumes "request_fits req"
  shows "deserialize_request (serialize_request_w req) = Inr req"
proof -
  let ?cwd = "append_string [] (current_working_dir req)"
  let ?n = "append_u32 [] (u32_size (cmd_line_args req))"
  let ?args = "concat (map (append_string []) (cmd_line_args req))"
  note parts = request_fits_parts [OF assms]
  have "read_string (?cwd @ ?n @ ?args) 0 = Inr (current_working_dir req, length ?cwd)"
    using read_string_append [OF parts(1), of "[]" "?n @ ?args"] by simp
  moreover have "read_u32 (?cwd @ ?n @ ?args) (length ?cwd) = Inr (u32_size (cmd_line_args req))"
    using read_u32_append [of ?cwd "u32_size (cmd_line_args req)" ?args]
    by (subst (asm) append_u32_Nil_append) simp
  moreover have "read_args (length (cmd_line_args req)) (?cwd @ ?n @ ?args) (length ?cwd + 4) []
      = Inr (cmd_line_args req, length (?cwd @ ?n) + length ?args)"
    using read_args_append [OF parts(3), of "?cwd @ ?n" "[]" "[]"] by simp
  ultimately show ?thesis
    using parts(2) by (simp add: deserialize_request_def serialize_request_flat)
qed

lemma response_fits_parts:
  assumes "response_fits resp"
  shows "length (stdout_content resp) < 2 ^ 32" and "length (stderr_content resp) < 2 ^ 32"
  using assms by (simp_all add: response_fits_def serialize_response_flat)

lemma deserialize_serialize_response:
  assumes "response_fits resp"
  shows "deserialize_response_w (serialize_response resp) = Inr resp"
proof -
  let ?c = "append_u32 [] (compiler_exit_code resp)"
  let ?o = "append_string [] (stdout_content resp)"
  let ?e = "append_string [] (stderr_content resp)"
  note parts = response_fits_parts [OF assms]
  have "read_u32 (?c @ ?o @ ?e) 0 = Inr (compiler_exit_code resp)"
    using read_u32_append [of "[]" "compiler_exit_code resp" "?o @ ?e"] by simp
  moreover have "read_string (?c @ ?o @ ?e) 4 = Inr (stdout_content resp, 4 + length ?o)"
    using read_string_append [OF parts(1), of ?c ?e] by simp
  moreover have "read_string (?c @ ?o @ ?e) (4 + length ?o)
      = Inr (stderr_content resp, 4 + length ?o + length ?e)"
    using read_string_append [OF parts(2), of "?c @ ?o" "[]"] by simp
  ultimately show ?thesis
    by (simp add: deserialize_response_w_def serialize_response_flat mk_response_def)
qed

interpretation request_codec: wire_codec serialize_request_w deserialize_request request_fits
  by unfold_locales (rule deserialize_serialize_request, assumption, simp add: request_fits_def)

interpretation response_codec: wire_codec serialize_response deserialize_response_w response_fits
  by unfold_locales (rule deserialize_serialize_response, assumption, simp add: response_fits_def)

section \<open>Properties\<close>

text \<open>The daemon as the wrapper sees it: one accepted connection of the manager \<open>m\<close>.\<close>

definition daemon_peer ::
    "(unix_ipc_request \<Rightarrow> unix_ipc_response result) \<Rightarrow> unix_ipc_manager \<Rightarrow> byte_vec \<Rightarrow> byte_vec result" where
  "daemon_peer request_handler m input =
     bind_r (handle_session request_handler m input) (\<lambda>(_, written). Inr written)"

lemma serve_connection_framed:
  assumes "request_fits req" and "h req = Inr resp"
  shows "serve_connection h (append_u32 [] (u32_size (serialize_request req)) @ serialize_request req)
    = Inr (append_u32 [] (u32_size (serialize_response resp)) @ serialize_response resp)"
  using request_codec.read_frame_encode [OF assms(1)] assms(2)
  by (simp add: serve_connection_def Let_def)

lemma wrapper_served:
  assumes "length argv \<ge> 3"
    and "request_fits \<lparr>current_working_dir = cwd, cmd_line_args = tl argv\<rparr>"
    and "h \<lparr>current_working_dir = cwd, cmd_line_args = tl argv\<rparr> = Inr resp"
    and "response_fits resp"
  shows "wrapper_main what (daemon_peer h m) cwd argv
    = Inr (compiler_exit_code resp, stdout_content resp, stderr_content resp)"
  using assms serve_connection_framed [of _ h resp] response_codec.read_frame_encode [of resp]
  by (simp add: wrapper_main_def send_request_to_distbuild_def Let_def daemon_peer_def handle_session_def)

text \<open>C7. End to end over the socket: the wrapper's \<open>main\<close>, talking to one connection of the
  daemon, exits with exactly the exit code, standard output and standard error that the daemon's
  request handler returned for the wrapper's working directory and arguments, whenever the encoded
  request and response are shorter than \<open>2^32\<close> bytes.\<close>

theorem wrapper_main_end_to_end:
  assumes "length argv \<ge> 3"
    and "request_fits \<lparr>current_working_dir = cwd, cmd_line_args = tl argv\<rparr>"
    and "h \<lparr>current_working_dir = cwd, cmd_line_args = tl argv\<rparr> = Inr resp"
    and "response_fits resp"
  shows "wrapper_main what (daemon_peer h m) cwd argv
    = Inr (compiler_exit_code resp, stdout_content resp, stderr_content resp)"
  using assms by (rule wrapper_served)

theorem wrapper_main_end_to_end_witness:
  "wrapper_main (\<lambda>_. []) (daemon_peer (\<lambda>r. Inr (mk_response 2 ''out'' ''err'')) \<lparr>active_connections = 0\<rparr>)
     ''/tmp'' [''distbuild'', ''/usr/bin/gcc'', ''a.c''] = Inr (2, ''out'', ''err'')"
  using wrapper_main_end_to_end [of "[''distbuild'', ''/usr/bin/gcc'', ''a.c'']" "''/tmp''"
      "\<lambda>r. Inr (mk_response 2 ''out'' ''err'')" "mk_response 2 ''out'' ''err''"
      "\<lambda>_. []" "\<lparr>active_connections = 0\<rparr>"]
  by (simp add: request_fits_def response_fits_def serialize_request_flat serialize_response_flat mk_response_def)

text \<open>A connection leaves the manager's count of active connections as it was, on every path
  that does not run into undefined behaviour, and writes either nothing at all or exactly one framed
  response: the one its handler gave for the request it decoded.\<close>

theorem handle_session_outcome:
  assumes "handle_session h m input = Inr (m', written)"
  shows "m' = m \<and> (written = [] \<or>
    (\<exists>req resp. read_frame read_u32 deserialize_request input = Inr req \<and> h req = Inr resp \<and>
       written = append_u32 [] (u32_size (serialize_response resp)) @ serialize_response resp))"
proof -
  from assms obtain w where w: "catch_r (serve_connection h input) (\<lambda>_. Inr []) = Inr w"
      and mw: "m' = m" "written = w"
    by (auto simp: handle_session_def bind_r_Inr_iff)
  show ?thesis
  proof (cases "serve_connection h input")
    case (Inr x)
    with w mw show ?thesis
      by (auto simp: serve_connection_def bind_r_Inr_iff Let_def)
  next
    case (Inl e)
    with w mw show ?thesis by (cases e) auto
  qed
qed

theorem handle_session_outcome_witness:
  "\<exists>w. handle_session (\<lambda>_. Inr (mk_response 0 [] [])) \<lparr>active_connections = 7\<rparr> [0, 0] = Inr (\<lparr>active_connections = 7\<rparr>, w)
     \<and> (w = [] \<or> (\<exists>req. read_frame read_u32 deserialize_request [0, 0] = Inr req))"
proof -
  have "handle_session (\<lambda>_. Inr (mk_response 0 [] [])) \<lparr>active_connections = 7\<rparr> [0, 0]
      = Inr (\<lparr>active_connections = 7\<rparr>, [])"
    by (simp add: handle_session_def serve_connection_def read_frame_def async_read_def)
  from this handle_session_outcome [OF this] show ?thesis by auto
qed

text \<open>A request that is cut short anywhere (the wrapper dies while it writes) is answered by
  closing the connection with nothing written: no handler runs, and no byte past the buffer is
  read.\<close>

theorem handle_session_truncated:
  assumes "request_fits req" and "k < 4 + length (serialize_request_w req)"
  shows "handle_session h m
    (take k (append_u32_w [] (u32_size (serialize_request_w req)) @ serialize_request_w req))
    = Inr (m, [])"
  using request_codec.read_frame_cut [of req k] assms
  by (simp add: handle_session_def serve_connection_def)

theorem handle_session_truncated_witness:
  "handle_session (\<lambda>_. Inl Undefined) \<lparr>active_connections = 1\<rparr>
    (take 9 (append_u32_w [] (u32_size (serialize_request_w \<lparr>current_working_dir = ''/tmp'', cmd_line_args = [''c'']\<rparr>))
       @ serialize_request_w \<lparr>current_working_dir = ''/tmp'', cmd_line_args = [''c'']\<rparr>))
    = Inr (\<lparr>active_connections = 1\<rparr>, [])"
  by (rule handle_session_truncated) (simp_all add: request_fits_def serialize_request_flat)

text \<open>The decoder trusts the lengths inside the payload: four bytes that announce a long string
  make it read past the end of the buffer.\<close>

lemma deserialize_request_overread: "deserialize_request [0, 0, 0, 1] = Inl Undefined"
  by (simp add: deserialize_request_def read_string_def read_u32_def)

end
