(* ===== verification/Ipc_Daemon.thy ===== *)
theory Ipc_Daemon
  imports Unix_Ipc
begin

text \<open>
  The daemon's end of the local socket as a state machine: \<open>UnixIpcManager\<close> of
  \<open>src/src/unix_ipc_socket.hpp\<close> with its accept loop and any number of connections at a time. A
  connection is its place in the coroutine \<open>_handle_session\<close>, with one step from each suspension
  point to the next; the coroutines interleave in any order. The bytes the peer of a connection sends
  before it stops are known from the start, and \<open>h i\<close> is what the request handler gives in the
  \<open>i\<close>-th connection.
\<close>

section \<open>Connections\<close>

datatype conn_state =
    Spawned
  | Reading_Size
  | Reading_Payload u32 byte_vec
  | Handling unix_ipc_request
  | Writing byte_vec
  | Closing byte_vec
  | Closed byte_vec
  | Crashed

record ipc_conn =
  peer_input :: byte_vec
  conn_at :: conn_state

record ipc_daemon =
  acceptor_open :: bool
  socket_exists :: bool
  ipc_mgr :: unix_ipc_manager
  conns :: "ipc_conn list"

text \<open>Where the result of a call leads: on, or to the \<open>catch\<close> block with nothing written.\<close>

definition resume :: "'a result \<Rightarrow> ('a \<Rightarrow> conn_state) \<Rightarrow> conn_state" where
  "resume r k = (case r of Inr x \<Rightarrow> k x | Inl (Throw _) \<Rightarrow> Closing [] | Inl Undefined \<Rightarrow> Crashed)"

definition framed_response :: "unix_ipc_response \<Rightarrow> byte_vec" where
  "framed_response resp = append_u32 [] (u32_size (serialize_response resp)) @ serialize_response resp"

text \<open>The body of the coroutine; the counter is changed by its first and its last step. A write that
  fails leaves a part of the bytes with the peer.\<close>

inductive conn_step ::
    "(unix_ipc_request \<Rightarrow> unix_ipc_response result) \<Rightarrow> byte_vec \<Rightarrow> conn_state \<Rightarrow> u32 \<Rightarrow> conn_state \<Rightarrow> u32 \<Rightarrow> bool"
  for h input where
  conn_enter: "conn_step h input Spawned n Reading_Size (n + 1)"
| conn_size: "conn_step h input Reading_Size n
     (resume (async_read 4 input) (\<lambda>(size_buf, rest). resume (read_u32 size_buf 0) (\<lambda>sz. Reading_Payload sz rest))) n"
| conn_payload: "conn_step h input (Reading_Payload sz rest) n
     (resume (async_read (unat sz) rest) (\<lambda>(payload, _). resume (deserialize_request payload) Handling)) n"
| conn_handle: "conn_step h input (Handling req) n (resume (h req) (\<lambda>resp. Writing (framed_response resp))) n"
| conn_write: "conn_step h input (Writing bs) n (Closing bs) n"
| conn_write_error: "k < length bs \<Longrightarrow> conn_step h input (Writing bs) n (Closing (take k bs)) n"
| conn_leave: "conn_step h input (Closing w) n (Closed w) (n - 1)"

inductive_cases conn_stepE: "conn_step h input st n st' n'"

section \<open>The manager\<close>

definition new_ipc_daemon :: "bool \<Rightarrow> ipc_daemon" where
  "new_ipc_daemon stale = \<lparr>acceptor_open = False, socket_exists = stale, ipc_mgr = \<lparr>active_connections = 0\<rparr>, conns = []\<rparr>"

text \<open>A socket file left over by an earlier process is removed first; \<open>binds\<close> says whether the
  acceptor can then be opened and bound.\<close>

definition start_ipc_manager :: "bool \<Rightarrow> ipc_daemon \<Rightarrow> ipc_daemon result" where
  "start_ipc_manager binds d =
     (let d1 = d\<lparr>socket_exists := False\<rparr>
      in if \<not> binds then Inl (Throw Socket_Error) else Inr (d1\<lparr>acceptor_open := True, socket_exists := True\<rparr>))"

definition stop_ipc_manager :: "ipc_daemon \<Rightarrow> ipc_daemon" where
  "stop_ipc_manager d = d\<lparr>acceptor_open := False, socket_exists := False\<rparr>"

text \<open>One turn of \<open>_accept_loop\<close>: the result of \<open>async_accept\<close> is an error or a connection.\<close>

definition accept_turn :: "byte_vec option \<Rightarrow> ipc_daemon \<Rightarrow> ipc_daemon" where
  "accept_turn accepted d =
     (case accepted of None \<Rightarrow> d | Some input \<Rightarrow> d\<lparr>conns := conns d @ [\<lparr>peer_input = input, conn_at = Spawned\<rparr>]\<rparr>)"

definition move_conn :: "nat \<Rightarrow> conn_state \<Rightarrow> u32 \<Rightarrow> ipc_daemon \<Rightarrow> ipc_daemon" where
  "move_conn i st n d =
     d\<lparr>ipc_mgr := (ipc_mgr d)\<lparr>active_connections := n\<rparr>, conns := (conns d)[i := (conns d ! i)\<lparr>conn_at := st\<rparr>]\<rparr>"

inductive ipc_step :: "(nat \<Rightarrow> unix_ipc_request \<Rightarrow> unix_ipc_response result) \<Rightarrow> ipc_daemon \<Rightarrow> ipc_daemon \<Rightarrow> bool"
  for h where
  ipc_start: "start_ipc_manager binds d = Inr d' \<Longrightarrow> ipc_step h d d'"
| ipc_accept: "acceptor_open d \<Longrightarrow> ipc_step h d (accept_turn accepted d)"
| ipc_conn: "i < length (conns d) \<Longrightarrow>
     conn_step (h i) (peer_input (conns d ! i)) (conn_at (conns d ! i)) (active_connections (ipc_mgr d)) st n \<Longrightarrow>
     ipc_step h d (move_conn i st n d)"
| ipc_stop: "ipc_step h d (stop_ipc_manager d)"

inductive ipc_reachable :: "(nat \<Rightarrow> unix_ipc_request \<Rightarrow> unix_ipc_response result) \<Rightarrow> ipc_daemon \<Rightarrow> bool" for h where
  ipc_init: "ipc_reachable h (new_ipc_daemon stale)"
| ipc_next: "ipc_reachable h d \<Longrightarrow> ipc_step h d d' \<Longrightarrow> ipc_reachable h d'"

section \<open>The counter\<close>

definition inside :: "conn_state \<Rightarrow> bool" where
  "inside st \<longleftrightarrow> (case st of Spawned \<Rightarrow> False | Closed _ \<Rightarrow> False | _ \<Rightarrow> True)"

definition inside_count :: "ipc_conn list \<Rightarrow> nat" where
  "inside_count cs = length (filter (inside \<circ> conn_at) cs)"

lemma inside_simps [simp]:
  "\<not> inside Spawned" "inside Reading_Size" "inside (Reading_Payload sz rest)" "inside (Handling req)"
  "inside (Writing bs)" "inside (Closing w)" "\<not> inside (Closed w)" "inside Crashed"
  by (simp_all add: inside_def)

lemma inside_resume: "(\<And>x. inside (k x)) \<Longrightarrow> inside (resume r k)"
  by (simp add: resume_def split: sum.split cpp_error.split)

lemma inside_count_update:
  assumes "i < length cs"
  shows "inside_count (cs[i := c]) + (if inside (conn_at (cs ! i)) then 1 else 0)
    = inside_count cs + (if inside (conn_at c) then 1 else 0)"
  using assms
proof (induction cs arbitrary: i)
  case (Cons x xs)
  then show ?case by (cases i) (auto simp: inside_count_def)
qed simp

text \<open>A step changes the counter as it enters or leaves the coroutine.\<close>

lemma conn_step_counter:
  assumes "conn_step h input st n st' n'"
  shows "n' + (if inside st then 1 else 0) = n + (if inside st' then 1 else 0)"
  using assms by (induction rule: conn_step.induct) (simp_all add: inside_resume split: prod.split)

definition ipc_inv :: "ipc_daemon \<Rightarrow> bool" where
  "ipc_inv d \<longleftrightarrow> active_connections (ipc_mgr d) = of_nat (inside_count (conns d))"

lemma ipc_inv_step:
  assumes "ipc_step h d d'" "ipc_inv d"
  shows "ipc_inv d'"
  using assms
proof (cases rule: ipc_step.cases)
  case (ipc_conn i st n)
  let ?c = "(conns d ! i)\<lparr>conn_at := st\<rparr>"
  have "of_nat (inside_count ((conns d)[i := ?c])) + (if inside (conn_at (conns d ! i)) then 1 else 0 :: u32)
      = of_nat (inside_count (conns d)) + (if inside st then 1 else 0)"
    using arg_cong [OF inside_count_update [OF ipc_conn(2), of ?c], of "of_nat :: nat \<Rightarrow> u32"] by (simp add: ac_simps split: if_splits)
  then show ?thesis
    using ipc_conn assms(2) conn_step_counter [OF ipc_conn(3)]
    by (simp add: ipc_inv_def move_conn_def) (metis add_right_imp_eq)
next
  case (ipc_accept accepted)
  then show ?thesis using assms(2) by (auto simp: ipc_inv_def accept_turn_def inside_count_def split: option.split)
qed (auto simp: ipc_inv_def start_ipc_manager_def stop_ipc_manager_def Let_def split: if_splits)

lemma ipc_inv_reachable: "ipc_reachable h d \<Longrightarrow> ipc_inv d"
proof (induction rule: ipc_reachable.induct)
  case (ipc_next d d')
  then show ?case using ipc_inv_step by blast
qed (simp add: ipc_inv_def new_ipc_daemon_def inside_count_def)

section \<open>Isolation\<close>

text \<open>What a connection still has to do, as one function of its place: what it writes if no write
  fails.\<close>

fun rest_of :: "(unix_ipc_request \<Rightarrow> unix_ipc_response result) \<Rightarrow> byte_vec \<Rightarrow> conn_state \<Rightarrow> byte_vec result" where
  "rest_of h input Spawned = catch_r (serve_connection h input) (\<lambda>_. Inr [])"
| "rest_of h input Reading_Size = catch_r (serve_connection h input) (\<lambda>_. Inr [])"
| "rest_of h input (Reading_Payload sz rest) =
     catch_r (bind_r (async_read (unat sz) rest) (\<lambda>(payload, _). bind_r (deserialize_request payload) (\<lambda>req.
       bind_r (h req) (\<lambda>resp. Inr (framed_response resp))))) (\<lambda>_. Inr [])"
| "rest_of h input (Handling req) = catch_r (bind_r (h req) (\<lambda>resp. Inr (framed_response resp))) (\<lambda>_. Inr [])"
| "rest_of h input (Writing bs) = Inr bs"
| "rest_of h input (Closing w) = Inr w"
| "rest_of h input (Closed w) = Inr w"
| "rest_of h input Crashed = Inl Undefined"

lemma rest_of_resume:
  assumes "\<And>x. r = Inr x \<Longrightarrow> rest_of h input (k x) = catch_r (f x) (\<lambda>_. Inr [])"
  shows "rest_of h input (resume r k) = catch_r (bind_r r f) (\<lambda>_. Inr [])"
  using assms by (auto simp: resume_def split: sum.split cpp_error.split)

lemma serve_connection_unfold:
  "serve_connection h input =
     bind_r (async_read 4 input) (\<lambda>(size_buf, rest). bind_r (read_u32 size_buf 0) (\<lambda>sz.
       bind_r (async_read (unat sz) rest) (\<lambda>(payload, _). bind_r (deserialize_request payload) (\<lambda>req.
         bind_r (h req) (\<lambda>resp. Inr (framed_response resp))))))"
  by (simp add: serve_connection_def read_frame_def framed_response_def bind_r_def Let_def split: sum.split prod.split)

text \<open>A step keeps what the connection will have written, but for a write that fails.\<close>

definition outcome :: "(unix_ipc_request \<Rightarrow> unix_ipc_response result) \<Rightarrow> ipc_conn \<Rightarrow> byte_vec result" where
  "outcome h c = rest_of h (peer_input c) (conn_at c)"

definition cut :: "byte_vec result \<Rightarrow> byte_vec result \<Rightarrow> bool" where
  "cut r r' \<longleftrightarrow> r' = r \<or> (\<exists>w w'. r = Inr w \<and> r' = Inr w' \<and> prefix w' w)"

lemma cut_refl [simp]: "cut r r"
  by (simp add: cut_def)

lemma cut_trans: "cut r r1 \<Longrightarrow> cut r1 r2 \<Longrightarrow> cut r r2"
  by (auto simp: cut_def intro: prefix_order.trans)

lemma rest_of_size:
  "rest_of h input (resume (async_read 4 input) (\<lambda>(size_buf, rest). resume (read_u32 size_buf 0) (\<lambda>sz. Reading_Payload sz rest)))
     = rest_of h input Reading_Size"
  unfolding rest_of.simps(2) serve_connection_unfold
  by (intro rest_of_resume) (auto intro!: rest_of_resume split: prod.split)

lemma rest_of_payload:
  "rest_of h input (resume (async_read (unat sz) rest) (\<lambda>(payload, _). resume (deserialize_request payload) Handling))
     = rest_of h input (Reading_Payload sz rest)"
  unfolding rest_of.simps(3) by (intro rest_of_resume) (auto intro!: rest_of_resume split: prod.split)

lemma rest_of_handle:
  "rest_of h input (resume (h req) (\<lambda>resp. Writing (framed_response resp))) = rest_of h input (Handling req)"
  unfolding rest_of.simps(4) by (intro rest_of_resume) simp

lemma conn_step_outcome:
  assumes "conn_step h input st n st' n'"
  shows "cut (rest_of h input st) (rest_of h input st')"
  using assms
proof (induction rule: conn_step.induct)
  case (conn_write_error k bs n)
  then show ?case by (auto simp: cut_def take_is_prefix)
qed (simp_all only: rest_of_size rest_of_payload rest_of_handle, simp_all)

lemma conn_outcome_reachable:
  assumes "ipc_reachable h d" "i < length (conns d)"
  shows "cut (rest_of (h i) (peer_input (conns d ! i)) Spawned) (outcome (h i) (conns d ! i))"
  using assms
proof (induction arbitrary: i rule: ipc_reachable.induct)
  case (ipc_next d d')
  from ipc_next.hyps(2) show ?case
  proof (cases rule: ipc_step.cases)
    case (ipc_conn j st n)
    then show ?thesis
      using ipc_next.IH [of i] ipc_next.prems conn_step_outcome [OF ipc_conn(3)]
      by (cases "i = j") (auto simp: move_conn_def outcome_def intro: cut_trans)
  next
    case (ipc_accept accepted)
    then show ?thesis
      using ipc_next.IH [of i] ipc_next.prems
      by (auto simp: accept_turn_def outcome_def nth_append less_Suc_eq split: option.splits)
  next
    case ipc_start
    then have "conns d' = conns d" by (auto simp: start_ipc_manager_def Let_def split: if_splits)
    then show ?thesis using ipc_next by simp
  next
    case ipc_stop
    then show ?thesis using ipc_next by (simp add: stop_ipc_manager_def)
  qed
qed (simp add: new_ipc_daemon_def)

section \<open>Progress\<close>

fun steps_left :: "conn_state \<Rightarrow> nat" where
  "steps_left Spawned = 6" | "steps_left Reading_Size = 5" | "steps_left (Reading_Payload sz rest) = 4"
| "steps_left (Handling req) = 3" | "steps_left (Writing bs) = 2" | "steps_left (Closing w) = 1"
| "steps_left (Closed w) = 0" | "steps_left Crashed = 0"

lemma steps_left_resume: "(\<And>x. steps_left (k x) < m) \<Longrightarrow> 1 < m \<Longrightarrow> steps_left (resume r k) < m"
  by (simp add: resume_def split: sum.split cpp_error.split)

lemma steps_left_next:
  "steps_left (resume (async_read 4 input) (\<lambda>(size_buf, rest). resume (read_u32 size_buf 0) (\<lambda>sz. Reading_Payload sz rest))) < 5"
  "steps_left (resume (async_read (unat sz) rest) (\<lambda>(payload, _). resume (deserialize_request payload) Handling)) < 4"
  "steps_left (resume (h req) (\<lambda>resp. Writing (framed_response resp))) < 3"
  by (auto intro!: steps_left_resume split: prod.split)

lemma conn_progress:
  assumes "rest_of h input st = Inr w" "st \<noteq> Closed w"
  shows "\<exists>st' n'. conn_step h input st n st' n' \<and> rest_of h input st' = Inr w \<and> steps_left st' < steps_left st"
proof (cases st)
  case Reading_Size
  then show ?thesis
    using conn_size [of h input n] rest_of_size [of h input] steps_left_next(1) [of input] assms(1)
    by (metis steps_left.simps(2))
next
  case (Reading_Payload sz rest)
  then show ?thesis
    using conn_payload [of h input sz rest n] rest_of_payload [of h input sz rest] steps_left_next(2) [of sz rest] assms(1)
    by (metis steps_left.simps(3))
next
  case (Handling req)
  then show ?thesis
    using conn_handle [of h input req n] rest_of_handle [of h input req] steps_left_next(3) [of h req] assms(1)
    by (metis steps_left.simps(4))
qed (use assms in \<open>fastforce intro: conn_step.intros\<close>)+

lemma conn_runs_to_end:
  assumes "i < length (conns d)" "outcome (h i) (conns d ! i) = Inr w"
  shows "\<exists>k \<le> steps_left (conn_at (conns d ! i)). \<exists>d'. (ipc_step h ^^ k) d d'
    \<and> conns d' = (conns d)[i := \<lparr>peer_input = peer_input (conns d ! i), conn_at = Closed w\<rparr>]"
  using assms
proof (induction "steps_left (conn_at (conns d ! i))" arbitrary: d rule: less_induct)
  case less
  let ?c = "conns d ! i"
  show ?case
  proof (cases "conn_at ?c = Closed w")
    case True
    then have "conns d = (conns d)[i := \<lparr>peer_input = peer_input ?c, conn_at = Closed w\<rparr>]"
      by (metis ipc_conn.surjective list_update_id old.unit.exhaust)
    then show ?thesis by (intro exI [of _ 0]) auto
  next
    case False
    then obtain st n where s: "conn_step (h i) (peer_input ?c) (conn_at ?c) (active_connections (ipc_mgr d)) st n"
        "rest_of (h i) (peer_input ?c) st = Inr w" "steps_left st < steps_left (conn_at ?c)"
      using conn_progress less.prems(2) unfolding outcome_def by blast
    let ?d = "move_conn i st n d"
    have d: "conns ?d ! i = ?c\<lparr>conn_at := st\<rparr>" "i < length (conns ?d)"
      using less.prems(1) by (simp_all add: move_conn_def)
    obtain k d' where k: "k \<le> steps_left st" "(ipc_step h ^^ k) ?d d'"
        "conns d' = (conns ?d)[i := \<lparr>peer_input = peer_input ?c, conn_at = Closed w\<rparr>]"
      using less.hyps [of ?d] s d by (auto simp: outcome_def)
    have "(ipc_step h ^^ Suc k) d d'"
      by (rule relpowp_Suc_I2 [OF ipc_step.ipc_conn k(2)]) (rule less.prems(1), rule s(1))
    then show ?thesis
      using k(1,3) s(3) by (intro exI [of _ "Suc k"]) (auto simp: move_conn_def)
  qed
qed

section \<open>Properties\<close>

text \<open>C8. The counter of active connections is exact: in every reachable state, under every interleaving
  of the accept loop and the connections, it is the number of connections between their first and
  their last step, as long as there are less than \<open>2 ^ 32\<close> of them.\<close>

theorem active_connections_exact:
  assumes "ipc_reachable h d" "inside_count (conns d) < 2 ^ 32"
  shows "unat (active_connections (ipc_mgr d)) = inside_count (conns d)"
  using ipc_inv_reachable [OF assms(1)] assms(2) by (simp add: ipc_inv_def unat_of_nat take_bit_nat_eq_self)



section \<open>A daemon with two connections\<close>

definition two_peers :: ipc_daemon where
  "two_peers = accept_turn (Some []) (accept_turn None (accept_turn (Some [0, 0])
     ((new_ipc_daemon True)\<lparr>acceptor_open := True, socket_exists := True\<rparr>)))"

definition one_inside :: ipc_daemon where
  "one_inside = move_conn 0 Reading_Size 1 two_peers"

definition one_closed :: ipc_daemon where
  "one_closed = move_conn 0 (Closed []) 0 (move_conn 0 (Closing []) 1 one_inside)"

definition no_handler :: "nat \<Rightarrow> unix_ipc_request \<Rightarrow> unix_ipc_response result" where
  "no_handler i req = Inl Undefined"

lemma accept_turn_open [simp]: "acceptor_open (accept_turn a d) = acceptor_open d"
  by (simp add: accept_turn_def split: option.split)

lemma ipc_reachable_accept: "ipc_reachable h d \<Longrightarrow> acceptor_open d \<Longrightarrow> ipc_reachable h (accept_turn a d)"
  by (rule ipc_next [OF _ ipc_accept])

lemma two_peers_reachable: "ipc_reachable h two_peers"
proof -
  have "ipc_reachable h ((new_ipc_daemon True)\<lparr>acceptor_open := True, socket_exists := True\<rparr>)"
    by (rule ipc_next [OF ipc_init [of h True] ipc_start [where binds = True]]) (simp add: start_ipc_manager_def new_ipc_daemon_def)
  then show ?thesis unfolding two_peers_def by (simp add: ipc_reachable_accept)
qed

lemma two_peers_conns: "conns two_peers = [\<lparr>peer_input = [0, 0], conn_at = Spawned\<rparr>, \<lparr>peer_input = [], conn_at = Spawned\<rparr>]"
  by (simp add: two_peers_def accept_turn_def new_ipc_daemon_def)

lemma two_peers_count: "active_connections (ipc_mgr two_peers) = 0"
  by (simp add: two_peers_def accept_turn_def new_ipc_daemon_def)

lemma one_inside_reachable: "ipc_reachable h one_inside"
  unfolding one_inside_def
  by (rule ipc_next [OF two_peers_reachable ipc_conn])
    (use conn_enter [of "h 0" "[0, 0]" 0] in \<open>simp_all add: two_peers_conns two_peers_count\<close>)

lemma one_closed_reachable: "ipc_reachable h one_closed"
  unfolding one_closed_def
proof (rule ipc_next [OF ipc_next [OF one_inside_reachable ipc_conn] ipc_conn])
  let ?c = "conns one_inside ! 0"
  show "0 < length (conns one_inside)" "0 < length (conns (move_conn 0 (Closing []) 1 one_inside))"
    by (simp_all add: one_inside_def move_conn_def two_peers_conns)
  show "conn_step (h 0) (peer_input ?c) (conn_at ?c) (active_connections (ipc_mgr one_inside)) (Closing []) 1"
    using conn_size [of "h 0" "[0, 0]" 1]
    by (simp add: one_inside_def move_conn_def two_peers_conns async_read_def resume_def)
  let ?d = "move_conn 0 (Closing []) 1 one_inside"
  show "conn_step (h 0) (peer_input (conns ?d ! 0)) (conn_at (conns ?d ! 0)) (active_connections (ipc_mgr ?d)) (Closed []) 0"
    using conn_leave [of "h 0" "[0, 0]" "[]" 1]
    by (simp add: one_inside_def move_conn_def two_peers_conns)
qed

theorem active_connections_exact_witness:
  "inside_count (conns one_inside) = 1 \<and> unat (active_connections (ipc_mgr one_inside)) = inside_count (conns one_inside)"
proof -
  have "inside_count (conns one_inside) = 1"
    by (simp add: one_inside_def move_conn_def two_peers_conns inside_count_def)
  then show ?thesis using active_connections_exact [OF one_inside_reachable [of no_handler]] by simp
qed



end
