(* ===== verification/Std_Fs.thy ===== *)
theory Std_Fs
  imports DB_Prelude
begin

text \<open>
  What the sources use of \<open>std::filesystem::path\<close> (POSIX separators) and of file streams.
  A path is its string. A file store maps the path a program names to the bytes of the file;
  an \<open>std::ofstream\<close> is a handle with its own position, and each write is visible in the
  store at once (the sources close a stream before they look at the file).
\<close>

section \<open>\<open>std::filesystem::path\<close>\<close>

abbreviation sep :: char where "sep \<equiv> CHR ''/''"

definition is_absolute :: "string \<Rightarrow> bool" where
  "is_absolute p \<longleftrightarrow> starts_with p ''/''"

text \<open>\<open>a / b\<close>\<close>

definition path_append :: "string \<Rightarrow> string \<Rightarrow> string" where
  "path_append a b =
     (if is_absolute b then b else if a = [] \<or> last a = sep then a @ b else a @ [sep] @ b)"

definition relative_path :: "string \<Rightarrow> string" where
  "relative_path p = dropWhile (\<lambda>c. c = sep) p"

definition strip_right :: "(char \<Rightarrow> bool) \<Rightarrow> string \<Rightarrow> string" where
  "strip_right P s = rev (dropWhile P (rev s))"

definition path_filename :: "string \<Rightarrow> string" where
  "path_filename p = rev (takeWhile (\<lambda>c. c \<noteq> sep) (rev p))"

definition parent_path :: "string \<Rightarrow> string" where
  "parent_path p =
     (if relative_path p = [] then p
      else let base = strip_right (\<lambda>c. c = sep) (strip_right (\<lambda>c. c \<noteq> sep) p)
           in if base = [] \<and> is_absolute p then [sep] else base)"

text \<open>\<open>replace_extension\<close>: the extension is what follows the last dot of the filename, which
  is not its first character; \<open>.\<close> and \<open>..\<close> have none.\<close>

definition path_extension :: "string \<Rightarrow> string" where
  "path_extension p =
     (let f = path_filename p; ext = takeWhile (\<lambda>c. c \<noteq> CHR ''.'') (rev f)
      in if f = ''..'' \<or> CHR ''.'' \<notin> set f \<or> length ext + 1 = length f then []
         else CHR ''.'' # rev ext)"

definition replace_extension :: "string \<Rightarrow> string \<Rightarrow> string" where
  "replace_extension p ext =
     (let stem = take (length p - length (path_extension p)) p
      in if ext \<noteq> [] \<and> hd ext \<noteq> CHR ''.'' then stem @ [CHR ''.''] @ ext else stem @ ext)"

lemma is_absolute_simps [simp]:
  "is_absolute [] = False" "is_absolute (c # s) \<longleftrightarrow> c = sep"
  by (simp_all add: is_absolute_def)

lemma path_append_relative:
  "a \<noteq> [] \<Longrightarrow> last a \<noteq> sep \<Longrightarrow> \<not> is_absolute b \<Longrightarrow> path_append a b = a @ [sep] @ b"
  by (simp add: path_append_def)

lemma relative_path_not_absolute [simp]: "\<not> is_absolute (relative_path p)"
  by (induction p) (simp_all add: relative_path_def)

lemma relative_path_absolute: "\<not> is_absolute r \<Longrightarrow> relative_path (sep # r) = r"
  by (cases r) (simp_all add: relative_path_def)

section \<open>Files and output streams\<close>

type_synonym file_store = "string \<rightharpoonup> string"

record out_stream =
  is_open :: bool
  stream_path :: string
  stream_pos :: nat

text \<open>\<open>std::ofstream(path, std::ios::binary)\<close>: creates or truncates the file, when the
  operating system lets it (\<open>openable\<close>); otherwise the stream is in a failed state.\<close>

definition open_out :: "(string \<Rightarrow> bool) \<Rightarrow> string \<Rightarrow> file_store \<Rightarrow> out_stream \<times> file_store" where
  "open_out openable p fs =
     (if openable p then (\<lparr>is_open = True, stream_path = p, stream_pos = 0\<rparr>, fs(p \<mapsto> []))
      else (\<lparr>is_open = False, stream_path = p, stream_pos = 0\<rparr>, fs))"

definition write_at :: "nat \<Rightarrow> string \<Rightarrow> string \<Rightarrow> string" where
  "write_at pos content data =
     take pos (content @ replicate (pos - length content) (CHR 0x00)) @ data
       @ drop (pos + length data) content"

definition stream_write :: "out_stream \<Rightarrow> string \<Rightarrow> file_store \<Rightarrow> out_stream \<times> file_store" where
  "stream_write st data fs =
     (if is_open st
      then (st\<lparr>stream_pos := stream_pos st + length data\<rparr>,
            fs(stream_path st \<mapsto>
                 write_at (stream_pos st) (case fs (stream_path st) of None \<Rightarrow> [] | Some c \<Rightarrow> c) data))
      else (st, fs))"

definition stream_close :: "out_stream \<Rightarrow> out_stream" where
  "stream_close st = st\<lparr>is_open := False\<rparr>"

definition file_size :: "file_store \<Rightarrow> string \<Rightarrow> u64 result" where
  "file_size fs p = (case fs p of None \<Rightarrow> Inl (Throw Filesystem_Error) | Some c \<Rightarrow> Inr (u64_size c))"

lemma write_at_end [simp]: "write_at (length c) c d = c @ d"
  by (simp add: write_at_def)

lemma open_out_write:
  assumes "openable p"
  shows "open_out openable p fs = (\<lparr>is_open = True, stream_path = p, stream_pos = 0\<rparr>, fs(p \<mapsto> []))"
  using assms by (simp add: open_out_def)

lemma stream_write_append:
  assumes "is_open st" and "fs (stream_path st) = Some c" and "stream_pos st = length c"
  shows "stream_write st d fs = (st\<lparr>stream_pos := length (c @ d)\<rparr>, fs(stream_path st \<mapsto> c @ d))"
  using assms by (simp add: stream_write_def)

lemma stream_write_other:
  "q \<noteq> stream_path st \<Longrightarrow> snd (stream_write st d fs) q = fs q"
  by (simp add: stream_write_def)

end
