(* ===== verification/Includes.thy ===== *)
theory Includes
  imports Std_Fs "HOL-Library.AList"
begin

text \<open>
  The include scanner of the client: \<open>src/src/includes_rework.hpp\<close> and
  \<open>includes_rework.cpp\<close>. It finds the \<open>#include\<close> directives of a source file, resolves each
  of them against the include directories and follows the headers it finds, using a cache that
  lives as long as the daemon.

  The record \<open>source_env\<close> is what the client's file system gives: \<open>src_file\<close> maps a path that
  \<open>std::ifstream\<close> can open to the bytes read from it, \<open>src_is_dir\<close> tells directories,
  \<open>src_sha1\<close> is boost's digest. A hash map that is iterated over is an association list. The
  recursion between \<open>_process_include_directive\<close> and \<open>_try_resolve_header\<close> is bounded by
  fuel; a lemma below says how much is enough.
\<close>

section \<open>Include directories\<close>

record cmd_line_include_dirs =
  dash_i :: "string list"
  dash_isystem :: "string list"
  dash_iquote :: "string list"
  dash_include :: "string list"

definition no_include_dirs :: cmd_line_include_dirs where
  "no_include_dirs = \<lparr>dash_i = [], dash_isystem = [], dash_iquote = [], dash_include = []\<rparr>"

definition cnvt_to_cmd_line_args :: "cmd_line_include_dirs \<Rightarrow> string list" where
  "cnvt_to_cmd_line_args dirs =
     map (\<lambda>d. ''-I'' @ d) (dash_i dirs)
     @ concat (map (\<lambda>d. [''-iquote'', d]) (dash_iquote dirs))
     @ concat (map (\<lambda>d. [''-isystem'', d]) (dash_isystem dirs))
     @ concat (map (\<lambda>d. [''-include'', d]) (dash_include dirs))"

definition append_include_dirs :: "cmd_line_include_dirs \<Rightarrow> cmd_line_include_dirs \<Rightarrow> cmd_line_include_dirs" where
  "append_include_dirs dirs other =
     \<lparr>dash_i = dash_i dirs @ dash_i other, dash_isystem = dash_isystem dirs @ dash_isystem other,
      dash_iquote = dash_iquote dirs @ dash_iquote other, dash_include = dash_include dirs @ dash_include other\<rparr>"

text \<open>\<open>find_system_includes\<close>: the lines read from the compiler's standard error up to the first
  empty one. The regular expression \<open>^\s*(\/\S+)\<close> has to match the whole line.\<close>

definition match_inc_dir :: "string \<Rightarrow> string option" where
  "match_inc_dir line =
     (let p = dropWhile isspace line
      in if starts_with p ''/'' \<and> 2 \<le> length p \<and> list_all (\<lambda>c. \<not> isspace c) p then Some p else None)"

definition contains_sub :: "string \<Rightarrow> string \<Rightarrow> bool" where
  "contains_sub s p \<longleftrightarrow> (\<exists>i \<in> set [0..<Suc (length s)]. starts_with (drop i s) p)"

fun find_system_includes :: "(string \<Rightarrow> string) \<Rightarrow> string list \<Rightarrow> cmd_line_include_dirs \<Rightarrow> cmd_line_include_dirs" where
  "find_system_includes weakly_canonical [] dirs = dirs"
| "find_system_includes weakly_canonical (line # lines) dirs =
     (if line = [] then dirs
      else find_system_includes weakly_canonical lines
        (if contains_sub line ''ignoring'' then dirs
         else case match_inc_dir line of
             None \<Rightarrow> dirs
           | Some p \<Rightarrow>
               if starts_with p ''/usr/''
               then dirs\<lparr>dash_isystem := dash_isystem dirs @ [weakly_canonical p]\<rparr>
               else dirs\<lparr>dash_i := dash_i dirs @ [p]\<rparr>))"

section \<open>Scanning a file\<close>

datatype include_type = INCLUDE_TYPE_ANGLE | INCLUDE_TYPE_QUOTE | INCLUDE_TYPE_COUNT

record include_directive =
  inc_content :: string
  inc_type :: include_type

text \<open>The lines \<open>std::getline\<close> returns.\<close>

function getlines :: "string \<Rightarrow> string list" where
  "getlines s =
     (if s = [] then []
      else takeWhile (\<lambda>c. c \<noteq> CHR 0x0A) s # getlines (drop 1 (dropWhile (\<lambda>c. c \<noteq> CHR 0x0A) s)))"
  by pat_completeness auto
termination
proof (relation "measure length", goal_cases)
  case (2 s)
  have "length (dropWhile (\<lambda>c. c \<noteq> CHR 0x0A) s) \<le> length s" by (rule length_dropWhile_le)
  with 2 show ?case by (cases s) auto
qed simp

declare getlines.simps [simp del]

text \<open>A name up to a closing character, as \<open>find\<close> and \<open>substr\<close> cut it out.\<close>

definition until_char :: "char \<Rightarrow> string \<Rightarrow> string option" where
  "until_char c s = map_option (\<lambda>n. take n s) (find_char_in c s)"

definition parse_include_line :: "string \<Rightarrow> include_directive option" where
  "parse_include_line line =
     (case find_char line (CHR ''#'') 0 of
        None \<Rightarrow> None
      | Some pos \<Rightarrow>
          let rest = dropWhile isspace (drop (pos + 1) line);
              after_kw = (if starts_with rest ''include_next'' then Some (drop 12 rest)
                          else if starts_with rest ''include'' then Some (drop 7 rest) else None)
          in case after_kw of
               None \<Rightarrow> None
             | Some r \<Rightarrow>
                 (case dropWhile isspace r of
                    [] \<Rightarrow> None
                  | c # name \<Rightarrow>
                      if c = CHR ''<''
                      then map_option (\<lambda>f. \<lparr>inc_content = f, inc_type = INCLUDE_TYPE_ANGLE\<rparr>)
                             (until_char (CHR ''>'') name)
                      else if c = CHR 0x22
                      then map_option (\<lambda>f. \<lparr>inc_content = f, inc_type = INCLUDE_TYPE_QUOTE\<rparr>)
                             (until_char (CHR 0x22) name)
                      else None))"

definition find_file_includes :: "string \<Rightarrow> include_directive list" where
  "find_file_includes content = List.map_filter parse_include_line (getlines content)"

section \<open>The cache\<close>

record include_info =
  file_path :: string
  child_includes :: "include_directive list"
  include_sz_bytes :: u64
  include_hash :: string

record includes_cache =
  include_abs_paths :: "string \<rightharpoonup> string"
  include_cache_data :: "string \<rightharpoonup> include_info"
  does_not_exist :: "string set"

definition empty_cache :: includes_cache where
  "empty_cache = \<lparr>include_abs_paths = Map.empty, include_cache_data = Map.empty, does_not_exist = {}\<rparr>"

definition add_include_entry :: "string \<Rightarrow> string \<Rightarrow> include_info \<Rightarrow> includes_cache \<Rightarrow> includes_cache" where
  "add_include_entry include_name abs_path info cache =
     cache\<lparr>include_abs_paths := (include_abs_paths cache)(include_name \<mapsto> abs_path),
           include_cache_data := (include_cache_data cache)(include_name \<mapsto> info)\<rparr>"

definition get_include_abs_path :: "includes_cache \<Rightarrow> string \<Rightarrow> string option" where
  "get_include_abs_path cache include_name = include_abs_paths cache include_name"

definition get_include_info :: "includes_cache \<Rightarrow> string \<Rightarrow> include_info option" where
  "get_include_info cache include_name = include_cache_data cache include_name"

definition mark_src_nonexistent :: "string \<Rightarrow> includes_cache \<Rightarrow> includes_cache" where
  "mark_src_nonexistent path cache = cache\<lparr>does_not_exist := insert path (does_not_exist cache)\<rparr>"

definition is_src_nonexistent :: "includes_cache \<Rightarrow> string \<Rightarrow> bool" where
  "is_src_nonexistent cache path \<longleftrightarrow> path \<in> does_not_exist cache"

definition requires_inc_storage :: "string \<Rightarrow> cmd_line_include_dirs \<Rightarrow> bool" where
  "requires_inc_storage include_filename dirs =
     (if list_ex (\<lambda>d. starts_with include_filename d) (dash_i dirs) then False
      else list_ex (\<lambda>d. starts_with include_filename d) (dash_isystem dirs))"

section \<open>The parser\<close>

record source_env =
  src_file :: "string \<rightharpoonup> string"
  src_is_dir :: "string \<Rightarrow> bool"
  src_sha1 :: "string \<Rightarrow> string"

record parser_state =
  includes_cache_of :: includes_cache
  inc_directives :: "(string \<times> include_info) list"

definition store_directive :: "string \<Rightarrow> include_info \<Rightarrow> parser_state \<Rightarrow> parser_state" where
  "store_directive path info st = st\<lparr>inc_directives := AList.update path info (inc_directives st)\<rparr>"

definition info_of_file :: "source_env \<Rightarrow> string \<Rightarrow> string \<Rightarrow> include_info" where
  "info_of_file env path content =
     \<lparr>file_path = path, child_includes = find_file_includes content,
      include_sz_bytes = u64_size content, include_hash = src_sha1 env content\<rparr>"

text \<open>The paths \<open>_process_include_directive\<close> tries, in its order.\<close>

definition candidates :: "cmd_line_include_dirs \<Rightarrow> string \<Rightarrow> include_directive \<Rightarrow> string list" where
  "candidates dirs parent d =
     (if starts_with (inc_content d) ''/'' then [inc_content d] else [])
     @ (if inc_type d = INCLUDE_TYPE_QUOTE
        then path_append (parent_path parent) (inc_content d)
             # map (\<lambda>q. path_append q (inc_content d)) (dash_iquote dirs)
        else [])
     @ map (\<lambda>i. path_append i (inc_content d)) (dash_i dirs)
     @ map (\<lambda>y. path_append y (inc_content d)) (dash_isystem dirs)"

text \<open>The searches stop at the first path that resolves.\<close>

fun try_candidates ::
    "(string \<Rightarrow> parser_state \<Rightarrow> (bool \<times> parser_state) option) \<Rightarrow> string list \<Rightarrow> parser_state
      \<Rightarrow> (bool \<times> parser_state) option" where
  "try_candidates resolve [] st = Some (False, st)"
| "try_candidates resolve (p # ps) st =
     (case resolve p st of
        None \<Rightarrow> None
      | Some (True, st') \<Rightarrow> Some (True, st')
      | Some (False, st') \<Rightarrow> try_candidates resolve ps st')"

text \<open>\<open>_process_include_directive\<close>, with the resolver of one header as an argument.\<close>

definition process_include_directive ::
    "(string \<Rightarrow> include_directive \<Rightarrow> parser_state \<Rightarrow> (bool \<times> parser_state) option)
      \<Rightarrow> cmd_line_include_dirs \<Rightarrow> string \<Rightarrow> include_directive \<Rightarrow> parser_state
      \<Rightarrow> (bool \<times> parser_state) option" where
  "process_include_directive resolve dirs parent d st =
     (let cached =
        (if inc_type d = INCLUDE_TYPE_ANGLE
         then case get_include_abs_path (includes_cache_of st) (inc_content d) of
                None \<Rightarrow> None
              | Some abs_path \<Rightarrow>
                  map_option (\<lambda>info. (abs_path, info)) (get_include_info (includes_cache_of st) abs_path)
         else None)
      in case cached of
           Some (abs_path, info) \<Rightarrow> Some (True, store_directive abs_path info st)
         | None \<Rightarrow> try_candidates (\<lambda>p. resolve p d) (candidates dirs parent d) st)"

fun process_children ::
    "(include_directive \<Rightarrow> parser_state \<Rightarrow> (bool \<times> parser_state) option)
      \<Rightarrow> include_directive list \<Rightarrow> parser_state \<Rightarrow> parser_state option" where
  "process_children process [] st = Some st"
| "process_children process (c # cs) st =
     (case process c st of None \<Rightarrow> None | Some (_, st') \<Rightarrow> process_children process cs st')"

definition cache_header ::
    "cmd_line_include_dirs \<Rightarrow> string \<Rightarrow> include_directive \<Rightarrow> include_info \<Rightarrow> includes_cache \<Rightarrow> includes_cache" where
  "cache_header dirs path d info cache =
     (if requires_inc_storage path dirs
      then case inc_type d of
             INCLUDE_TYPE_ANGLE \<Rightarrow> add_include_entry (inc_content d) path info cache
           | INCLUDE_TYPE_QUOTE \<Rightarrow> add_include_entry path path info cache
           | INCLUDE_TYPE_COUNT \<Rightarrow> cache
      else cache)"

fun try_resolve_header ::
    "nat \<Rightarrow> source_env \<Rightarrow> cmd_line_include_dirs \<Rightarrow> string \<Rightarrow> include_directive \<Rightarrow> parser_state
      \<Rightarrow> (bool \<times> parser_state) option" where
  "try_resolve_header 0 env dirs path d st = None"
| "try_resolve_header (Suc fuel) env dirs path d st =
     (if map_of (inc_directives st) path \<noteq> None then Some (True, st)
      else case get_include_info (includes_cache_of st)
                  (if inc_type d = INCLUDE_TYPE_ANGLE then inc_content d else path) of
          Some info \<Rightarrow> Some (True, store_directive path info st)
        | None \<Rightarrow>
            if src_is_dir env path then Some (False, st)
            else (case src_file env path of
                    None \<Rightarrow> Some (False, st)
                  | Some content \<Rightarrow>
                      let info = info_of_file env path content;
                          st1 = st\<lparr>includes_cache_of := cache_header dirs path d info (includes_cache_of st)\<rparr>;
                          st2 = store_directive path info st1
                      in map_option (\<lambda>st3. (True, st3))
                           (process_children
                              (process_include_directive (try_resolve_header fuel env dirs) dirs path)
                              (child_includes info) st2)))"

definition parse_source_file_includes ::
    "nat \<Rightarrow> source_env \<Rightarrow> cmd_line_include_dirs \<Rightarrow> string \<Rightarrow> string list \<Rightarrow> parser_state
      \<Rightarrow> (bool \<times> parser_state) option" where
  "parse_source_file_includes fuel env dirs cpp cmd_line_includes st =
     (case src_file env cpp of
        None \<Rightarrow> Some (False, st)
      | Some content \<Rightarrow>
          map_option (\<lambda>st'. (True, st'))
            (process_children (process_include_directive (try_resolve_header fuel env dirs) dirs cpp)
               (map (\<lambda>c. \<lparr>inc_content = c, inc_type = INCLUDE_TYPE_ANGLE\<rparr>) cmd_line_includes
                @ find_file_includes content) st))"

section \<open>What a search step may rely on\<close>

text \<open>
  The searches are built from smaller ones. The locale states the contract of a step once: it is
  called in states that satisfy \<open>P\<close>, it returns, and it relates the states before and after by
  the preorder \<open>R\<close>, which keeps \<open>P\<close>. \<open>D c st\<close> says that directive \<open>c\<close> has been dealt with.
\<close>

locale search_contract =
  fixes P :: "parser_state \<Rightarrow> bool"
    and R :: "parser_state \<Rightarrow> parser_state \<Rightarrow> bool"
    and D :: "include_directive \<Rightarrow> parser_state \<Rightarrow> bool"
  assumes R_refl: "R st st"
    and R_trans: "R st st' \<Longrightarrow> R st' st'' \<Longrightarrow> R st st''"
    and R_keeps: "P st \<Longrightarrow> R st st' \<Longrightarrow> P st'"
    and D_stable: "D c st \<Longrightarrow> R st st' \<Longrightarrow> D c st'"
begin

lemma try_candidates_contract:
  assumes "\<And>us p vs st. ps = us @ p # vs \<Longrightarrow> \<forall>u\<in>set us. N u \<Longrightarrow> P st \<Longrightarrow>
             \<exists>b st'. r p st = Some (b, st') \<and> R st st' \<and> (if b then F p st' else N p)"
    and "P st"
  shows "\<exists>b st'. try_candidates r ps st = Some (b, st') \<and> R st st' \<and>
           (if b then \<exists>us p vs. ps = us @ p # vs \<and> (\<forall>u\<in>set us. N u) \<and> F p st'
            else \<forall>u\<in>set ps. N u)"
  using assms
proof (induction ps arbitrary: st)
  case Nil
  then show ?case by (auto simp: R_refl intro: exI [of _ False])
next
  case (Cons p ps)
  obtain b st1 where p: "r p st = Some (b, st1)" "R st st1" "if b then F p st1 else N p"
    using Cons.prems(1) [of "[]" p ps st] Cons.prems(2) by auto
  show ?case
  proof (cases b)
    case True
    then have "F p st1" using p by simp
    then have "p # ps = [] @ p # ps \<and> (\<forall>u\<in>set []. N u) \<and> F p st1" by simp
    then have "\<exists>us q vs. p # ps = us @ q # vs \<and> (\<forall>u\<in>set us. N u) \<and> F q st1" by blast
    then show ?thesis using p True by (intro exI [of _ True] exI [of _ st1]) simp
  next
    case False
    have "P st1" using Cons.prems(2) p(2) by (rule R_keeps)
    moreover have "\<exists>b st'. r q st = Some (b, st') \<and> R st st' \<and> (if b then F q st' else N q)"
      if "ps = us @ q # vs" "\<forall>u\<in>set us. N u" "P st" for us q vs st
      using Cons.prems(1) [of "p # us" q vs st] that p(3) False by simp
    ultimately obtain b2 st2 where r: "try_candidates r ps st1 = Some (b2, st2)" "R st1 st2"
      "if b2 then \<exists>us q vs. ps = us @ q # vs \<and> (\<forall>u\<in>set us. N u) \<and> F q st2 else \<forall>u\<in>set ps. N u"
      using Cons.IH [of st1] by blast
    have "if b2 then \<exists>us q vs. p # ps = us @ q # vs \<and> (\<forall>u\<in>set us. N u) \<and> F q st2
          else \<forall>u\<in>set (p # ps). N u"
    proof (cases b2)
      case True
      then obtain us q vs where "ps = us @ q # vs" "\<forall>u\<in>set us. N u" "F q st2" using r by auto
      then have "p # ps = (p # us) @ q # vs \<and> (\<forall>u\<in>set (p # us). N u) \<and> F q st2"
        using p False by simp
      then show ?thesis using True by (simp only: if_True) blast
    qed (use r p False in simp)
    then show ?thesis using p r False R_trans [OF p(2) r(2)]
      by (intro exI [of _ b2] exI [of _ st2]) simp
  qed
qed

lemma process_children_contract:
  assumes "\<And>c st. c \<in> set cs \<Longrightarrow> P st \<Longrightarrow> \<exists>b st'. process c st = Some (b, st') \<and> R st st' \<and> D c st'"
    and "P st"
  shows "\<exists>st'. process_children process cs st = Some st' \<and> R st st' \<and> (\<forall>c\<in>set cs. D c st')"
  using assms
proof (induction cs arbitrary: st)
  case Nil
  then show ?case by (simp add: R_refl)
next
  case (Cons c cs)
  obtain b st1 where c: "process c st = Some (b, st1)" "R st st1" "D c st1"
    using Cons.prems(1) [of c st] Cons.prems(2) by auto
  have "P st1" using Cons.prems(2) c(2) by (rule R_keeps)
  then obtain st2 where r: "process_children process cs st1 = Some st2" "R st1 st2" "\<forall>d\<in>set cs. D d st2"
    using Cons.IH [of st1] Cons.prems(1) by auto
  then show ?case using c r R_trans [OF c(2) r(2)] D_stable [OF c(3) r(2)] by simp
qed

end

section \<open>Termination, and that every entry describes a file\<close>

definition inc_keys :: "parser_state \<Rightarrow> string set" where
  "inc_keys st = dom (map_of (inc_directives st))"

text \<open>\<open>accurate\<close>: the path, size, hash and directives stored are those of a file that is there.\<close>

definition accurate :: "source_env \<Rightarrow> include_info \<Rightarrow> bool" where
  "accurate env info \<longleftrightarrow>
     (case src_file env (file_path info) of
        None \<Rightarrow> False
      | Some content \<Rightarrow> child_includes info = find_file_includes content \<and> include_sz_bytes info = u64_size content
          \<and> include_hash info = src_sha1 env content)"

definition sound_cache :: "source_env \<Rightarrow> includes_cache \<Rightarrow> bool" where
  "sound_cache env cache \<longleftrightarrow> (\<forall>info \<in> ran (include_cache_data cache). accurate env info)"

definition sound_pre :: "source_env \<Rightarrow> nat \<Rightarrow> parser_state \<Rightarrow> bool" where
  "sound_pre env n st \<longleftrightarrow>
     finite (dom (src_file env)) \<and> card (dom (src_file env) - inc_keys st) < n
     \<and> sound_cache env (includes_cache_of st) \<and> distinct (map fst (inc_directives st))
     \<and> (\<forall>info \<in> ran (map_of (inc_directives st)). accurate env info)"

definition sound_step :: "source_env \<Rightarrow> parser_state \<Rightarrow> parser_state \<Rightarrow> bool" where
  "sound_step env st st' \<longleftrightarrow>
     inc_keys st \<subseteq> inc_keys st' \<and> (\<forall>n. sound_pre env n st \<longrightarrow> sound_pre env n st')"

interpretation sound: search_contract "sound_pre env n" "sound_step env" "\<lambda>c st. True" for env n
  by unfold_locales (auto simp: sound_step_def)

lemma inc_keys_store [simp]: "inc_keys (store_directive p info st) = insert p (inc_keys st)"
  by (auto simp: inc_keys_def store_directive_def update_conv')

lemma inc_keys_cache [simp]: "inc_keys (st\<lparr>includes_cache_of := c\<rparr>) = inc_keys st"
  by (simp add: inc_keys_def)

lemma map_of_store: "map_of (inc_directives (store_directive p info st)) = (map_of (inc_directives st))(p \<mapsto> info)"
  by (simp add: store_directive_def update_conv')

lemma cache_of_store [simp]: "includes_cache_of (store_directive p info st) = includes_cache_of st"
  by (simp add: store_directive_def)

lemma distinct_store [simp]:
  "distinct (map fst (inc_directives st)) \<Longrightarrow> distinct (map fst (inc_directives (store_directive p info st)))"
  by (simp add: store_directive_def distinct_update)

lemma card_Diff_insert_le: "finite A \<Longrightarrow> card (A - insert p B) \<le> card (A - B)"
  by (rule card_mono) auto

lemma card_Diff_insert_less:
  assumes "finite A" "p \<in> A" "p \<notin> B" shows "card (A - insert p B) < card (A - B)"
  by (rule psubset_card_mono) (use assms in auto)

lemma sound_pre_store:
  assumes "sound_pre env n st" "accurate env info"
  shows "sound_pre env n (store_directive p info st)"
proof -
  have "card (dom (src_file env) - insert p (inc_keys st)) < n"
    using assms(1) card_Diff_insert_le [of "dom (src_file env)" p "inc_keys st"]
    by (simp add: sound_pre_def)
  moreover have "ran ((map_of (inc_directives st))(p \<mapsto> info)) \<subseteq> insert info (ran (map_of (inc_directives st)))"
    by (auto simp: ran_def)
  ultimately show ?thesis
    using assms unfolding sound_pre_def map_of_store by auto
qed

lemma sound_step_store: "accurate env info \<Longrightarrow> sound_step env st (store_directive p info st)"
  by (auto simp: sound_step_def sound_pre_store)

lemma accurate_info_of_file: "src_file env p = Some content \<Longrightarrow> accurate env (info_of_file env p content)"
  by (simp add: accurate_def info_of_file_def)

lemma sound_cache_add: "sound_cache env c \<Longrightarrow> accurate env info \<Longrightarrow> sound_cache env (add_include_entry n p info c)"
  by (auto simp: sound_cache_def add_include_entry_def ran_def)

lemma sound_cache_header: "sound_cache env c \<Longrightarrow> accurate env info \<Longrightarrow> sound_cache env (cache_header dirs p d info c)"
  by (simp add: cache_header_def sound_cache_add split: include_type.split)

lemma sound_step_cache_header:
  "accurate env info \<Longrightarrow>
    sound_step env st (st\<lparr>includes_cache_of := cache_header dirs p d info (includes_cache_of st)\<rparr>)"
  by (auto simp: sound_step_def sound_pre_def sound_cache_header)

lemma cached_accurate:
  "sound_pre env n st \<Longrightarrow> get_include_info (includes_cache_of st) x = Some info \<Longrightarrow> accurate env info"
  by (auto simp: sound_pre_def sound_cache_def get_include_info_def ran_def)

lemma process_include_directive_sound:
  assumes "\<And>p st. sound_pre env n st \<Longrightarrow> \<exists>b st'. resolve p d st = Some (b, st') \<and> sound_step env st st'"
    and st: "sound_pre env n st"
  shows "\<exists>b st'. process_include_directive resolve dirs parent d st = Some (b, st') \<and> sound_step env st st'"
proof -
  have "\<exists>b st'. try_candidates (\<lambda>p. resolve p d) (candidates dirs parent d) st = Some (b, st') \<and> sound_step env st st'"
    using sound.try_candidates_contract [of "candidates dirs parent d" "\<lambda>_. True" env n "\<lambda>p. resolve p d" "\<lambda>_ _. True" st]
      assms by auto
  then show ?thesis
    using cached_accurate [OF st]
    by (auto simp: process_include_directive_def Let_def sound_step_store split: option.split)
qed

lemma try_resolve_header_sound:
  assumes "sound_pre env n st"
  shows "\<exists>b st'. try_resolve_header n env dirs p d st = Some (b, st') \<and> sound_step env st st'"
  using assms
proof (induction n arbitrary: p d st)
  case 0
  then show ?case by (simp add: sound_pre_def)
next
  case (Suc n)
  show ?case
  proof (cases "map_of (inc_directives st) p = None \<and> \<not> src_is_dir env p \<and> src_file env p \<noteq> None \<and>
      get_include_info (includes_cache_of st) (if inc_type d = INCLUDE_TYPE_ANGLE then inc_content d else p) = None")
    case False
    then show ?thesis
      using cached_accurate [OF Suc.prems]
      by (auto simp: sound.R_refl sound_step_store split: option.split if_splits)
  next
    case True
    then obtain content where content: "src_file env p = Some content" by blast
    define info where "info = info_of_file env p content"
    define st2 where "st2 = store_directive p info
      (st\<lparr>includes_cache_of := cache_header dirs p d info (includes_cache_of st)\<rparr>)"
    have info: "accurate env info" using content by (simp add: info_def accurate_info_of_file)
    have step: "sound_step env st st2"
      unfolding st2_def using sound_step_cache_header [OF info] sound_step_store [OF info] sound.R_trans by blast
    then have "sound_pre env (Suc n) st2" using Suc.prems by (simp add: sound_step_def)
    moreover have "card (dom (src_file env) - inc_keys st2) < card (dom (src_file env) - inc_keys st)"
    proof -
      have "finite (dom (src_file env))" "p \<in> dom (src_file env)" "p \<notin> inc_keys st"
        using Suc.prems True content by (auto simp: sound_pre_def inc_keys_def)
      then show ?thesis unfolding st2_def inc_keys_store inc_keys_cache by (rule card_Diff_insert_less)
    qed
    ultimately have "sound_pre env n st2" using Suc.prems by (auto simp: sound_pre_def)
    then obtain st3 where st3: "process_children
        (process_include_directive (try_resolve_header n env dirs) dirs p) (child_includes info) st2 = Some st3"
        "sound_step env st2 st3"
      using sound.process_children_contract [of "child_includes info" env n _ st2]
        process_include_directive_sound [of env n "try_resolve_header n env dirs"] Suc.IH
      by meson
    then show ?thesis
      using True content sound.R_trans [OF step st3(2)]
      by (auto simp: info_def st2_def Let_def)
  qed
qed

lemma scan_sound:
  assumes "finite (dom (src_file env))" "card (dom (src_file env)) < fuel"
    and "sound_cache env (includes_cache_of st)" "inc_directives st = []"
  shows "\<exists>b st'. parse_source_file_includes fuel env dirs cpp cmd_line_includes st = Some (b, st')
           \<and> (b \<longleftrightarrow> src_file env cpp \<noteq> None)
           \<and> (\<forall>info \<in> ran (map_of (inc_directives st')). accurate env info)
           \<and> distinct (map fst (inc_directives st')) \<and> sound_cache env (includes_cache_of st')"
proof -
  have st: "sound_pre env fuel st"
    using assms by (simp add: sound_pre_def inc_keys_def)
  show ?thesis
  proof (cases "src_file env cpp")
    case None
    then show ?thesis using assms by (auto simp: parse_source_file_includes_def)
  next
    case (Some content)
    define cs where "cs = map (\<lambda>c. \<lparr>inc_content = c, inc_type = INCLUDE_TYPE_ANGLE\<rparr>) cmd_line_includes
                @ find_file_includes content"
    obtain st' where "process_children
        (process_include_directive (try_resolve_header fuel env dirs) dirs cpp) cs st = Some st'"
        "sound_step env st st'"
      using sound.process_children_contract [of cs env fuel _ st] st
        process_include_directive_sound [of env fuel "try_resolve_header fuel env dirs"] try_resolve_header_sound
      by meson
    then show ?thesis
      using st Some by (auto simp: parse_source_file_includes_def cs_def sound_step_def sound_pre_def)
  qed
qed

text \<open>C6. With more fuel than there are readable files, \<open>parse_source_file_includes\<close> returns; it
  returns true exactly when the source file can be opened; and whatever the cache held, as long as its
  entries described files correctly, every header it reports carries the path, size, digest and
  directives of a file that is there, and the cache is left in the same condition.\<close>

theorem parse_source_file_includes_sound:
  assumes "finite (dom (src_file env))" "card (dom (src_file env)) < fuel"
    and "sound_cache env (includes_cache_of st)" "inc_directives st = []"
  shows "\<exists>b st'. parse_source_file_includes fuel env dirs cpp cmd_line_includes st = Some (b, st')
           \<and> (b \<longleftrightarrow> src_file env cpp \<noteq> None)
           \<and> (\<forall>info \<in> ran (map_of (inc_directives st')). accurate env info)
           \<and> sound_cache env (includes_cache_of st')"
  using scan_sound [OF assms] by blast

section \<open>Exactly the headers that are included\<close>

text \<open>
  The specification: a directive means the first candidate that is a readable file, and the headers
  needed are those reached from the directives of the source file.
\<close>

definition openable_src :: "source_env \<Rightarrow> string \<Rightarrow> bool" where
  "openable_src env p \<longleftrightarrow> \<not> src_is_dir env p \<and> src_file env p \<noteq> None"

definition resolve_include :: "source_env \<Rightarrow> cmd_line_include_dirs \<Rightarrow> string \<Rightarrow> include_directive \<Rightarrow> string option" where
  "resolve_include env dirs parent d = List.find (openable_src env) (candidates dirs parent d)"

inductive needed :: "source_env \<Rightarrow> cmd_line_include_dirs \<Rightarrow> string \<Rightarrow> include_directive list \<Rightarrow> string \<Rightarrow> bool"
  for env dirs cpp ds where
  needed_root: "d \<in> set ds \<Longrightarrow> resolve_include env dirs cpp d = Some p \<Longrightarrow> needed env dirs cpp ds p"
| needed_child: "needed env dirs cpp ds p \<Longrightarrow> src_file env p = Some content \<Longrightarrow>
    d \<in> set (find_file_includes content) \<Longrightarrow> resolve_include env dirs p d = Some q \<Longrightarrow>
    needed env dirs cpp ds q"

definition settled :: "source_env \<Rightarrow> cmd_line_include_dirs \<Rightarrow> string \<Rightarrow> string set \<Rightarrow> include_directive \<Rightarrow> bool" where
  "settled env dirs parent K d \<longleftrightarrow> (\<forall>q. resolve_include env dirs parent d = Some q \<longrightarrow> q \<in> K)"

definition closed_at :: "source_env \<Rightarrow> cmd_line_include_dirs \<Rightarrow> string set \<Rightarrow> string \<Rightarrow> bool" where
  "closed_at env dirs K k \<longleftrightarrow>
     (\<forall>content. src_file env k = Some content \<longrightarrow> (\<forall>d\<in>set (find_file_includes content). settled env dirs k K d))"

definition close_pre :: "source_env \<Rightarrow> string set \<Rightarrow> nat \<Rightarrow> parser_state \<Rightarrow> bool" where
  "close_pre env S n st \<longleftrightarrow>
     sound_pre env n st \<and> include_cache_data (includes_cache_of st) = Map.empty
     \<and> (\<forall>k\<in>inc_keys st. openable_src env k \<and> k \<in> S)"

definition close_step :: "source_env \<Rightarrow> cmd_line_include_dirs \<Rightarrow> string set \<Rightarrow> parser_state \<Rightarrow> parser_state \<Rightarrow> bool" where
  "close_step env dirs S st st' \<longleftrightarrow>
     inc_keys st \<subseteq> inc_keys st' \<and> (\<forall>n. close_pre env S n st \<longrightarrow> close_pre env S n st')
     \<and> (\<forall>k\<in>inc_keys st' - inc_keys st. closed_at env dirs (inc_keys st') k)"

lemma settled_mono: "settled env dirs parent K d \<Longrightarrow> K \<subseteq> K' \<Longrightarrow> settled env dirs parent K' d"
  by (auto simp: settled_def)

lemma closed_at_mono: "closed_at env dirs K k \<Longrightarrow> K \<subseteq> K' \<Longrightarrow> closed_at env dirs K' k"
  unfolding closed_at_def by (blast intro: settled_mono)

lemma close_step_trans:
  "close_step env dirs S st st' \<Longrightarrow> close_step env dirs S st' st'' \<Longrightarrow> close_step env dirs S st st''"
  unfolding close_step_def by (blast intro: closed_at_mono)

interpretation closing: search_contract "close_pre env S n" "close_step env dirs S"
    "\<lambda>c st. settled env dirs parent (inc_keys st) c" for env dirs S n parent
  by unfold_locales (auto simp: close_step_def intro: settled_mono closed_at_mono)

lemma find_first:
  "ps = us @ p # vs \<Longrightarrow> \<forall>u\<in>set us. \<not> P u \<Longrightarrow> P p \<Longrightarrow> List.find P ps = Some p"
  by (induction us arbitrary: ps) auto

lemma resolve_first:
  assumes "candidates dirs parent d = us @ p # vs" "\<forall>u\<in>set us. \<not> openable_src env u" "openable_src env p"
  shows "resolve_include env dirs parent d = Some p"
  unfolding resolve_include_def by (rule find_first [OF assms])

lemma cached_none:
  "close_pre env S n st \<Longrightarrow> get_include_info (includes_cache_of st) x = None"
  by (simp add: close_pre_def get_include_info_def)

lemma process_include_directive_closing:
  assumes resolve: "\<And>p st. close_pre env S n st \<Longrightarrow> (openable_src env p \<Longrightarrow> p \<in> S) \<Longrightarrow>
      \<exists>st'. resolve p d st = Some (openable_src env p, st') \<and> close_step env dirs S st st'
        \<and> (openable_src env p \<longrightarrow> p \<in> inc_keys st')"
    and S: "settled env dirs parent S d" and st: "close_pre env S n st"
  shows "\<exists>b st'. process_include_directive resolve dirs parent d st = Some (b, st')
           \<and> close_step env dirs S st st' \<and> settled env dirs parent (inc_keys st') d"
proof -
  let ?F = "\<lambda>p st'. openable_src env p \<and> p \<in> inc_keys st'" and ?N = "\<lambda>p. \<not> openable_src env p"
  have one: "\<exists>b st'. resolve p d st = Some (b, st') \<and> close_step env dirs S st st' \<and> (if b then ?F p st' else ?N p)"
    if "candidates dirs parent d = us @ p # vs" "\<forall>u\<in>set us. ?N u" "close_pre env S n st" for us p vs st
  proof -
    have "p \<in> S" if "openable_src env p"
      using resolve_first [OF \<open>candidates _ _ _ = _\<close> \<open>\<forall>u\<in>_. _\<close> that] S by (simp add: settled_def)
    then obtain st' where "resolve p d st = Some (openable_src env p, st')" "close_step env dirs S st st'"
        "openable_src env p \<longrightarrow> p \<in> inc_keys st'"
      using resolve [OF \<open>close_pre env S n st\<close>] by blast
    then show ?thesis by (intro exI [of _ "openable_src env p"] exI [of _ st']) simp
  qed
  obtain b st' where r: "try_candidates (\<lambda>p. resolve p d) (candidates dirs parent d) st = Some (b, st')"
      "close_step env dirs S st st'"
      "if b then \<exists>us p vs. candidates dirs parent d = us @ p # vs \<and> (\<forall>u\<in>set us. ?N u) \<and> ?F p st'
       else \<forall>u\<in>set (candidates dirs parent d). ?N u"
    using closing.try_candidates_contract [where ps = "candidates dirs parent d" and
        r = "\<lambda>p. resolve p d" and F = ?F and N = ?N, OF _ st] one
    by blast
  have "settled env dirs parent (inc_keys st') d"
  proof (cases b)
    case True
    then obtain us p vs where "candidates dirs parent d = us @ p # vs" "\<forall>u\<in>set us. ?N u" "?F p st'"
      using r(3) by auto
    then show ?thesis
      using resolve_first [of dirs parent d us p vs env] by (simp add: settled_def)
  next
    case False
    then have "List.find (openable_src env) (candidates dirs parent d) = None"
      using r(3) by (simp add: find_None_iff)
    then show ?thesis by (simp add: settled_def resolve_include_def)
  qed
  then show ?thesis
    using r cached_none [OF st] by (auto simp: process_include_directive_def Let_def split: option.split)
qed

lemma close_pre_openable_key:
  "close_pre env S n st \<Longrightarrow> map_of (inc_directives st) p = Some info \<Longrightarrow> openable_src env p"
  by (auto simp: close_pre_def inc_keys_def)

lemma close_pre_store:
  assumes "close_pre env S n st" "accurate env info" "openable_src env p" "p \<in> S"
  shows "close_pre env S n (store_directive p info st)"
  using assms by (simp add: close_pre_def sound_pre_store)

text \<open>A header that is read for the first time: it is recorded, which uses up one unit of fuel, and then
  its own directives are processed.\<close>

lemma close_pre_read:
  assumes "close_pre env S (Suc n) st" "map_of (inc_directives st) p = None" "p \<in> S" "openable_src env p"
    and "src_file env p = Some content"
  shows "close_pre env S n (store_directive p (info_of_file env p content) st)"
proof -
  let ?st = "store_directive p (info_of_file env p content) st"
  have "close_pre env S (Suc n) ?st"
    using assms by (intro close_pre_store) (auto simp: accurate_info_of_file)
  moreover have "card (dom (src_file env) - inc_keys ?st) < card (dom (src_file env) - inc_keys st)"
    unfolding inc_keys_store
    by (rule card_Diff_insert_less) (use assms in \<open>auto simp: close_pre_def sound_pre_def inc_keys_def\<close>)
  ultimately show ?thesis using assms(1) by (auto simp: close_pre_def sound_pre_def)
qed

lemma close_step_read:
  assumes "close_step env dirs S (store_directive p (info_of_file env p content) st) st'"
    and "p \<in> S" "openable_src env p" "src_file env p = Some content"
    and "\<forall>c\<in>set (find_file_includes content). settled env dirs p (inc_keys st') c"
  shows "close_step env dirs S st st' \<and> p \<in> inc_keys st'"
proof -
  let ?st = "store_directive p (info_of_file env p content) st"
  have "close_pre env S m ?st" if "close_pre env S m st" for m
    using that assms(2-4) by (intro close_pre_store) (auto simp: accurate_info_of_file)
  moreover have "closed_at env dirs (inc_keys st') p" using assms(4,5) by (simp add: closed_at_def)
  ultimately show ?thesis using assms(1) by (auto simp: close_step_def)
qed

lemma try_resolve_header_closing:
  assumes S: "\<forall>k\<in>S. closed_at env dirs S k"
    and no_storage: "\<forall>k. src_file env k \<noteq> None \<longrightarrow> \<not> requires_inc_storage k dirs"
    and "close_pre env S n st" "openable_src env p \<Longrightarrow> p \<in> S"
  shows "\<exists>st'. try_resolve_header n env dirs p d st = Some (openable_src env p, st')
           \<and> close_step env dirs S st st' \<and> (openable_src env p \<longrightarrow> p \<in> inc_keys st')"
  using assms(3,4)
proof (induction n arbitrary: p d st)
  case 0
  then show ?case by (simp add: close_pre_def sound_pre_def)
next
  case (Suc n)
  note uncached = cached_none [OF Suc.prems(1)]
  consider (known) info where "map_of (inc_directives st) p = Some info"
    | (absent) "map_of (inc_directives st) p = None" "\<not> openable_src env p"
    | (new) "map_of (inc_directives st) p = None" "openable_src env p" by fastforce
  then show ?case
  proof cases
    case known
    then show ?thesis
      using close_pre_openable_key [OF Suc.prems(1) known] by (auto simp: closing.R_refl inc_keys_def)
  next
    case absent
    then show ?thesis using uncached by (auto simp: closing.R_refl openable_src_def split: option.split)
  next
    case new
    then obtain content where content: "src_file env p = Some content" by (auto simp: openable_src_def)
    let ?ds = "find_file_includes content" and ?st = "store_directive p (info_of_file env p content) st"
    have p: "p \<in> S" using Suc.prems(2) new(2) by blast
    have "\<exists>b st'. process_include_directive (try_resolve_header n env dirs) dirs p c st = Some (b, st')
        \<and> close_step env dirs S st st' \<and> settled env dirs p (inc_keys st') c"
      if "c \<in> set ?ds" and st: "close_pre env S n st" for c st
      by (rule process_include_directive_closing [OF Suc.IH _ st]) (use that S p content in \<open>auto simp: closed_at_def\<close>)
    from closing.process_children_contract [OF this close_pre_read [OF Suc.prems(1) new(1) p new(2) content]]
    obtain st3 where st3: "process_children (process_include_directive (try_resolve_header n env dirs) dirs p) ?ds ?st = Some st3"
        "close_step env dirs S ?st st3" "\<forall>c\<in>set ?ds. settled env dirs p (inc_keys st3) c"
      by blast
    moreover have "cache_header dirs p d info c = c" for info c
      using no_storage content by (simp add: cache_header_def)
    ultimately show ?thesis
      using close_step_read [OF st3(2) p new(2) content st3(3)] new content uncached
      by (auto simp: openable_src_def Let_def) (simp add: info_of_file_def)
  qed
qed

lemma needed_closed: "p \<in> Collect (needed env dirs cpp ds) \<Longrightarrow> closed_at env dirs (Collect (needed env dirs cpp ds)) p"
  by (auto simp: closed_at_def settled_def intro: needed_child)

lemma needed_subset:
  assumes "\<forall>d\<in>set ds. settled env dirs cpp K d" "\<forall>k\<in>K. closed_at env dirs K k"
  shows "Collect (needed env dirs cpp ds) \<subseteq> K"
proof
  fix p assume "p \<in> Collect (needed env dirs cpp ds)"
  then have "needed env dirs cpp ds p" by simp
  then show "p \<in> K" using assms by (induction rule: needed.induct) (auto simp: settled_def closed_at_def)
qed


section \<open>Examples, and what a warm cache does\<close>

text \<open>A source file and a header that include each other.\<close>

definition cyclic_sources :: source_env where
  "cyclic_sources =
     \<lparr>src_file = [''/p/a.c'' \<mapsto> ''#include '' @ [CHR 0x22] @ ''h.h'' @ [CHR 0x22, CHR 0x0A],
                  ''/p/h.h'' \<mapsto> ''#include <a.c>''],
      src_is_dir = (\<lambda>p. p = ''/p''), src_sha1 = (\<lambda>s. s)\<rparr>"

definition project_dirs :: cmd_line_include_dirs where
  "project_dirs = no_include_dirs\<lparr>dash_i := [''/p'']\<rparr>"

lemma cyclic_sources_finite: "finite (dom (src_file cyclic_sources)) \<and> card (dom (src_file cyclic_sources)) = 2"
  by (simp add: cyclic_sources_def)

lemma project_dirs_no_storage: "\<not> requires_inc_storage k project_dirs"
  by (simp add: requires_inc_storage_def project_dirs_def no_include_dirs_def)

theorem parse_source_file_includes_sound_witness:
  "\<exists>b st'. parse_source_file_includes 3 cyclic_sources project_dirs ''/p/a.c'' []
             \<lparr>includes_cache_of = empty_cache, inc_directives = []\<rparr> = Some (b, st')
           \<and> (b \<longleftrightarrow> src_file cyclic_sources ''/p/a.c'' \<noteq> None)
           \<and> (\<forall>info \<in> ran (map_of (inc_directives st')). accurate cyclic_sources info)
           \<and> sound_cache cyclic_sources (includes_cache_of st')"
  by (rule parse_source_file_includes_sound)
    (simp_all add: cyclic_sources_finite sound_cache_def empty_cache_def)


text \<open>
  With a warm cache the reported path may be one that does not exist: an entry made for an angle
  include is stored under the name in the directive, so the first directory tried takes the cached
  information, whether or not a file is there, and the children of the cached header are not visited.
\<close>

lemma cached_angle_include_takes_first_dir:
  assumes "inc_type d = INCLUDE_TYPE_ANGLE" "\<not> starts_with (inc_content d) ''/''" "dash_i dirs = i # is"
    and "get_include_info (includes_cache_of st) (inc_content d) = Some info"
    and "get_include_abs_path (includes_cache_of st) (inc_content d) = Some p"
    and "get_include_info (includes_cache_of st) p = None"
    and "map_of (inc_directives st) (path_append i (inc_content d)) = None"
  shows "process_include_directive (try_resolve_header (Suc n) env dirs) dirs parent d st
           = Some (True, store_directive (path_append i (inc_content d)) info st)"
  using assms by (simp add: process_include_directive_def candidates_def)

end
