(* ===== verification/Dep_Files.thy ===== *)
theory Dep_Files
  imports DB_Prelude
begin

text \<open>
  Make dependency files: the reader and the writer of \<open>src/src/dep_files.hpp\<close>. The
  C++ parser walks over the contents with an offset; here the offset is the suffix that is left to
  read (an offset past the end is the empty suffix).
\<close>

abbreviation backslash :: char where "backslash \<equiv> CHR 0x5C"
abbreviation newline :: char where "newline \<equiv> CHR 0x0A"

record dep_target =
  dt_target :: string
  dt_dep_files :: "string list"

section \<open>Escaping\<close>

text \<open>Every caller replaces a single character.\<close>

fun replace_all :: "string \<Rightarrow> char \<Rightarrow> string \<Rightarrow> string" where
  "replace_all [] from to = []"
| "replace_all (c # s) from to = (if c = from then to @ replace_all s from to else c # replace_all s from to)"

definition escape_gnu_make_spaces :: "string \<Rightarrow> string" where
  "escape_gnu_make_spaces dep_item =
     (let r1 = replace_all dep_item newline [backslash, newline];
          r2 = replace_all r1 (CHR '' '') [backslash, CHR '' '']
      in replace_all r2 (CHR '':'') [backslash, CHR '':''])"

section \<open>Reading\<close>

definition parse_skip_spaces :: "string \<Rightarrow> string" where
  "parse_skip_spaces c = dropWhile isspace c"

definition colon_expected :: exn where
  "colon_expected = Runtime_Error ([CHR 0x27, CHR '':'', CHR 0x27] @ '' expected after target name'')"

fun parse_target_loop :: "string \<Rightarrow> string \<Rightarrow> (string \<times> string) result" where
  "parse_target_loop target_name [] = Inl (Throw colon_expected)"
| "parse_target_loop target_name (c # rest) =
     (if c = CHR '':'' then Inr (escape_gnu_make_spaces target_name, rest)
      else if c = newline then Inl (Throw colon_expected)
      else if c = backslash then
        (case rest of
           [] \<Rightarrow> parse_target_loop target_name []
         | d # rest' \<Rightarrow> parse_target_loop (if d \<noteq> newline then target_name @ [d] else target_name) rest')
      else if c = CHR '' '' then
        parse_target_loop
          (if target_name = [] \<or> last target_name \<noteq> CHR '' '' then target_name @ [CHR '' ''] else target_name) rest
      else parse_target_loop (target_name @ [c]) rest)"

definition parse_target_name :: "string \<Rightarrow> (string \<times> string) result" where
  "parse_target_name c = parse_target_loop [] c"

fun skip_blanks :: "string \<Rightarrow> string" where
  "skip_blanks [] = []"
| "skip_blanks (c # rest) =
     (if c = CHR '' '' then skip_blanks rest
      else if c = backslash then (case rest of [] \<Rightarrow> [] | _ # rest' \<Rightarrow> skip_blanks rest')
      else c # rest)"

fun dep_item_loop :: "string \<Rightarrow> string \<times> string" where
  "dep_item_loop [] = ([], [])"
| "dep_item_loop (c # rest) =
     (if c = CHR '' '' \<or> c = newline then ([], c # rest)
      else if c = backslash then
        (case rest of
           [] \<Rightarrow> ([], [])
         | d # rest' \<Rightarrow> (let (item, r) = dep_item_loop rest' in (d # item, r)))
      else (let (item, r) = dep_item_loop rest in (c # item, r)))"

definition parse_next_dep_item :: "string \<Rightarrow> string \<times> string" where
  "parse_next_dep_item c =
     (case skip_blanks c of
        [] \<Rightarrow> ([], [])
      | x # rest \<Rightarrow> if x = newline then ([], rest) else dep_item_loop (x # rest))"

lemma skip_blanks_length: "length (skip_blanks c) \<le> length c"
proof (induction c rule: skip_blanks.induct)
  case (2 c rest)
  then show ?case by (cases "c = CHR '' ''"; cases "c = backslash"; cases rest) (simp_all add: le_SucI)
qed simp

lemma skip_blanks_head:
  "case skip_blanks c of [] \<Rightarrow> True | x # r \<Rightarrow> x \<noteq> CHR '' '' \<and> x \<noteq> backslash"
proof (induction c rule: skip_blanks.induct)
  case (2 c rest)
  note IH = 2
  consider (blank) "c = CHR '' ''" | (escaped) "c = backslash" | (other) "c \<noteq> CHR '' ''" "c \<noteq> backslash" by blast
  then show ?case
  proof cases
    case escaped
    with IH show ?thesis by (cases rest) simp_all
  qed (use IH in simp_all)
qed simp

lemma dep_item_loop_length: "length (snd (dep_item_loop c)) \<le> length c"
proof (induction c rule: dep_item_loop.induct)
  case (2 c rest)
  then show ?case
    by (cases "c = CHR '' '' \<or> c = newline"; cases "c = backslash"; cases rest)
      (simp_all add: case_prod_beta Let_def le_SucI)
qed simp

lemma parse_next_dep_item_shorter:
  assumes "fst (parse_next_dep_item c) \<noteq> []"
  shows "length (snd (parse_next_dep_item c)) < length c"
proof (cases "skip_blanks c")
  case Nil
  then show ?thesis using assms by (simp add: parse_next_dep_item_def)
next
  case (Cons x rest)
  then have "x \<noteq> newline" using assms by (auto simp: parse_next_dep_item_def)
  moreover have "length rest < length c" using Cons skip_blanks_length [of c] by simp
  ultimately show ?thesis
    using Cons skip_blanks_head [of c] dep_item_loop_length [of rest]
    by (simp add: parse_next_dep_item_def split: prod.split) (metis le_less_trans snd_conv)
qed

function parse_dep_items :: "string \<Rightarrow> string list \<times> string" where
  "parse_dep_items c =
     (if fst (parse_next_dep_item c) = [] then ([], snd (parse_next_dep_item c))
      else let (items, r) = parse_dep_items (snd (parse_next_dep_item c))
           in (fst (parse_next_dep_item c) # items, r))"
  by pat_completeness auto
termination
  by (relation "measure length") (auto dest: parse_next_dep_item_shorter)

declare parse_dep_items.simps [simp del]

lemma parse_next_dep_item_length: "length (snd (parse_next_dep_item c)) \<le> length c"
proof (cases "skip_blanks c")
  case (Cons x rest)
  then show ?thesis
    using skip_blanks_length [of c] dep_item_loop_length [of "x # rest"]
    by (auto simp: parse_next_dep_item_def simp del: dep_item_loop.simps)
qed (simp add: parse_next_dep_item_def)

lemma parse_dep_items_length: "length (snd (parse_dep_items c)) \<le> length c"
proof (induction c rule: parse_dep_items.induct)
  case (1 c)
  then show ?case
    using parse_next_dep_item_length [of c]
    by (simp add: parse_dep_items.simps [of c] split: prod.split) (metis le_trans snd_conv)
qed

lemma parse_target_loop_shorter:
  "case parse_target_loop acc c of Inl e \<Rightarrow> True | Inr (t, rest) \<Rightarrow> length rest < length c"
proof (induction acc c rule: parse_target_loop.induct)
  case (2 acc c rest)
  note IH = 2
  consider (colon) "c = CHR '':''" | (nl) "c = newline" | (escaped) "c = backslash" | (blank) "c = CHR '' ''"
    | (other) "c \<noteq> CHR '':''" "c \<noteq> newline" "c \<noteq> backslash" "c \<noteq> CHR '' ''" by blast
  then show ?case
  proof cases
    case escaped
    with IH show ?thesis by (cases rest) (simp_all split: sum.splits, auto)
  qed (use IH in \<open>auto split: sum.splits\<close>)
qed simp

lemma parse_target_name_shorter: "parse_target_name c = Inr (t, rest) \<Longrightarrow> length rest < length c"
  using parse_target_loop_shorter [where acc = "[]" and c = c] by (simp add: parse_target_name_def)

text \<open>The outer loop of \<open>parse_dep_file_contents\<close>.\<close>

function parse_dep_file_contents :: "string \<Rightarrow> dep_target list result" where
  "parse_dep_file_contents c =
     (let c1 = parse_skip_spaces c
      in if c1 = [] then Inr []
         else case parse_target_name c1 of
             Inl e \<Rightarrow> Inl e
           | Inr (target_name, rest) \<Rightarrow>
               (case parse_dep_file_contents (snd (parse_dep_items rest)) of
                  Inl e \<Rightarrow> Inl e
                | Inr ts \<Rightarrow> Inr (\<lparr>dt_target = target_name, dt_dep_files = fst (parse_dep_items rest)\<rparr> # ts)))"
  by pat_completeness auto
termination
proof (relation "measure length", goal_cases)
  case (2 c c1 p target_name rest)
  have "length (snd (parse_dep_items rest)) \<le> length rest" by (rule parse_dep_items_length)
  also have "\<dots> < length c1" by (rule parse_target_name_shorter [of c1 target_name]) (use 2 in simp)
  also have "\<dots> \<le> length c" using 2 length_dropWhile_le by (auto simp: parse_skip_spaces_def)
  finally show ?case by simp
qed simp

declare parse_dep_file_contents.simps [simp del]

section \<open>Looking up and writing\<close>

fun find_dep_list_by_target_name :: "dep_target list \<Rightarrow> string \<Rightarrow> string list" where
  "find_dep_list_by_target_name [] target_name = []"
| "find_dep_list_by_target_name (t # ts) target_name =
     (if dt_target t = target_name then dt_dep_files t else find_dep_list_by_target_name ts target_name)"

definition write_deps :: "string list \<Rightarrow> string" where
  "write_deps deps =
     (case deps of
        [] \<Rightarrow> []
      | d # ds \<Rightarrow>
          '' '' @ escape_gnu_make_spaces d
          @ concat (map (\<lambda>e. [CHR '' '', backslash, newline, CHR '' '', CHR '' ''] @ escape_gnu_make_spaces e) ds))"

fun write_to_bytes :: "dep_target list \<Rightarrow> string" where
  "write_to_bytes [] = []"
| "write_to_bytes (t # ts) =
     dt_target t @ '':'' @ write_deps (dt_dep_files t) @ [newline]
     @ (if ts \<noteq> [] then [newline] else []) @ write_to_bytes ts"

section \<open>Reading back what was written\<close>

definition escape_char :: "char \<Rightarrow> string" where
  "escape_char c = (if c = newline \<or> c = CHR '' '' \<or> c = CHR '':'' then [backslash, c] else [c])"

lemma replace_all_append: "replace_all (s @ t) from to = replace_all s from to @ replace_all t from to"
  by (induction s) simp_all

lemma escape_eq: "escape_gnu_make_spaces s = concat (map escape_char s)"
  by (induction s) (simp_all add: escape_gnu_make_spaces_def escape_char_def replace_all_append)

lemma escape_Nil [simp]: "escape_gnu_make_spaces [] = []"
  by (simp add: escape_eq)

lemma escape_Cons [simp]: "escape_gnu_make_spaces (c # s) = escape_char c @ escape_gnu_make_spaces s"
  by (simp add: escape_eq)

text \<open>The names that survive: without a backslash, which the writer does not escape. A target must
  be in the escaped form the reader returns.\<close>

definition item_ok :: "string \<Rightarrow> bool" where
  "item_ok d \<longleftrightarrow> d \<noteq> [] \<and> hd d \<noteq> newline \<and> hd d \<noteq> CHR '' '' \<and> hd d \<noteq> CHR '':'' \<and> backslash \<notin> set d"

definition name_ok :: "string \<Rightarrow> bool" where
  "name_ok t \<longleftrightarrow> backslash \<notin> set t \<and> newline \<notin> set t \<and> (t \<noteq> [] \<longrightarrow> \<not> isspace (hd t) \<or> hd t = CHR '' '')"

definition target_ok :: "dep_target \<Rightarrow> bool" where
  "target_ok t \<longleftrightarrow> (\<exists>n. name_ok n \<and> dt_target t = escape_gnu_make_spaces n) \<and> list_all item_ok (dt_dep_files t)"

lemma parse_target_escaped:
  assumes "backslash \<notin> set t" "newline \<notin> set t"
  shows "parse_target_loop acc (escape_gnu_make_spaces t @ CHR '':'' # rest)
           = Inr (escape_gnu_make_spaces (acc @ t), rest)"
  using assms by (induction t arbitrary: acc) (auto simp: escape_char_def)

lemma dep_item_escaped:
  assumes "backslash \<notin> set d" "rest = [] \<or> hd rest = CHR '' '' \<or> hd rest = newline"
  shows "dep_item_loop (escape_gnu_make_spaces d @ rest) = (d, rest)"
  using assms
proof (induction d)
  case Nil
  then show ?case by (cases rest) auto
qed (auto simp: escape_char_def)

lemma item_ok_escape:
  assumes "item_ok d" obtains c e where "escape_gnu_make_spaces d @ rest = c # e"
    "c \<noteq> CHR '' ''" "c \<noteq> backslash" "c \<noteq> newline"
  using assms by (cases d) (auto simp: item_ok_def escape_char_def)

lemma next_item:
  assumes d: "item_ok d" and "rest = [] \<or> hd rest = CHR '' '' \<or> hd rest = newline"
    and skip: "\<And>s. skip_blanks (sp @ s) = skip_blanks s"
  shows "parse_next_dep_item (sp @ escape_gnu_make_spaces d @ rest) = (d, rest)"
proof -
  obtain c e where ce: "escape_gnu_make_spaces d @ rest = c # e"
    "c \<noteq> CHR '' ''" "c \<noteq> backslash" "c \<noteq> newline" using item_ok_escape [OF d] by blast
  have "dep_item_loop (c # e) = (d, rest)"
    using dep_item_escaped [of d rest] assms ce(1) by (simp add: item_ok_def)
  then show ?thesis using ce by (simp add: parse_next_dep_item_def skip del: dep_item_loop.simps)
qed

lemma parse_items_cons:
  assumes "parse_next_dep_item c = (d, r)" "d \<noteq> []"
  shows "parse_dep_items c = (d # fst (parse_dep_items r), snd (parse_dep_items r))"
  using assms by (simp add: parse_dep_items.simps [of c] case_prod_beta)

lemma parse_items_tail:
  assumes "list_all item_ok ds"
  shows "parse_dep_items
           (concat (map (\<lambda>e. [CHR '' '', backslash, newline, CHR '' '', CHR '' ''] @ escape_gnu_make_spaces e) ds)
            @ newline # rest) = (ds, rest)"
  using assms
proof (induction ds)
  case Nil
  then show ?case by (simp add: parse_dep_items.simps parse_next_dep_item_def)
next
  case (Cons d ds)
  let ?tail = "concat (map (\<lambda>e. [CHR '' '', backslash, newline, CHR '' '', CHR '' ''] @ escape_gnu_make_spaces e) ds) @ newline # rest"
  have "hd ?tail = CHR '' '' \<or> hd ?tail = newline" by (cases ds) simp_all
  then have "parse_next_dep_item ([CHR '' '', backslash, newline, CHR '' '', CHR '' ''] @ escape_gnu_make_spaces d @ ?tail) = (d, ?tail)"
    using Cons.prems by (intro next_item) auto
  from parse_items_cons [OF this] Cons show ?case by (simp add: item_ok_def)
qed

lemma parse_items_written:
  assumes "list_all item_ok deps"
  shows "parse_dep_items (write_deps deps @ newline # rest) = (deps, rest)"
proof (cases deps)
  case Nil
  then show ?thesis using parse_items_tail [of "[]"] by (simp add: write_deps_def)
next
  case (Cons d ds)
  let ?tail = "concat (map (\<lambda>e. [CHR '' '', backslash, newline, CHR '' '', CHR '' ''] @ escape_gnu_make_spaces e) ds) @ newline # rest"
  have "hd ?tail = CHR '' '' \<or> hd ?tail = newline" by (cases ds) simp_all
  then have "parse_next_dep_item ('' '' @ escape_gnu_make_spaces d @ ?tail) = (d, ?tail)"
    using assms Cons by (intro next_item) auto
  from parse_items_cons [OF this] show ?thesis
    using assms Cons parse_items_tail [of ds rest] by (simp add: item_ok_def write_deps_def)
qed

lemma name_head:
  assumes "name_ok n" shows "parse_skip_spaces (escape_gnu_make_spaces n @ CHR '':'' # r) = escape_gnu_make_spaces n @ CHR '':'' # r"
  using assms by (cases n) (auto simp: name_ok_def parse_skip_spaces_def escape_char_def isspace_def)

lemma parse_skip_newline: "parse_skip_spaces (newline # s) = parse_skip_spaces s"
  by (simp add: parse_skip_spaces_def isspace_def)

lemma parse_dep_file_skip:
  assumes "parse_skip_spaces s = parse_skip_spaces s'"
  shows "parse_dep_file_contents s = parse_dep_file_contents s'"
  using assms by (simp add: parse_dep_file_contents.simps [of s] parse_dep_file_contents.simps [of s'])

lemma parse_one_target:
  assumes "target_ok t"
  shows "parse_dep_file_contents (dt_target t @ '':'' @ write_deps (dt_dep_files t) @ newline # rest) =
     (case parse_dep_file_contents rest of Inl e \<Rightarrow> Inl e | Inr ts \<Rightarrow> Inr (t # ts))"
proof -
  obtain n where n: "name_ok n" "dt_target t = escape_gnu_make_spaces n" and "list_all item_ok (dt_dep_files t)"
    using assms by (auto simp: target_ok_def)
  then show ?thesis
    using parse_items_written [of "dt_dep_files t" rest] name_head [OF n(1)]
      parse_target_escaped [of n "[]"]
    by (simp add: parse_dep_file_contents.simps [of "_ @ _"] parse_target_name_def name_ok_def n(2) [symmetric]
        split: sum.split)
qed

lemma dep_file_roundtrip_aux:
  assumes "list_all target_ok ts"
  shows "parse_dep_file_contents (write_to_bytes ts) = Inr ts"
  using assms
proof (induction ts)
  case Nil
  then show ?case by (simp add: parse_dep_file_contents.simps parse_skip_spaces_def)
next
  case (Cons t ts)
  then have "parse_dep_file_contents ((if ts \<noteq> [] then [newline] else []) @ write_to_bytes ts) = Inr ts"
    using parse_dep_file_skip [OF parse_skip_newline [of "write_to_bytes ts"]] by (cases ts) simp_all
  with Cons.prems show ?case
    using parse_one_target [of t "(if ts \<noteq> [] then [newline] else []) @ write_to_bytes ts"] by simp
qed



end
