(* ===== verification/Compiler_Call.thy ===== *)
theory Compiler_Call
  imports Includes Dep_Files
begin

text \<open>
  The compiler call the wrapper caught: \<open>src/src/compiler_call.hpp\<close> and
  \<open>compiler_call.cpp\<close> (splitting the command line, collecting the headers) and the class
  \<open>DepFilesState\<close> of \<open>src/src/dep_files.hpp\<close> and \<open>dep_files.cpp\<close> (the \<open>-M\<close> options and
  the dependency file). The timestamps and the duration of a call, which nothing reads, are left out.
\<close>

section \<open>\<open>DepFilesState\<close>\<close>

text \<open>The class has no constructor, so the three flags of a new object have any value.\<close>

record dep_files_state =
  md_flag_present :: bool
  mmd_flag_present :: bool
  mp_flag_present :: bool
  mf_flag_path :: string
  mt_flag_paths :: string

definition new_dep_files_state :: "bool \<Rightarrow> bool \<Rightarrow> bool \<Rightarrow> dep_files_state" where
  "new_dep_files_state md mmd mp =
     \<lparr>md_flag_present = md, mmd_flag_present = mmd, mp_flag_present = mp, mf_flag_path = [], mt_flag_paths = []\<rparr>"

text \<open>\<open>_process_makefile_target\<close>: the run of backslashes before a blank is doubled.\<close>

definition backslashes_before :: "string \<Rightarrow> string" where
  "backslashes_before prior = takeWhile (\<lambda>c. c = backslash) (rev prior)"

fun process_makefile_from :: "string \<Rightarrow> string \<Rightarrow> string" where
  "process_makefile_from prior [] = []"
| "process_makefile_from prior (c # rest) =
     (if c = CHR '' '' \<or> c = CHR 0x09 then backslashes_before prior @ [backslash]
      else if c = CHR ''$'' then ''$''
      else if c = CHR ''#'' then [backslash]
      else []) @ [c] @ process_makefile_from (prior @ [c]) rest"

definition process_makefile_target :: "string \<Rightarrow> string" where
  "process_makefile_target target = process_makefile_from [] target"

definition set_md_flag_present :: "bool \<Rightarrow> dep_files_state \<Rightarrow> dep_files_state" where
  [simp]: "set_md_flag_present b d = d\<lparr>md_flag_present := b\<rparr>"

definition set_mmd_flag_present :: "bool \<Rightarrow> dep_files_state \<Rightarrow> dep_files_state" where
  [simp]: "set_mmd_flag_present b d = d\<lparr>mmd_flag_present := b\<rparr>"

definition set_mp_flag_present :: "bool \<Rightarrow> dep_files_state \<Rightarrow> dep_files_state" where
  [simp]: "set_mp_flag_present b d = d\<lparr>mp_flag_present := b\<rparr>"

definition add_mf_flag_path :: "string \<Rightarrow> dep_files_state \<Rightarrow> dep_files_state" where
  "add_mf_flag_path p d = d\<lparr>mf_flag_path := mf_flag_path d @ p\<rparr>"

definition add_mt_flag_path :: "string \<Rightarrow> dep_files_state \<Rightarrow> dep_files_state" where
  "add_mt_flag_path p d =
     d\<lparr>mt_flag_paths := (if mt_flag_paths d \<noteq> [] then mt_flag_paths d @ [CHR '' '', backslash, newline]
                          else mt_flag_paths d) @ p\<rparr>"

definition add_mq_flag_path :: "string \<Rightarrow> dep_files_state \<Rightarrow> dep_files_state" where
  "add_mq_flag_path p d =
     d\<lparr>mt_flag_paths := (if mt_flag_paths d \<noteq> [] then mt_flag_paths d @ [CHR '' '', backslash, newline]
                          else mt_flag_paths d) @ process_makefile_target p\<rparr>"

definition is_depfile_needed :: "dep_files_state \<Rightarrow> bool" where
  "is_depfile_needed d \<longleftrightarrow> mf_flag_path d \<noteq> [] \<or> md_flag_present d"

section \<open>\<open>CompilerCall\<close>\<close>

datatype call_type = CALL_TYPE_COMPILE | CALL_TYPE_LINK | CALL_TYPE_COUNT

record compiler_call =
  cc_include_dirs :: cmd_line_include_dirs
  dep_cmd_state :: dep_files_state
  compiler_call_type :: call_type
  cc_working_dir :: string
  input_src_file :: string
  output_obj_file :: string
  compiler_type :: string
  cc_cmd_line_args :: "string list"
  call_stdout :: string
  call_stderr :: string
  call_exit_code :: i32

definition new_compiler_call :: "dep_files_state \<Rightarrow> compiler_call" where
  "new_compiler_call deps =
     \<lparr>cc_include_dirs = no_include_dirs, dep_cmd_state = deps, compiler_call_type = CALL_TYPE_COUNT,
      cc_working_dir = [], input_src_file = [], output_obj_file = [], compiler_type = [], cc_cmd_line_args = [],
      call_stdout = [], call_stderr = [], call_exit_code = 0\<rparr>"

text \<open>The results of a compilation are set one by one.\<close>

definition set_stdout_content :: "string \<Rightarrow> compiler_call \<Rightarrow> compiler_call" where
  [simp]: "set_stdout_content out c = c\<lparr>call_stdout := out\<rparr>"

definition set_stderr_content :: "string \<Rightarrow> compiler_call \<Rightarrow> compiler_call" where
  [simp]: "set_stderr_content err c = c\<lparr>call_stderr := err\<rparr>"

definition set_exit_code :: "i32 \<Rightarrow> compiler_call \<Rightarrow> compiler_call" where
  [simp]: "set_exit_code code c = c\<lparr>call_exit_code := code\<rparr>"

definition SUPPORTED_COMPILERS :: "string list" where
  "SUPPORTED_COMPILERS =
     [''/usr/bin/c++'', ''/usr/bin/clang'', ''/usr/bin/clang++'', ''/usr/bin/gcc'', ''/usr/bin/g++'']"

definition is_header_file :: "string \<Rightarrow> bool" where
  "is_header_file f \<longleftrightarrow> ends_with f ''.h'' \<or> ends_with f ''.hpp'' \<or> ends_with f ''.hh''
     \<or> ends_with f ''.inc'' \<or> ends_with f ''.hxx''"

definition is_src_file_arg :: "string \<Rightarrow> bool" where
  "is_src_file_arg f \<longleftrightarrow> ends_with f ''.c'' \<or> ends_with f ''.cc'' \<or> ends_with f ''.cpp'' \<or> ends_with f ''.cxx''"

definition is_for_linking :: "string \<Rightarrow> bool" where
  "is_for_linking f \<longleftrightarrow> ends_with f ''.o'' \<or> ends_with f ''.a'' \<or> ends_with f ''.so'' \<or> ends_with f ''.dll''"

definition get_abs_path :: "string \<Rightarrow> string \<Rightarrow> string" where
  "get_abs_path current_dir path = (if starts_with path ''/'' then path else current_dir @ ''/'' @ path)"

definition push_arg :: "string \<Rightarrow> compiler_call \<Rightarrow> compiler_call" where
  "push_arg a c = c\<lparr>cc_cmd_line_args := cc_cmd_line_args c @ [a]\<rparr>"

definition upd_dirs :: "(cmd_line_include_dirs \<Rightarrow> cmd_line_include_dirs) \<Rightarrow> compiler_call \<Rightarrow> compiler_call" where
  "upd_dirs f c = c\<lparr>cc_include_dirs := f (cc_include_dirs c)\<rparr>"

definition upd_deps :: "(dep_files_state \<Rightarrow> dep_files_state) \<Rightarrow> compiler_call \<Rightarrow> compiler_call" where
  "upd_deps f c = c\<lparr>dep_cmd_state := f (dep_cmd_state c)\<rparr>"

text \<open>The options that take the next argument, and what is done with it.\<close>

definition operand_option :: "string \<Rightarrow> string \<Rightarrow> (string \<Rightarrow> compiler_call \<Rightarrow> compiler_call) option" where
  "operand_option cwd a =
     (if a = ''-isystem'' then Some (\<lambda>n. let p = get_abs_path cwd n in
         push_arg p \<circ> upd_dirs (\<lambda>d. d\<lparr>dash_isystem := dash_isystem d @ [p]\<rparr>))
      else if a = ''-iquote'' then Some (\<lambda>n. let p = get_abs_path cwd n in
         push_arg p \<circ> upd_dirs (\<lambda>d. d\<lparr>dash_iquote := dash_iquote d @ [p]\<rparr>))
      else if a = ''-include'' then Some (\<lambda>n. let p = get_abs_path cwd n in
         push_arg p \<circ> upd_dirs (\<lambda>d. d\<lparr>dash_include := dash_include d @ [p]\<rparr>))
      else if a = ''-o'' then Some (\<lambda>n c. push_arg n (c\<lparr>output_obj_file := n\<rparr>))
      else if a = ''-MF'' then Some (\<lambda>n. let p = get_abs_path cwd n in
         push_arg p \<circ> upd_deps (add_mf_flag_path p))
      else if a = ''-MT'' then Some (\<lambda>n. push_arg n \<circ> upd_deps (add_mt_flag_path n))
      else if a = ''-MQ'' then Some (\<lambda>n. push_arg n \<circ> upd_deps (add_mq_flag_path n))
      else None)"

definition plain_option :: "string \<Rightarrow> compiler_call \<Rightarrow> compiler_call" where
  "plain_option a c =
     (if a = ''-MD'' then upd_deps (set_md_flag_present True) c
      else if a = ''-MMD'' then upd_deps (set_mmd_flag_present True) c
      else if a = ''-MP'' then upd_deps (set_mp_flag_present True) c
      else c)"

text \<open>The loop over the arguments after the compiler's name.\<close>

fun split_call_args :: "string \<Rightarrow> string list \<Rightarrow> compiler_call \<Rightarrow> bool \<times> compiler_call" where
  "split_call_args cwd [] c = (True, c)"
| "split_call_args cwd (a # as) c =
     (if starts_with a ''-'' then
        (if starts_with a ''-I''
         then split_call_args cwd as
                (upd_dirs (\<lambda>d. d\<lparr>dash_i := dash_i d @ [get_abs_path cwd (drop 2 a)]\<rparr>) c)
         else case operand_option cwd a of
             None \<Rightarrow> split_call_args cwd as (plain_option a (push_arg a c))
           | Some f \<Rightarrow>
               (case as of
                  [] \<Rightarrow> (False, (push_arg a c)\<lparr>compiler_call_type := CALL_TYPE_COUNT\<rparr>)
                | n # as' \<Rightarrow> split_call_args cwd as' (f n (push_arg a c))))
      else if is_src_file_arg a \<or> is_header_file a
      then split_call_args cwd as (push_arg a (c\<lparr>input_src_file := a\<rparr>))
      else if is_for_linking a
      then split_call_args cwd as (push_arg a (c\<lparr>compiler_call_type := CALL_TYPE_LINK\<rparr>))
      else split_call_args cwd as (push_arg a c))"

declare split_call_args.simps(2) [simp del]

definition initialize_compiler_call :: "string \<Rightarrow> string list \<Rightarrow> compiler_call \<Rightarrow> bool \<times> compiler_call" where
  "initialize_compiler_call cwd cmd_line_contents c =
     (let c1 = c\<lparr>cc_working_dir := cwd\<rparr>;
          (ok, c2) =
            (case cmd_line_contents of
               [] \<Rightarrow> (True, c1)
             | a # as \<Rightarrow>
                 if a \<notin> set SUPPORTED_COMPILERS then (False, c1)
                 else split_call_args cwd as (c1\<lparr>compiler_type := a\<rparr>))
      in if \<not> ok then (False, c2)
         else
           let c3 = (if ends_with (output_obj_file c2) ''.o'' then c2\<lparr>compiler_call_type := CALL_TYPE_COMPILE\<rparr> else c2)
           in (input_src_file c3 \<noteq> [] \<and> compiler_call_type c3 \<noteq> CALL_TYPE_COUNT, c3))"

text \<open>\<open>collect_src_file_dependencies\<close>: a parser of its own for each call, over the cache of
  the daemon; the headers are returned in the map's order.\<close>

definition collect_src_file_dependencies ::
    "nat \<Rightarrow> source_env \<Rightarrow> cmd_line_include_dirs \<Rightarrow> compiler_call \<Rightarrow> includes_cache
      \<Rightarrow> (include_info list \<times> compiler_call \<times> includes_cache) option" where
  "collect_src_file_dependencies fuel env system_include_dirs c cache =
     (let dirs = append_include_dirs (cc_include_dirs c) system_include_dirs;
          c1 = c\<lparr>cc_include_dirs := dirs\<rparr>
      in case parse_source_file_includes fuel env dirs (input_src_file c) (dash_include dirs)
                \<lparr>includes_cache_of = cache, inc_directives = []\<rparr> of
           None \<Rightarrow> None
         | Some (False, st) \<Rightarrow> Some ([], c1, includes_cache_of st)
         | Some (True, st) \<Rightarrow> Some (map snd (inc_directives st), c1, includes_cache_of st))"

section \<open>The dependency file\<close>

definition create_depfile_name :: "compiler_call \<Rightarrow> string" where
  "create_depfile_name c =
     (if mf_flag_path (dep_cmd_state c) \<noteq> [] then mf_flag_path (dep_cmd_state c)
      else if output_obj_file c \<noteq> [] then replace_extension (output_obj_file c) ''.o.d''
      else replace_extension (path_filename (input_src_file c)) ''.o.d'')"

definition ignore_system_headers :: "cmd_line_include_dirs \<Rightarrow> include_info list \<Rightarrow> include_info list" where
  "ignore_system_headers sys headers =
     filter (\<lambda>h. \<not> list_ex (\<lambda>d. starts_with (file_path h) d) (dash_isystem sys)) headers"

definition calculate_deps_for_headers :: "cmd_line_include_dirs \<Rightarrow> compiler_call \<Rightarrow> include_info list \<Rightarrow> string list" where
  "calculate_deps_for_headers sys c headers =
     process_makefile_target (input_src_file c) #
     map (\<lambda>h. process_makefile_target (file_path h))
       (if mmd_flag_present (dep_cmd_state c) then ignore_system_headers sys headers else headers)"

definition dep_file_of_call :: "cmd_line_include_dirs \<Rightarrow> compiler_call \<Rightarrow> include_info list \<Rightarrow> dep_target list" where
  "dep_file_of_call sys c headers =
     (let target_name = (if mt_flag_paths (dep_cmd_state c) = [] then output_obj_file c
                         else mt_flag_paths (dep_cmd_state c));
          deps = calculate_deps_for_headers sys c headers
      in \<lparr>dt_target = target_name, dt_dep_files = deps\<rparr> #
         (if mp_flag_present (dep_cmd_state c)
          then map (\<lambda>d. \<lparr>dt_target = escape_gnu_make_spaces d, dt_dep_files = []\<rparr>) (tl deps) else []))"

text \<open>\<open>write_to_file\<close>: \<open>mkdirs\<close> says whether the operating system makes the directory.\<close>

definition write_to_file ::
    "(string \<Rightarrow> bool) \<Rightarrow> (string \<Rightarrow> bool) \<Rightarrow> string \<Rightarrow> dep_target list \<Rightarrow> file_store \<Rightarrow> file_store result" where
  "write_to_file mkdirs openable name ts fs =
     (if \<not> mkdirs (parent_path name) then Inl (Throw Filesystem_Error)
      else let (st, fs1) = open_out openable name fs
           in if \<not> is_open st then Inl (Throw (Runtime_Error (''failed to open output file: '' @ name)))
              else Inr (snd (stream_write st (write_to_bytes ts) fs1)))"

definition generate_dep_file ::
    "(string \<Rightarrow> bool) \<Rightarrow> (string \<Rightarrow> bool) \<Rightarrow> cmd_line_include_dirs \<Rightarrow> compiler_call \<Rightarrow> include_info list
      \<Rightarrow> file_store \<Rightarrow> (string \<times> file_store) result" where
  "generate_dep_file mkdirs openable sys c headers fs =
     bind_r (write_to_file mkdirs openable (create_depfile_name c) (dep_file_of_call sys c headers) fs)
       (\<lambda>fs'. Inr (create_depfile_name c, fs'))"

text \<open>\<open>make_dep_file_from_file\<close>\<close>

definition make_dep_file_from_file :: "string \<Rightarrow> file_store \<Rightarrow> dep_target list result" where
  "make_dep_file_from_file name fs =
     (case fs name of
        None \<Rightarrow> Inl (Throw (Runtime_Error (''failed to open file: '' @ name)))
      | Some content \<Rightarrow> parse_dep_file_contents content)"

section \<open>What a successful split guarantees\<close>

definition all_dirs :: "cmd_line_include_dirs \<Rightarrow> string set" where
  "all_dirs d = set (dash_i d) \<union> set (dash_isystem d) \<union> set (dash_iquote d) \<union> set (dash_include d)"

definition call_inv :: "string \<Rightarrow> string list \<Rightarrow> string \<Rightarrow> compiler_call \<Rightarrow> bool" where
  "call_inv cwd args k c \<longleftrightarrow>
     (input_src_file c = [] \<or> input_src_file c \<in> set args \<and> (is_src_file_arg (input_src_file c) \<or> is_header_file (input_src_file c)))
     \<and> compiler_call_type c \<noteq> CALL_TYPE_COMPILE
     \<and> (is_absolute cwd \<longrightarrow> (\<forall>d \<in> all_dirs (cc_include_dirs c). is_absolute d))
     \<and> cc_working_dir c = cwd \<and> compiler_type c = k"

lemmas call_ops = push_arg_def upd_dirs_def upd_deps_def plain_option_def

lemma get_abs_path_absolute: "is_absolute cwd \<Longrightarrow> is_absolute (get_abs_path cwd p)"
  by (cases cwd) (simp_all add: get_abs_path_def is_absolute_def)

lemma call_inv_push: "call_inv cwd args k c \<Longrightarrow> call_inv cwd args k (push_arg a c)"
  by (simp add: call_inv_def push_arg_def)

lemma call_inv_upd_deps: "call_inv cwd args k c \<Longrightarrow> call_inv cwd args k (upd_deps f c)"
  by (simp add: call_inv_def upd_deps_def)

lemma call_inv_upd_dirs:
  "call_inv cwd args k c \<Longrightarrow> all_dirs (f (cc_include_dirs c)) \<subseteq> insert (get_abs_path cwd q) (all_dirs (cc_include_dirs c)) \<Longrightarrow>
     call_inv cwd args k (upd_dirs f c)"
  using get_abs_path_absolute [of cwd q] unfolding call_inv_def upd_dirs_def by auto

lemma call_inv_output: "call_inv cwd args k c \<Longrightarrow> call_inv cwd args k (c\<lparr>output_obj_file := n\<rparr>)"
  by (simp add: call_inv_def)

lemma call_inv_plain: "call_inv cwd args k c \<Longrightarrow> call_inv cwd args k (plain_option a c)"
  by (simp add: plain_option_def call_inv_upd_deps)

lemma call_inv_dash_i:
  "call_inv cwd args k c \<Longrightarrow> call_inv cwd args k (upd_dirs (\<lambda>d. d\<lparr>dash_i := dash_i d @ [get_abs_path cwd q]\<rparr>) c)"
  by (rule call_inv_upd_dirs [where q = q]) (auto simp: all_dirs_def)

lemma call_inv_operand:
  assumes "operand_option cwd a = Some f" "call_inv cwd args k c"
  shows "call_inv cwd args k (f n c)"
proof -
  have dirs: "call_inv cwd args k (upd_dirs (\<lambda>d. d\<lparr>dash_isystem := dash_isystem d @ [get_abs_path cwd n]\<rparr>) c)"
    "call_inv cwd args k (upd_dirs (\<lambda>d. d\<lparr>dash_iquote := dash_iquote d @ [get_abs_path cwd n]\<rparr>) c)"
    "call_inv cwd args k (upd_dirs (\<lambda>d. d\<lparr>dash_include := dash_include d @ [get_abs_path cwd n]\<rparr>) c)"
    by (rule call_inv_upd_dirs [OF assms(2), where q = n], auto simp: all_dirs_def)+
  show ?thesis
    using assms unfolding operand_option_def Let_def
    by (auto simp: call_inv_push call_inv_upd_deps call_inv_output dirs split: if_split_asm)
qed

lemma call_inv_src: "call_inv cwd args k c \<Longrightarrow> is_src_file_arg a \<or> is_header_file a \<Longrightarrow> a \<in> set args \<Longrightarrow>
    call_inv cwd args k (push_arg a (c\<lparr>input_src_file := a\<rparr>))"
  by (simp add: call_inv_def push_arg_def)

lemma call_inv_link: "call_inv cwd args k c \<Longrightarrow> call_inv cwd args k (push_arg a (c\<lparr>compiler_call_type := CALL_TYPE_LINK\<rparr>))"
  by (simp add: call_inv_def push_arg_def)

lemmas call_inv_intros = call_inv_push call_inv_plain call_inv_dash_i call_inv_operand call_inv_src call_inv_link

lemma split_call_args_inv:
  assumes "call_inv cwd args k c" "set as \<subseteq> set args"
  shows "call_inv cwd args k (snd (split_call_args cwd as c))"
  using assms
proof (induction cwd as c rule: split_call_args.induct)
  case (2 cwd a as c)
  note IH = 2(1-6)
  note prems = 2(7,8)
  show ?case
  proof (cases "starts_with a ''-''")
    case True
    consider (dash_i) "starts_with a ''-I''" | (plain) "\<not> starts_with a ''-I''" "operand_option cwd a = None"
      | (last) f where "\<not> starts_with a ''-I''" "operand_option cwd a = Some f" "as = []"
      | (operand) f n as' where "\<not> starts_with a ''-I''" "operand_option cwd a = Some f" "as = n # as'"
      by (metis list.exhaust not_None_eq)
    then show ?thesis
    proof cases
      case last
      with True IH prems show ?thesis by (simp add: split_call_args.simps(2)) (simp add: call_inv_def push_arg_def)
    next
      case (operand f n as')
      with True IH prems show ?thesis by (simp add: split_call_args.simps(2) [of cwd a "n # as'"] call_inv_intros)
    qed (use True IH prems in \<open>simp_all add: split_call_args.simps(2) [of cwd a as] call_inv_intros\<close>)
  next
    case False
    consider (src) "is_src_file_arg a \<or> is_header_file a"
      | (link) "\<not> is_src_file_arg a" "\<not> is_header_file a" "is_for_linking a"
      | (other) "\<not> is_src_file_arg a" "\<not> is_header_file a" "\<not> is_for_linking a" by blast
    then show ?thesis
      by cases (use False IH prems in \<open>simp_all add: split_call_args.simps(2) [of cwd a as] call_inv_intros\<close>)
  qed
qed simp

text \<open>C24. When \<open>initialize_compiler_call\<close> accepts a command line, its first element is one of the
  supported compilers, the source file it names is a later argument with a source or header suffix,
  the call is a compilation exactly when the output file ends in \<open>.o\<close> and a link otherwise, and,
  for an absolute working directory, every include directory it collected is an absolute path.\<close>

theorem initialize_compiler_call_accepts:
  assumes "initialize_compiler_call cwd contents (new_compiler_call deps) = (True, c)"
  shows "contents \<noteq> [] \<and> compiler_type c = hd contents \<and> compiler_type c \<in> set SUPPORTED_COMPILERS
    \<and> input_src_file c \<in> set (tl contents) \<and> (is_src_file_arg (input_src_file c) \<or> is_header_file (input_src_file c))
    \<and> compiler_call_type c = (if ends_with (output_obj_file c) ''.o'' then CALL_TYPE_COMPILE else CALL_TYPE_LINK)
    \<and> cc_working_dir c = cwd \<and> (is_absolute cwd \<longrightarrow> (\<forall>d \<in> all_dirs (cc_include_dirs c). is_absolute d))"
proof (cases contents)
  case Nil
  then show ?thesis using assms by (simp add: initialize_compiler_call_def new_compiler_call_def Let_def)
next
  case (Cons a as)
  define c0 where "c0 = (new_compiler_call deps)\<lparr>cc_working_dir := cwd, compiler_type := a\<rparr>"
  obtain c2 where c2: "split_call_args cwd as c0 = (True, c2)" and a: "a \<in> set SUPPORTED_COMPILERS"
    and c: "c = (if ends_with (output_obj_file c2) ''.o'' then c2\<lparr>compiler_call_type := CALL_TYPE_COMPILE\<rparr> else c2)"
      "input_src_file c \<noteq> []" "compiler_call_type c \<noteq> CALL_TYPE_COUNT"
    using assms Cons by (auto simp: initialize_compiler_call_def c0_def Let_def split: if_splits prod.splits)
  have "call_inv cwd as a c0"
    by (simp add: call_inv_def c0_def new_compiler_call_def no_include_dirs_def all_dirs_def)
  then have "call_inv cwd as a c2" using split_call_args_inv [of cwd as a c0 as] c2 by simp
  then show ?thesis
    using a c Cons by (cases "compiler_call_type c2") (auto simp: call_inv_def split: if_splits)
qed

definition example_args :: "string list" where
  "example_args = [''/usr/bin/c++'', ''-Iq'', ''a.c'', ''-o'', ''a.o'']"

definition example_call :: "bool \<times> compiler_call" where
  "example_call = initialize_compiler_call ''/p'' example_args (new_compiler_call (new_dep_files_state False False False))"

lemma example_call_accepted: "fst example_call \<and> compiler_call_type (snd example_call) = CALL_TYPE_COMPILE"
  by (simp add: example_call_def example_args_def initialize_compiler_call_def SUPPORTED_COMPILERS_def,
      simp add: split_call_args.simps(2) operand_option_def is_src_file_arg_def ends_with_starts,
      simp add: call_ops new_compiler_call_def Let_def ends_with_starts)

theorem initialize_compiler_call_accepts_witness:
  "example_args \<noteq> [] \<and> compiler_type (snd example_call) = hd example_args
    \<and> compiler_type (snd example_call) \<in> set SUPPORTED_COMPILERS
    \<and> input_src_file (snd example_call) \<in> set (tl example_args)
    \<and> compiler_call_type (snd example_call) =
        (if ends_with (output_obj_file (snd example_call)) ''.o'' then CALL_TYPE_COMPILE else CALL_TYPE_LINK)
    \<and> cc_working_dir (snd example_call) = ''/p''
    \<and> all_dirs (cc_include_dirs (snd example_call)) \<subseteq> Collect is_absolute"
proof -
  have "initialize_compiler_call ''/p'' example_args (new_compiler_call (new_dep_files_state False False False))
      = (True, snd example_call)"
    using example_call_accepted by (simp add: example_call_def [symmetric] prod_eq_iff)
  from initialize_compiler_call_accepts [OF this] show ?thesis by auto
qed

section \<open>The dependency file of a call\<close>

definition plain_name :: "string \<Rightarrow> bool" where
  "plain_name s \<longleftrightarrow> s \<noteq> [] \<and> hd s \<noteq> CHR '':'' \<and> \<not> isspace (hd s)
     \<and> set s \<inter> {CHR '' '', CHR 0x09, CHR ''$'', CHR ''#'', backslash, newline} = {}"

lemma process_plain:
  "set s \<inter> {CHR '' '', CHR 0x09, CHR ''$'', CHR ''#''} = {} \<Longrightarrow> process_makefile_from b s = s"
  by (induction s arbitrary: b) auto

lemma process_plain_name: "plain_name s \<Longrightarrow> process_makefile_target s = s"
  unfolding process_makefile_target_def by (rule process_plain) (auto simp: plain_name_def)

lemma plain_item_ok: "plain_name s \<Longrightarrow> item_ok s"
  by (auto simp: plain_name_def item_ok_def isspace_def)

lemma plain_name_ok: "plain_name s \<Longrightarrow> name_ok s"
  by (auto simp: plain_name_def name_ok_def)

lemma deps_of_plain_call:
  assumes "plain_name (input_src_file c)" "\<forall>h \<in> set headers. plain_name (file_path h)"
  shows "calculate_deps_for_headers sys c headers =
    input_src_file c # map file_path
      (if mmd_flag_present (dep_cmd_state c) then ignore_system_headers sys headers else headers)"
  using assms by (auto simp: calculate_deps_for_headers_def ignore_system_headers_def process_plain_name)

lemma plain_deps:
  assumes "plain_name (input_src_file c)" "\<forall>h \<in> set headers. plain_name (file_path h)"
  shows "\<forall>d \<in> set (calculate_deps_for_headers sys c headers). plain_name d"
  using assms unfolding deps_of_plain_call [OF assms] by (auto simp: ignore_system_headers_def)

lemma dep_file_of_call_ok:
  assumes "plain_name (input_src_file c)" "\<forall>h \<in> set headers. plain_name (file_path h)"
    and "mt_flag_paths (dep_cmd_state c) = []" "output_obj_file c = escape_gnu_make_spaces t" "name_ok t"
  shows "list_all target_ok (dep_file_of_call sys c headers)"
proof -
  have "\<forall>d \<in> set (calculate_deps_for_headers sys c headers). item_ok d \<and> name_ok d"
    using plain_deps [OF assms(1,2)] plain_item_ok plain_name_ok by blast
  moreover obtain d ds where "calculate_deps_for_headers sys c headers = d # ds"
    by (simp add: calculate_deps_for_headers_def)
  ultimately show ?thesis
    using assms(3-5) by (auto simp: dep_file_of_call_def Let_def target_ok_def list_all_iff)
qed


definition example_header :: include_info where
  "example_header = \<lparr>file_path = ''/p/h.h'', child_includes = [], include_sz_bytes = 0, include_hash = []\<rparr>"

definition dep_example :: compiler_call where
  "dep_example = (new_compiler_call (new_dep_files_state True False True))
     \<lparr>input_src_file := ''/p/a.c'', output_obj_file := ''/p/a.o''\<rparr>"


text \<open>A path with a blank is escaped twice, once by \<open>_process_makefile_target\<close> and once by
  \<open>write_to_bytes\<close>: the reader sees a name that ends in a backslash.\<close>

lemma blank_escaped_twice:
  "write_deps [process_makefile_target ''a b''] = [CHR '' '', CHR ''a'', backslash, backslash, CHR '' '', CHR ''b'']
   \<and> fst (parse_dep_items (write_deps [process_makefile_target ''a b''] @ [newline])) = [[CHR ''a'', backslash], ''b'']"
proof -
  have w: "write_deps [process_makefile_target ''a b''] = [CHR '' '', CHR ''a'', backslash, backslash, CHR '' '', CHR ''b'']"
    by (simp add: write_deps_def process_makefile_target_def backslashes_before_def escape_char_def)
  show ?thesis unfolding w by (simp add: parse_dep_items.simps parse_next_dep_item_def)
qed

end
