(* ===== verification/Messages.thy ===== *)
theory Messages
  imports DB_Prelude
begin

text \<open>
  The messages of the TCP protocol between a client and a server, from
  \<open>src/support/distbuild_messages.proto\<close>. A \<open>oneof content\<close> is a datatype with one
  constructor per case; the extra constructor is \<open>CONTENT_NOT_SET\<close>, which is also what a
  message object holds when nothing could be parsed into it.
\<close>

section \<open>Client messages\<close>

record file_info =
  fi_filename :: string
  fi_filesize :: u64
  fi_filehash :: string

record session_start_request =
  ss_client_id :: string
  ss_client_working_dir :: string
  ss_client_source_file :: string
  ss_client_compiler :: string
  ss_client_cmd_line_args :: "string list"
  ss_client_idirs :: "string list"
  ss_required_files_info :: "file_info list"

record file_chunk_upload =
  fc_session_id :: string
  fc_filename :: string
  fc_sequence_no :: u64
  fc_offset :: u64
  fc_data :: string
  fc_is_last_chunk :: bool

datatype client_message =
    CSessionStart session_start_request
  | CSessionAbort (cab_session_id: string) (cab_client_id: string)
  | CFileChunkUpload file_chunk_upload
  | CNotSet

section \<open>Server messages\<close>

record obj_file_chunk =
  oc_session_id :: string
  oc_compiler_exit_code :: i32
  oc_compiler_call_duration :: i32
  oc_compiler_stdout :: string
  oc_compiler_stderr :: string
  oc_filesize :: u64
  oc_is_last_chunk :: bool
  oc_data :: string

datatype server_message =
    SSessionConfirmed (conf_session_id: string) (conf_required_files: "string list")
  | SSessionAbort (sab_session_id: string) (sab_client_id: string)
  | SFileUpComplete (fuc_session_id: string) (fuc_filename: string) (fuc_success: bool)
  | SAllReqUpComplete (aru_session_id: string)
  | SObjFileChunk obj_file_chunk
  | SNotSet

section \<open>Resource advertisement\<close>

record resource_adv_message =
  ra_server_uuid :: string
  ra_server_host :: string
  ra_server_port :: u32
  ra_available_jobs :: u32

end
