(* ===== verification/Client_Session.thy ===== *)
theory Client_Session
  imports Compiler_Call Messages Unix_Ipc
begin

text \<open>
  The client's side of a compilation session: \<open>src/src/client_session.hpp\<close> and
  \<open>client_session.cpp\<close>.

  A session sends the files the server asked for, one file at a time, writes the object file it
  gets back, and falls back to a compilation on this machine when something goes wrong. Messages
  handed to \<open>send_msg\<close> are appended to \<open>cs_out_msgs\<close>; responses for the wrapper are
  appended to \<open>unix_ipc_channel\<close>, in the order in which the channel delivers them. The record
  \<open>client_reg\<close> is what a session changes of its \<open>Client\<close>: the keys of the two session maps.

  Arguments for what is outside the program: \<open>run\<close> runs a compiler with its arguments in a
  directory and gives its exit code and its output; \<open>openable\<close> as for the server;
  \<open>weakly_canonical\<close> is the library function.
\<close>

section \<open>State\<close>

type_synonym process_runner = "string \<Rightarrow> string list \<Rightarrow> string \<Rightarrow> i32 \<times> string \<times> string"

record obj_file_transfer_state =
  ot_is_finished :: bool
  obj_out_stream :: out_stream
  ot_session_id :: string
  ot_filename :: string
  ot_last_seq_no :: u64
  ot_last_offset :: u64

record client_session =
  cs_session_uuid :: string
  cs_terminated :: bool
  cs_required_files :: "string list"
  req_files_send_idx :: nat
  cs_transfer :: "obj_file_transfer_state option"
  cs_call :: compiler_call
  cs_out_msgs :: "client_message list"
  unix_ipc_channel :: "unix_ipc_response list"

record client_reg =
  reg_client_uuid :: string
  client_sessions :: "string set"
  client_compiler_calls :: "string set"

definition new_obj_file_transfer_state ::
    "(string \<Rightarrow> bool) \<Rightarrow> string \<Rightarrow> string \<Rightarrow> file_store \<Rightarrow> obj_file_transfer_state \<times> file_store" where
  "new_obj_file_transfer_state openable session_id filename fs =
     (let (st, fs') = open_out openable filename fs
      in (\<lparr>ot_is_finished = False, obj_out_stream = st, ot_session_id = session_id, ot_filename = filename,
           ot_last_seq_no = 0, ot_last_offset = 0\<rparr>, fs'))"

text \<open>The session id of a new object is a default-initialised \<open>uuid\<close>.\<close>

definition new_client_session :: "string \<Rightarrow> compiler_call \<Rightarrow> client_session" where
  "new_client_session uuid call =
     \<lparr>cs_session_uuid = uuid, cs_terminated = False, cs_required_files = [], req_files_send_idx = 0,
      cs_transfer = None, cs_call = call, cs_out_msgs = [], unix_ipc_channel = []\<rparr>"

section \<open>Messages out\<close>

definition cli_send_msg :: "client_message \<Rightarrow> client_session \<Rightarrow> client_session" where
  "cli_send_msg m s = s\<lparr>cs_out_msgs := cs_out_msgs s @ [m]\<rparr>"

definition publish_unix_ipc_response :: "unix_ipc_response \<Rightarrow> client_session \<Rightarrow> client_session" where
  "publish_unix_ipc_response r s = s\<lparr>unix_ipc_channel := unix_ipc_channel s @ [r]\<rparr>"

text \<open>\<open>retrieve_unix_ipc_response\<close> waits until there is a response; \<open>None\<close> stands for
  waiting.\<close>

definition retrieve_unix_ipc_response :: "client_session \<Rightarrow> (unix_ipc_response \<times> client_session) option" where
  "retrieve_unix_ipc_response s =
     (case unix_ipc_channel s of [] \<Rightarrow> None | r # rs \<Rightarrow> Some (r, s\<lparr>unix_ipc_channel := rs\<rparr>))"

definition send_abort_to_server :: "client_reg \<Rightarrow> client_session \<Rightarrow> client_session" where
  "send_abort_to_server reg s = cli_send_msg (CSessionAbort (cs_session_uuid s) (reg_client_uuid reg)) s"

definition OBJ_CHUNK_SZ :: nat where
  "OBJ_CHUNK_SZ = 64 * 1024"

text \<open>The read loop of \<open>_send_required_file\<close>; the last argument is what is left of the file.\<close>

function file_chunks :: "string \<Rightarrow> string \<Rightarrow> u64 \<Rightarrow> u64 \<Rightarrow> string \<Rightarrow> file_chunk_upload list" where
  "file_chunks uuid name seq_no file_offset rest =
     (let bytes = take OBJ_CHUNK_SZ rest
      in if length bytes = 0 then []
         else \<lparr>fc_session_id = uuid, fc_filename = name, fc_sequence_no = seq_no, fc_offset = file_offset,
               fc_data = bytes, fc_is_last_chunk = (length bytes < OBJ_CHUNK_SZ)\<rparr>
              # file_chunks uuid name (seq_no + 1) (file_offset + of_nat (length bytes)) (drop OBJ_CHUNK_SZ rest))"
  by pat_completeness auto
termination
  by (relation "measure (\<lambda>(u, n, sq, off, rest). length rest)") (auto simp: OBJ_CHUNK_SZ_def)

declare file_chunks.simps [simp del]

definition send_required_file :: "file_store \<Rightarrow> client_session \<Rightarrow> client_session" where
  "send_required_file fs s =
     (if req_files_send_idx s \<ge> length (cs_required_files s) then s
      else
        let required_file = cs_required_files s ! req_files_send_idx s
        in case fs required_file of
             None \<Rightarrow> s
           | Some content \<Rightarrow>
               let chunks =
                     (if content = []
                      then [\<lparr>fc_session_id = cs_session_uuid s, fc_filename = required_file, fc_sequence_no = 1,
                             fc_offset = 0, fc_data = [], fc_is_last_chunk = True\<rparr>]
                      else file_chunks (cs_session_uuid s) required_file 1 0 content)
               in (fold cli_send_msg (map CFileChunkUpload chunks) s)
                    \<lparr>req_files_send_idx := req_files_send_idx s + 1\<rparr>)"

section \<open>Ending a session, compiling locally\<close>

definition remove_client_session :: "string \<Rightarrow> client_reg \<Rightarrow> client_reg" where
  "remove_client_session uuid reg =
     reg\<lparr>client_sessions := client_sessions reg - {uuid},
         client_compiler_calls := client_compiler_calls reg - {uuid}\<rparr>"

definition terminate_client_session :: "client_session \<Rightarrow> client_reg \<Rightarrow> client_session \<times> client_reg" where
  "terminate_client_session s reg =
     (s\<lparr>cs_terminated := True\<rparr>, remove_client_session (cs_session_uuid s) reg)"

definition set_call_results :: "i32 \<Rightarrow> string \<Rightarrow> string \<Rightarrow> client_session \<Rightarrow> client_session" where
  "set_call_results code out err s =
     s\<lparr>cs_call := set_stderr_content err (set_stdout_content out (set_exit_code code (cs_call s)))\<rparr>"

definition perform_local_compilation :: "process_runner \<Rightarrow> client_session \<Rightarrow> client_session" where
  "perform_local_compilation run s =
     (let (code, out, err) = run (compiler_type (cs_call s)) (cc_cmd_line_args (cs_call s)) (cc_working_dir (cs_call s))
      in publish_unix_ipc_response (mk_response code out err) (set_call_results code out err s))"

section \<open>The object file\<close>

definition process_obj_file_chunk :: "obj_file_chunk \<Rightarrow> client_session \<Rightarrow> file_store \<Rightarrow> bool \<times> client_session \<times> file_store" where
  "process_obj_file_chunk msg s fs =
     (if oc_session_id msg \<noteq> cs_session_uuid s then (False, s, fs)
      else case cs_transfer s of
          None \<Rightarrow> (False, s, fs)
        | Some ts \<Rightarrow>
            if ot_is_finished ts then (True, s, fs)
            else if ot_session_id ts \<noteq> cs_session_uuid s
            then (False, s\<lparr>cs_transfer := Some (ts\<lparr>ot_is_finished := True, obj_out_stream := stream_close (obj_out_stream ts)\<rparr>)\<rparr>, fs)
            else
              let (st, fs1) = stream_write (obj_out_stream ts) (oc_data msg) fs
              in if \<not> oc_is_last_chunk msg then (True, s\<lparr>cs_transfer := Some (ts\<lparr>obj_out_stream := st\<rparr>)\<rparr>, fs1)
                 else (True,
                   publish_unix_ipc_response
                     (mk_response (oc_compiler_exit_code msg) (oc_compiler_stderr msg) (oc_compiler_stdout msg))
                     (set_call_results (oc_compiler_exit_code msg) (oc_compiler_stdout msg) (oc_compiler_stderr msg)
                       (s\<lparr>cs_transfer := Some (ts\<lparr>ot_is_finished := True, obj_out_stream := stream_close st\<rparr>)\<rparr>)),
                   fs1))"

section \<open>The session's message loop\<close>

text \<open>Fall back: compile here, tell the server, end the session.\<close>

definition fall_back :: "process_runner \<Rightarrow> client_session \<Rightarrow> client_reg \<Rightarrow> client_session \<times> client_reg" where
  "fall_back run s reg = terminate_client_session (send_abort_to_server reg (perform_local_compilation run s)) reg"

text \<open>One turn of the loop of \<open>_handle_client_session\<close>: whether it goes on, and the new state.\<close>

definition handle_server_message ::
    "process_runner \<Rightarrow> server_message \<Rightarrow> client_session \<Rightarrow> client_reg \<Rightarrow> file_store
      \<Rightarrow> bool \<times> client_session \<times> client_reg \<times> file_store" where
  "handle_server_message run msg s reg fs =
     (case msg of
        SSessionConfirmed _ _ \<Rightarrow> (True, s, reg, fs)
      | SSessionAbort _ _ \<Rightarrow>
          (let (s1, reg1) = terminate_client_session (perform_local_compilation run s) reg in (False, s1, reg1, fs))
      | SFileUpComplete sid _ success \<Rightarrow>
          if sid = cs_session_uuid s \<and> success then (True, send_required_file fs s, reg, fs)
          else (let (s1, reg1) = fall_back run s reg in (False, s1, reg1, fs))
      | SAllReqUpComplete _ \<Rightarrow> (True, s, reg, fs)
      | SObjFileChunk chunk \<Rightarrow>
          (let (ok, s1, fs1) = process_obj_file_chunk chunk s fs
           in if ok then (True, s1, reg, fs1)
              else (let (s2, reg2) = fall_back run s1 reg in (False, s2, reg2, fs1)))
      | SNotSet \<Rightarrow> (True, s, reg, fs))"

text \<open>The loop over the messages that arrive. It also ends when the session was terminated by the
  client. When the connection ends, \<open>receive_msg\<close> throws and the loop ends.\<close>

fun client_session_loop ::
    "process_runner \<Rightarrow> server_message list \<Rightarrow> client_session \<Rightarrow> client_reg \<Rightarrow> file_store
      \<Rightarrow> client_session \<times> client_reg \<times> file_store" where
  "client_session_loop run [] s reg fs = (s, reg, fs)"
| "client_session_loop run (m # ms) s reg fs =
     (if cs_terminated s then (s, reg, fs)
      else let (go_on, s1, reg1, fs1) = handle_server_message run m s reg fs
           in if go_on then client_session_loop run ms s1 reg1 fs1 else (s1, reg1, fs1))"

definition handle_client_session ::
    "process_runner \<Rightarrow> server_message list \<Rightarrow> client_session \<Rightarrow> client_reg \<Rightarrow> file_store
      \<Rightarrow> client_session \<times> client_reg \<times> file_store" where
  "handle_client_session run msgs s reg fs = client_session_loop run msgs (send_required_file fs s) reg fs"

section \<open>Starting a session\<close>

text \<open>The connection attempt succeeds or throws (\<open>connects\<close>); \<open>reply\<close> is the first message
  received, or the exception of \<open>receive_msg\<close>. The handler coroutine starts afterwards.\<close>

definition start_client_session ::
    "(string \<Rightarrow> bool) \<Rightarrow> (string \<Rightarrow> string) \<Rightarrow> bool \<Rightarrow> server_message result \<Rightarrow> client_message
      \<Rightarrow> client_session \<Rightarrow> file_store \<Rightarrow> (bool \<times> client_session \<times> file_store) result" where
  "start_client_session openable weakly_canonical connects reply session_start_rqst s fs =
     (if \<not> connects then Inl (Throw Socket_Error)
      else
        let s1 = cli_send_msg session_start_rqst s
        in bind_r reply (\<lambda>msg.
             case msg of
               SSessionConfirmed sid required \<Rightarrow>
                 (let (ts, fs1) = new_obj_file_transfer_state openable sid
                        (weakly_canonical (path_append (cc_working_dir (cs_call s1)) (output_obj_file (cs_call s1)))) fs
                  in Inr (True, s1\<lparr>cs_session_uuid := sid, cs_transfer := Some ts, cs_required_files := required\<rparr>, fs1))
             | _ \<Rightarrow> Inr (False, s1, fs)))"

section \<open>Lemmas\<close>

lemma fold_cli_send_msg: "fold cli_send_msg ms s = s\<lparr>cs_out_msgs := cs_out_msgs s @ ms\<rparr>"
  by (induction ms arbitrary: s) (simp_all add: cli_send_msg_def)

lemma perform_local_frame [simp]:
  "cs_session_uuid (perform_local_compilation run s) = cs_session_uuid s"
  "cs_out_msgs (perform_local_compilation run s) = cs_out_msgs s"
  "cs_terminated (perform_local_compilation run s) = cs_terminated s"
  by (simp_all add: perform_local_compilation_def publish_unix_ipc_response_def set_call_results_def split: prod.split)

definition local_response :: "process_runner \<Rightarrow> client_session \<Rightarrow> unix_ipc_response" where
  "local_response run s =
     (let (code, out, err) = run (compiler_type (cs_call s)) (cc_cmd_line_args (cs_call s)) (cc_working_dir (cs_call s))
      in mk_response code out err)"

lemma channel_perform_local [simp]:
  "unix_ipc_channel (perform_local_compilation run s) = unix_ipc_channel s @ [local_response run s]"
  by (simp add: perform_local_compilation_def publish_unix_ipc_response_def set_call_results_def
      local_response_def split: prod.split)

lemma fall_back_effect:
  assumes "fall_back run s reg = (s', reg')"
  shows "cs_terminated s'" "reg' = remove_client_session (cs_session_uuid s) reg"
    "unix_ipc_channel s' = unix_ipc_channel s @ [local_response run s]"
    "cs_out_msgs s' = cs_out_msgs s @ [CSessionAbort (cs_session_uuid s) (reg_client_uuid reg)]"
  using assms by (auto simp: fall_back_def terminate_client_session_def send_abort_to_server_def cli_send_msg_def)

lemma process_obj_file_chunk_frame:
  assumes "process_obj_file_chunk c s fs = (ok, s', fs')"
  shows "cs_session_uuid s' = cs_session_uuid s" "cs_terminated s' = cs_terminated s"
    "compiler_type (cs_call s') = compiler_type (cs_call s)"
    "cc_cmd_line_args (cs_call s') = cc_cmd_line_args (cs_call s)"
    "cc_working_dir (cs_call s') = cc_working_dir (cs_call s)"
    "\<not> ok \<Longrightarrow> unix_ipc_channel s' = unix_ipc_channel s"
  using assms
  by (auto simp: process_obj_file_chunk_def publish_unix_ipc_response_def set_call_results_def Let_def
      split: if_splits option.splits prod.splits)


definition example_session :: client_session where
  "example_session = new_client_session ''u'' (new_compiler_call (new_dep_files_state False False False))"


lemma file_chunks_step:
  "content \<noteq> [] \<Longrightarrow> file_chunks uuid name seq off content =
     \<lparr>fc_session_id = uuid, fc_filename = name, fc_sequence_no = seq, fc_offset = off,
      fc_data = take OBJ_CHUNK_SZ content, fc_is_last_chunk = (length content < OBJ_CHUNK_SZ)\<rparr>
     # file_chunks uuid name (seq + 1) (off + of_nat (length (take OBJ_CHUNK_SZ content))) (drop OBJ_CHUNK_SZ content)"
  by (subst file_chunks.simps) (auto simp: Let_def OBJ_CHUNK_SZ_def)

lemma file_chunks_Nil [simp]: "file_chunks uuid name seq off [] = []"
  by (subst file_chunks.simps) simp

lemma send_required_file_sends:
  assumes "req_files_send_idx s < length (cs_required_files s)"
    and "cs_required_files s ! req_files_send_idx s = name" "fs name = Some content" "content \<noteq> []"
  shows "send_required_file fs s =
    s\<lparr>cs_out_msgs := cs_out_msgs s @ map CFileChunkUpload (file_chunks (cs_session_uuid s) name 1 0 content),
      req_files_send_idx := req_files_send_idx s + 1\<rparr>"
  using assms by (simp add: send_required_file_def fold_cli_send_msg)

end
