(* ===== verification/Resource_Adv.thy ===== *)
theory Resource_Adv
  imports Messages "HOL-Library.AList"
begin

text \<open>
  Resource advertising: the server's broadcaster (\<open>src/src/resource_broadcaster.hpp\<close>) and the
  client's listener (\<open>src/src/resource_listener.hpp\<close>). The listener's hash map is an
  association list, because \<open>pick_compilation_server\<close> and the cleanup iterate over it; times are
  nanoseconds of the steady clock. \<open>draw n\<close> is the index below \<open>n\<close> that the random
  distribution yields.
\<close>

section \<open>The broadcaster\<close>

record resource_broadcaster =
  rb_available_jobs :: u64
  rb_server_uuid :: string
  rb_server_port :: u16
  rb_server_ip :: string

definition new_resource_broadcaster :: "string \<Rightarrow> u16 \<Rightarrow> string \<Rightarrow> resource_broadcaster" where
  "new_resource_broadcaster uuid port ip =
     \<lparr>rb_available_jobs = 8, rb_server_uuid = uuid, rb_server_port = port, rb_server_ip = ip\<rparr>"

definition rb_set_available_jobs :: "u64 \<Rightarrow> resource_broadcaster \<Rightarrow> resource_broadcaster" where
  "rb_set_available_jobs n rb = rb\<lparr>rb_available_jobs := n\<rparr>"

text \<open>The message of one turn of \<open>_run\<close>; the port is widened to 32 bits, the number of jobs narrowed.\<close>

definition advertisement :: "resource_broadcaster \<Rightarrow> resource_adv_message" where
  "advertisement rb =
     \<lparr>ra_server_uuid = rb_server_uuid rb, ra_server_host = rb_server_ip rb, ra_server_port = ucast (rb_server_port rb),
      ra_available_jobs = ucast (rb_available_jobs rb)\<rparr>"

section \<open>The listener\<close>

record server_info =
  si_server_uuid :: string
  si_server_ip :: string
  si_server_port :: u32
  si_available_jobs :: u32
  si_last_seen :: nat

type_synonym server_nodes = "(string \<times> server_info) list"

text \<open>One turn of \<open>_receive_loop\<close>; \<open>parse\<close> is protobuf's decoder.\<close>

definition receive_advertisement ::
    "(string \<Rightarrow> resource_adv_message option) \<Rightarrow> nat \<Rightarrow> string \<Rightarrow> server_nodes \<Rightarrow> server_nodes" where
  "receive_advertisement parse now packet nodes =
     (case parse packet of
        None \<Rightarrow> nodes
      | Some msg \<Rightarrow>
          AList.update (ra_server_uuid msg)
            \<lparr>si_server_uuid = ra_server_uuid msg, si_server_ip = ra_server_host msg, si_server_port = ra_server_port msg,
             si_available_jobs = ra_available_jobs msg, si_last_seen = now\<rparr> nodes)"

text \<open>One turn of \<open>_cleanup_loop\<close>: the age is cut to whole seconds.\<close>

definition cleanup_nodes :: "nat \<Rightarrow> server_nodes \<Rightarrow> server_nodes" where
  "cleanup_nodes now nodes = filter (\<lambda>(_, info). \<not> (now - si_last_seen info) div 1000000000 > 4) nodes"

definition pick_compilation_server :: "(nat \<Rightarrow> nat) \<Rightarrow> server_nodes \<Rightarrow> server_info option \<times> server_nodes" where
  "pick_compilation_server draw nodes =
     (let candidates = filter (\<lambda>(_, info). si_available_jobs info > 0) nodes
      in if candidates = [] then (None, nodes)
         else let (k, info) = candidates ! draw (length candidates);
                  chosen = info\<lparr>si_available_jobs := si_available_jobs info - 1\<rparr>
              in (Some chosen, AList.update k chosen nodes))"

section \<open>Lemmas\<close>

text \<open>The keys of a hash map are distinct, and each entry is stored under its own uuid.\<close>

definition nodes_ok :: "server_nodes \<Rightarrow> bool" where
  "nodes_ok nodes \<longleftrightarrow> distinct (map fst nodes) \<and> (\<forall>(k, info) \<in> set nodes. si_server_uuid info = k)"

definition jobs_of :: "server_nodes \<Rightarrow> string \<Rightarrow> nat" where
  "jobs_of nodes k = (case map_of nodes k of None \<Rightarrow> 0 | Some info \<Rightarrow> unat (si_available_jobs info))"

lemma nodes_ok_update:
  assumes "nodes_ok nodes" "si_server_uuid info = k"
  shows "nodes_ok (AList.update k info nodes)"
proof -
  have d: "distinct (map fst (AList.update k info nodes))"
    using assms(1) by (simp add: nodes_ok_def distinct_update)
  have "si_server_uuid i = j" if "(j, i) \<in> set (AList.update k info nodes)" for j i
  proof -
    have "map_of (AList.update k info nodes) j = Some i" using d that by (simp add: map_of_is_SomeI)
    then have "((map_of nodes)(k \<mapsto> info)) j = Some i" by (simp add: update_conv')
    then show ?thesis using assms by (auto simp: nodes_ok_def split: if_splits dest: map_of_SomeD)
  qed
  then show ?thesis using d by (auto simp: nodes_ok_def)
qed

lemma nodes_ok_Nil: "nodes_ok []"
  by (simp add: nodes_ok_def)

lemma nodes_ok_receive: "nodes_ok nodes \<Longrightarrow> nodes_ok (receive_advertisement parse now packet nodes)"
  by (simp add: receive_advertisement_def nodes_ok_update split: option.split)

lemma nodes_ok_cleanup: "nodes_ok nodes \<Longrightarrow> nodes_ok (cleanup_nodes now nodes)"
  by (auto simp: nodes_ok_def cleanup_nodes_def distinct_map_filter)

lemma unat_pred: "(0::u32) < n \<Longrightarrow> Suc (unat (n - 1)) = unat n"
  by unat_arith

lemma pick_none_iff:
  assumes "nodes_ok nodes"
  shows "fst (pick_compilation_server draw nodes) = None \<longleftrightarrow> (\<forall>k. jobs_of nodes k = 0)"
proof -
  have "(filter (\<lambda>(_, info). si_available_jobs info > 0) nodes = []) \<longleftrightarrow> (\<forall>k. jobs_of nodes k = 0)"
  proof -
    have "jobs_of nodes k = unat (si_available_jobs info)" if "(k, info) \<in> set nodes" for k info
      using assms that by (simp add: jobs_of_def nodes_ok_def)
    moreover have "jobs_of nodes k = 0" if "k \<notin> fst ` set nodes" for k
    proof -
      have "map_of nodes k = None" using that by (simp add: map_of_eq_None_iff)
      then show ?thesis by (simp add: jobs_of_def)
    qed
    ultimately show ?thesis by (force simp: filter_empty_conv word_gt_0 unat_eq_zero)
  qed
  then show ?thesis by (auto simp: pick_compilation_server_def Let_def split: prod.split)
qed

lemma pick_some:
  assumes "nodes_ok nodes" "\<forall>n>0. draw n < n"
    and "pick_compilation_server draw nodes = (Some info, nodes')"
  shows "nodes_ok nodes'" "map_of nodes' (si_server_uuid info) = Some info"
    "Suc (jobs_of nodes' (si_server_uuid info)) = jobs_of nodes (si_server_uuid info)"
    "\<And>k. k \<noteq> si_server_uuid info \<Longrightarrow> map_of nodes' k = map_of nodes k"
proof -
  let ?c = "filter (\<lambda>(_, info). si_available_jobs info > 0) nodes"
  have ne: "?c \<noteq> []" using assms(3) by (auto simp: pick_compilation_server_def Let_def split: if_splits)
  obtain k i where ki: "?c ! draw (length ?c) = (k, i)" by (cases "?c ! draw (length ?c)") auto
  have "(k, i) \<in> set ?c" using ne assms(2) ki by (metis length_greater_0_conv nth_mem)
  then have mem: "(k, i) \<in> set nodes" "si_available_jobs i > 0" by auto
  have uuid: "si_server_uuid i = k" "map_of nodes k = Some i"
    using assms(1) mem by (auto simp: nodes_ok_def)
  have r: "info = i\<lparr>si_available_jobs := si_available_jobs i - 1\<rparr>" "nodes' = AList.update k info nodes"
    using assms(3) ne ki by (auto simp: pick_compilation_server_def Let_def)
  show "nodes_ok nodes'" unfolding r(2) using assms(1) r(1) uuid(1) by (intro nodes_ok_update) simp_all
  show "map_of nodes' (si_server_uuid info) = Some info" using r uuid by (simp add: update_conv')
  show "Suc (jobs_of nodes' (si_server_uuid info)) = jobs_of nodes (si_server_uuid info)"
    using r uuid unat_pred [OF mem(2)] by (simp add: jobs_of_def update_conv')
  show "\<And>k. k \<noteq> si_server_uuid info \<Longrightarrow> map_of nodes' k = map_of nodes k"
    using r uuid by (simp add: update_conv')
qed

text \<open>A sequence of picks, and how often each server was chosen.\<close>

fun pick_all :: "(nat \<Rightarrow> nat) list \<Rightarrow> server_nodes \<Rightarrow> server_info option list \<times> server_nodes" where
  "pick_all [] nodes = ([], nodes)"
| "pick_all (draw # draws) nodes =
     (let (r, nodes1) = pick_compilation_server draw nodes;
          (rs, nodes2) = pick_all draws nodes1
      in (r # rs, nodes2))"

definition picks_of :: "string \<Rightarrow> server_info option list \<Rightarrow> nat" where
  "picks_of k rs = length (filter (\<lambda>r. map_option si_server_uuid r = Some k) rs)"

lemma pick_count:
  assumes "nodes_ok nodes" "\<forall>n>0. draw n < n"
  shows "nodes_ok (snd (pick_compilation_server draw nodes))"
    "picks_of k [fst (pick_compilation_server draw nodes)] + jobs_of (snd (pick_compilation_server draw nodes)) k = jobs_of nodes k"
proof -
  obtain r nodes' where p: "pick_compilation_server draw nodes = (r, nodes')" by fastforce
  have none: "nodes' = nodes" if "r = None"
    using p that by (auto simp: pick_compilation_server_def Let_def split: if_splits prod.splits)
  show "nodes_ok (snd (pick_compilation_server draw nodes))"
    using p none pick_some(1) [OF assms] assms(1) by (cases r) auto
  show "picks_of k [fst (pick_compilation_server draw nodes)] + jobs_of (snd (pick_compilation_server draw nodes)) k = jobs_of nodes k"
  proof (cases r)
    case None
    then show ?thesis using p none by (simp add: picks_of_def)
  next
    case (Some info)
    then have p': "pick_compilation_server draw nodes = (Some info, nodes')" using p by simp
    show ?thesis
      using p' pick_some(3,4) [OF assms p']
      by (cases "k = si_server_uuid info") (auto simp: picks_of_def jobs_of_def)
  qed
qed

lemma pick_all_count:
  assumes "nodes_ok nodes" "\<forall>draw \<in> set draws. \<forall>n>0. draw n < n"
  shows "picks_of k (fst (pick_all draws nodes)) + jobs_of (snd (pick_all draws nodes)) k = jobs_of nodes k"
  using assms
proof (induction draws arbitrary: nodes)
  case (Cons draw draws)
  let ?n1 = "snd (pick_compilation_server draw nodes)"
  have d: "\<forall>n>0. draw n < n" using Cons.prems(2) by simp
  have IH: "picks_of k (fst (pick_all draws ?n1)) + jobs_of (snd (pick_all draws ?n1)) k = jobs_of ?n1 k"
    using Cons pick_count(1) [where draw = draw, OF Cons.prems(1) d] by simp
  have picks: "picks_of k (fst (pick_all (draw # draws) nodes)) =
      picks_of k [fst (pick_compilation_server draw nodes)] + picks_of k (fst (pick_all draws ?n1))"
    by (simp add: picks_of_def case_prod_beta)
  have nodes: "snd (pick_all (draw # draws) nodes) = snd (pick_all draws ?n1)"
    by (simp add: case_prod_beta)
  show ?case
    unfolding picks nodes
    using IH pick_count(2) [where draw = draw and k = k, OF Cons.prems(1) d] by linarith
qed (simp add: picks_of_def)

text \<open>C31. However the random numbers fall, between two advertisements of a server the client picks
  it at most as often as the server advertised free jobs, the count it keeps never wraps around, and
  as long as some server has a free job every request gets one.\<close>

theorem picks_within_advertised_jobs:
  assumes "nodes_ok nodes" "\<forall>draw \<in> set draws. \<forall>n>0. draw n < n"
  shows "picks_of k (fst (pick_all draws nodes)) \<le> jobs_of nodes k
    \<and> jobs_of (snd (pick_all draws nodes)) k = jobs_of nodes k - picks_of k (fst (pick_all draws nodes))
    \<and> (fst (pick_compilation_server draw nodes) = None \<longleftrightarrow> (\<forall>j. jobs_of nodes j = 0))"
  using pick_all_count [OF assms, of k] pick_none_iff [OF assms(1), of draw] by simp

definition one_node :: server_nodes where
  "one_node = receive_advertisement (\<lambda>_. Some (advertisement (new_resource_broadcaster ''s'' 80 ''h''))) 0 [] []"

theorem picks_within_advertised_jobs_witness:
  "picks_of ''s'' (fst (pick_all [\<lambda>_. 0, \<lambda>n. n - 1] one_node)) \<le> jobs_of one_node ''s''
    \<and> jobs_of (snd (pick_all [\<lambda>_. 0, \<lambda>n. n - 1] one_node)) ''s''
        = jobs_of one_node ''s'' - picks_of ''s'' (fst (pick_all [\<lambda>_. 0, \<lambda>n. n - 1] one_node))
    \<and> (fst (pick_compilation_server (\<lambda>_. 0) one_node) = None \<longleftrightarrow> (\<forall>j. jobs_of one_node j = 0))"
  by (rule picks_within_advertised_jobs) (simp_all add: one_node_def nodes_ok_receive nodes_ok_Nil)

lemma map_of_filter_snd:
  "distinct (map fst xs) \<Longrightarrow>
     map_of (filter (\<lambda>(_, i). P i) xs) k = (case map_of xs k of None \<Rightarrow> None | Some i \<Rightarrow> if P i then Some i else None)"
proof (induction xs)
  case (Cons x xs)
  have "map_of xs (fst x) = None" using Cons.prems by (simp add: map_of_eq_None_iff)
  then show ?case using Cons by (cases x) (auto split: option.split)
qed simp

text \<open>C32. What the listener knows about a server is the server's last advertisement as long as it
  is recent: right after an advertisement is received it records the advertised number of jobs (as
  many as fit in 32 bits), and the cleanup keeps exactly the servers heard from less than five
  seconds ago.\<close>

theorem listener_tracks_recent_servers:
  assumes "nodes_ok nodes" "parse packet = Some (advertisement rb)" "unat (rb_available_jobs rb) < 2 ^ 32"
  shows "jobs_of (receive_advertisement parse now packet nodes) (rb_server_uuid rb) = unat (rb_available_jobs rb)
    \<and> map_of (cleanup_nodes later (receive_advertisement parse now packet nodes)) k =
        (case map_of (receive_advertisement parse now packet nodes) k of
           None \<Rightarrow> None
         | Some info \<Rightarrow> if later - si_last_seen info < 5 * 1000000000 then Some info else None)"
proof -
  let ?nodes = "receive_advertisement parse now packet nodes"
  have "jobs_of ?nodes (rb_server_uuid rb) = unat (rb_available_jobs rb)"
    using assms(2,3) by (simp add: receive_advertisement_def advertisement_def jobs_of_def update_conv' unsigned_ucast_eq take_bit_nat_eq_self)
  moreover have "(\<not> d div 1000000000 > 4) \<longleftrightarrow> d < 5 * 1000000000" for d :: nat
    by linarith
  moreover have "distinct (map fst ?nodes)" using nodes_ok_receive [OF assms(1)] by (simp add: nodes_ok_def)
  ultimately show ?thesis by (simp add: cleanup_nodes_def map_of_filter_snd split: option.split)
qed

theorem listener_tracks_recent_servers_witness:
  "jobs_of (receive_advertisement (\<lambda>_. Some (advertisement (new_resource_broadcaster ''s'' 80 ''h''))) 7 [] [])
       (rb_server_uuid (new_resource_broadcaster ''s'' 80 ''h'')) = unat (rb_available_jobs (new_resource_broadcaster ''s'' 80 ''h''))
    \<and> map_of (cleanup_nodes 6000000000 (receive_advertisement (\<lambda>_. Some (advertisement (new_resource_broadcaster ''s'' 80 ''h''))) 7 [] [])) ''s'' =
        (case map_of (receive_advertisement (\<lambda>_. Some (advertisement (new_resource_broadcaster ''s'' 80 ''h''))) 7 [] []) ''s'' of
           None \<Rightarrow> None
         | Some info \<Rightarrow> if 6000000000 - si_last_seen info < 5 * 1000000000 then Some info else None)"
  by (rule listener_tracks_recent_servers) (simp_all add: nodes_ok_Nil new_resource_broadcaster_def)

end
