(* ===== verification/Client.thy ===== *)
theory Client
  imports Client_Session Resource_Adv
begin

text \<open>
  \<open>Client\<close> (\<open>src/src/client.hpp\<close>, \<open>client.cpp\<close>): one request of the compiler wrapper from
  its arrival to its response.

  A \<open>ClientSession *\<close> is the key of the session in the client's map. A session refers to the
  compiler call that the client owns; both change together, so the session holds the call.
  \<open>net\<close> is the network with a server: whether the connection is accepted, the first message
  received (or the exception), and the messages after it. \<open>snapshots\<close> are the listener's tables
  each time the retry timer of the server search fires. \<open>None\<close> stands for waiting without end
  (no server, or a session that never responds), and for running out of fuel in the include scanner.
\<close>

section \<open>State\<close>

record client =
  cl_uuid :: string
  system_include_dirs :: cmd_line_include_dirs
  cl_includes_cache :: includes_cache
  cl_sessions :: "string \<rightharpoonup> client_session"
  cl_compiler_calls :: "string \<rightharpoonup> compiler_call"

type_synonym network = "server_info \<Rightarrow> session_start_request \<Rightarrow> bool \<times> server_message result \<times> server_message list"

definition new_client :: "string \<Rightarrow> cmd_line_include_dirs \<Rightarrow> client" where
  "new_client uuid sys =
     \<lparr>cl_uuid = uuid, system_include_dirs = sys, cl_includes_cache = empty_cache,
      cl_sessions = Map.empty, cl_compiler_calls = Map.empty\<rparr>"

definition nil_uuid :: string where
  "nil_uuid = ''00000000-0000-0000-0000-000000000000''"

text \<open>What a session sees of the client, and the client after a session changed that.\<close>

definition reg_of :: "client \<Rightarrow> client_reg" where
  "reg_of cl = \<lparr>reg_client_uuid = cl_uuid cl, client_sessions = dom (cl_sessions cl),
     client_compiler_calls = dom (cl_compiler_calls cl)\<rparr>"

definition with_reg :: "client_reg \<Rightarrow> client \<Rightarrow> client" where
  "with_reg reg cl =
     cl\<lparr>cl_sessions := cl_sessions cl |` client_sessions reg,
        cl_compiler_calls := cl_compiler_calls cl |` client_compiler_calls reg\<rparr>"

definition try_emplace_call :: "string \<Rightarrow> client_session \<Rightarrow> client \<Rightarrow> client" where
  "try_emplace_call key s cl =
     cl\<lparr>cl_sessions := (if cl_sessions cl key = None then (cl_sessions cl)(key \<mapsto> s) else cl_sessions cl),
        cl_compiler_calls := (if cl_compiler_calls cl key = None then (cl_compiler_calls cl)(key \<mapsto> cs_call s)
                              else cl_compiler_calls cl)\<rparr>"

section \<open>Connecting to a server\<close>

definition info_to_file_info :: "include_info \<Rightarrow> file_info" where
  "info_to_file_info i = \<lparr>fi_filename = file_path i, fi_filesize = include_sz_bytes i, fi_filehash = include_hash i\<rparr>"

text \<open>The start request. The size of a missing source file is an exception.\<close>

definition session_start_message ::
    "nat \<Rightarrow> source_env \<Rightarrow> compiler_call \<Rightarrow> client \<Rightarrow> (session_start_request \<times> compiler_call \<times> client) result option" where
  "session_start_message fuel env call cl =
     (case src_file env (input_src_file call) of
        None \<Rightarrow> Some (Inl (Throw Filesystem_Error))
      | Some content \<Rightarrow>
          (case collect_src_file_dependencies fuel env (system_include_dirs cl) call (cl_includes_cache cl) of
             None \<Rightarrow> None
           | Some (deps, call', cache) \<Rightarrow>
               Some (Inr (\<lparr>ss_client_id = cl_uuid cl, ss_client_working_dir = cc_working_dir call,
                           ss_client_source_file = input_src_file call, ss_client_compiler = compiler_type call,
                           ss_client_cmd_line_args = cc_cmd_line_args call,
                           ss_client_idirs = cnvt_to_cmd_line_args (cc_include_dirs call),
                           ss_required_files_info =
                             \<lparr>fi_filename = input_src_file call, fi_filesize = u64_size content,
                              fi_filehash = src_sha1 env content\<rparr> # map info_to_file_info deps\<rparr>,
                         call', cl\<lparr>cl_includes_cache := cache\<rparr>))))"

text \<open>The key of the session that the caller gets, whether the session's coroutine runs, the messages
  it will receive.\<close>

definition connect_to_server ::
    "nat \<Rightarrow> source_env \<Rightarrow> (string \<Rightarrow> bool) \<Rightarrow> (string \<Rightarrow> string) \<Rightarrow> process_runner \<Rightarrow> network
      \<Rightarrow> server_info \<Rightarrow> compiler_call \<Rightarrow> client \<Rightarrow> file_store
      \<Rightarrow> (string \<times> bool \<times> server_message list \<times> client \<times> file_store) result option" where
  "connect_to_server fuel env openable weakly_canonical run net node call cl fs =
     (case session_start_message fuel env call cl of
        None \<Rightarrow> None
      | Some (Inl e) \<Rightarrow> Some (Inl e)
      | Some (Inr (rqst, call', cl1)) \<Rightarrow>
          (let (connects, reply, msgs) = net node rqst;
               s = new_client_session nil_uuid call'
           in case start_client_session openable weakly_canonical connects reply (CSessionStart rqst) s fs of
                Inl e \<Rightarrow> Some (Inl e)
              | Inr (True, s1, fs1) \<Rightarrow>
                  Some (Inr (cs_session_uuid s1, True, msgs, try_emplace_call (cs_session_uuid s1) s1 cl1, fs1))
              | Inr (False, s1, fs1) \<Rightarrow>
                  let (s2, reg) = terminate_client_session (send_abort_to_server (reg_of cl1) s1) (reg_of cl1);
                      s3 = perform_local_compilation run s2
                  in Some (Inr (nil_uuid, False, msgs, try_emplace_call nil_uuid s3 (with_reg reg cl1), fs1))))"

section \<open>A request of the wrapper\<close>

text \<open>The search for a server, one listener table per turn.\<close>

fun find_server :: "(nat \<Rightarrow> nat) \<Rightarrow> server_nodes list \<Rightarrow> server_info option" where
  "find_server draw [] = None"
| "find_server draw (nodes # rest) =
     (case fst (pick_compilation_server draw nodes) of Some info \<Rightarrow> Some info | None \<Rightarrow> find_server draw rest)"

text \<open>The compiler on this machine, with the arguments as the wrapper sent them.\<close>

definition run_original :: "process_runner \<Rightarrow> unix_ipc_request \<Rightarrow> unix_ipc_response result" where
  "run_original run rq =
     (case cmd_line_args rq of
        [] \<Rightarrow> Inl Undefined
      | c # as \<Rightarrow> let (code, out, err) = run c as (current_working_dir rq) in Inr (mk_response code out err))"

text \<open>What happens once the session is there: its coroutine handles the server's messages when it
  was started and the stored session is the new one; the caller waits for the response.\<close>

definition await_session ::
    "process_runner \<Rightarrow> unix_ipc_request \<Rightarrow> bool \<Rightarrow> string \<Rightarrow> server_message list \<Rightarrow> client \<Rightarrow> file_store
      \<Rightarrow> (unix_ipc_response \<times> client \<times> file_store) result option" where
  "await_session run rq runs key msgs cl fs =
     (case cl_sessions cl key of
        None \<Rightarrow> Some (Inl Undefined)
      | Some s \<Rightarrow>
          (let (s1, reg1, fs1) = (if runs then handle_client_session run msgs s (reg_of cl) fs else (s, reg_of cl, fs))
           in case retrieve_unix_ipc_response s1 of
                None \<Rightarrow> None
              | Some (r, s2) \<Rightarrow>
                  let (s3, reg2) = terminate_client_session (send_abort_to_server reg1 s2) reg1;
                      cl' = with_reg reg2 cl
                  in if compiler_exit_code r \<noteq> 0
                     then Some (bind_r (run_original run rq) (\<lambda>r'. Inr (r', cl', fs1)))
                     else Some (Inr (r, cl', fs1))))"

definition handle_ipc_request ::
    "nat \<Rightarrow> source_env \<Rightarrow> (string \<Rightarrow> bool) \<Rightarrow> (string \<Rightarrow> string) \<Rightarrow> process_runner \<Rightarrow> network
      \<Rightarrow> (nat \<Rightarrow> nat) \<Rightarrow> server_nodes list \<Rightarrow> dep_files_state \<Rightarrow> unix_ipc_request \<Rightarrow> client \<Rightarrow> file_store
      \<Rightarrow> (unix_ipc_response \<times> client \<times> file_store) result option" where
  "handle_ipc_request fuel env openable weakly_canonical run net draw snapshots deps rq cl fs =
     (let call = snd (initialize_compiler_call (current_working_dir rq) (cmd_line_args rq) (new_compiler_call deps))
      in if compiler_call_type call = CALL_TYPE_COMPILE
         then case find_server draw snapshots of
             None \<Rightarrow> None
           | Some node \<Rightarrow>
               (case connect_to_server fuel env openable weakly_canonical run net node call cl fs of
                  None \<Rightarrow> None
                | Some (Inl e) \<Rightarrow> Some (Inl e)
                | Some (Inr (key, started, msgs, cl1, fs1)) \<Rightarrow>
                    await_session run rq (started \<and> cl_sessions cl key = None) key msgs cl1 fs1)
         else Some (bind_r (run_original run rq) (\<lambda>r. Inr (r, cl, fs))))"

text \<open>\<open>test_handle_compiler_call\<close>\<close>

definition test_handle_compiler_call ::
    "nat \<Rightarrow> source_env \<Rightarrow> (string \<Rightarrow> bool) \<Rightarrow> (string \<Rightarrow> bool) \<Rightarrow> cmd_line_include_dirs \<Rightarrow> compiler_call \<Rightarrow> client
      \<Rightarrow> file_store \<Rightarrow> (string \<times> compiler_call \<times> client \<times> file_store) result option" where
  "test_handle_compiler_call fuel env mkdirs openable sys call cl fs =
     (case collect_src_file_dependencies fuel env (system_include_dirs cl) call (cl_includes_cache cl) of
        None \<Rightarrow> None
      | Some (deps, call', cache) \<Rightarrow>
          let cl' = cl\<lparr>cl_includes_cache := cache\<rparr>
          in if is_depfile_needed (dep_cmd_state call')
             then Some (bind_r (generate_dep_file mkdirs openable sys call' deps fs) (\<lambda>(name, fs').
                    Inr (name, call', cl', fs')))
             else Some (Inr ([], call', cl', fs)))"

section \<open>Properties\<close>

lemma info_of_file_fields:
  "accurate env i \<Longrightarrow> \<exists>content. src_file env (file_path i) = Some content
     \<and> include_sz_bytes i = u64_size content \<and> include_hash i = src_sha1 env content"
  by (cases "src_file env (file_path i)") (auto simp: accurate_def)

text \<open>\<open>describes\<close>: the entry gives the size and the hash of a file that is there.\<close>

definition describes :: "source_env \<Rightarrow> file_info \<Rightarrow> bool" where
  "describes env fi \<longleftrightarrow>
     (case src_file env (fi_filename fi) of None \<Rightarrow> False
      | Some content \<Rightarrow> fi_filesize fi = u64_size content \<and> fi_filehash fi = src_sha1 env content)"

lemma describes_info: "accurate env i \<Longrightarrow> describes env (info_to_file_info i)"
  using info_of_file_fields [of env i] by (auto simp: describes_def info_to_file_info_def)

lemma collect_dependencies_accurate:
  assumes "finite (dom (src_file env))" "card (dom (src_file env)) < fuel" "sound_cache env cache"
    and "src_file env (input_src_file call) \<noteq> None"
  shows "\<exists>deps call' cache'. collect_src_file_dependencies fuel env sys call cache = Some (deps, call', cache')
    \<and> (\<forall>i \<in> set deps. accurate env i) \<and> sound_cache env cache'"
proof -
  let ?dirs = "append_include_dirs (cc_include_dirs call) sys"
  let ?st = "\<lparr>includes_cache_of = cache, inc_directives = []\<rparr>"
  have c: "sound_cache env (includes_cache_of ?st)" "inc_directives ?st = []" using assms(3) by simp_all
  obtain st' where p: "parse_source_file_includes fuel env ?dirs (input_src_file call) (dash_include ?dirs) ?st = Some (True, st')"
      "\<forall>info \<in> ran (map_of (inc_directives st')). accurate env info" "distinct (map fst (inc_directives st'))"
      "sound_cache env (includes_cache_of st')"
    using scan_sound [OF assms(1,2) c, of ?dirs "input_src_file call" "dash_include ?dirs"] assms(4) by auto
  have "accurate env i" if "i \<in> set (map snd (inc_directives st'))" for i
    using that p(2,3) by (auto simp: ran_distinct)
  then show ?thesis using p(1,4) by (simp add: collect_src_file_dependencies_def)
qed

text \<open>C28. The start request that a client sends is complete and accurate: when the source file can be
  read, the include scanner ends and the request names the client, the compiler, the working directory
  and the arguments of the call; the source file comes first; every file it lists is on the client and
  has the listed size and hash; the include options are those of the call; and the cache stays right.\<close>

theorem start_request_describes_files:
  assumes "finite (dom (src_file env))" "card (dom (src_file env)) < fuel" "sound_cache env (cl_includes_cache cl)"
    and "src_file env (input_src_file call) = Some content"
  shows "\<exists>rqst call' cl'. session_start_message fuel env call cl = Some (Inr (rqst, call', cl'))
    \<and> ss_client_id rqst = cl_uuid cl \<and> ss_client_working_dir rqst = cc_working_dir call
    \<and> ss_client_cmd_line_args rqst = cc_cmd_line_args call
    \<and> ss_client_idirs rqst = cnvt_to_cmd_line_args (cc_include_dirs call)
    \<and> fi_filename (hd (ss_required_files_info rqst)) = input_src_file call
    \<and> (\<forall>fi \<in> set (ss_required_files_info rqst). describes env fi)
    \<and> sound_cache env (cl_includes_cache cl') \<and> cl_sessions cl' = cl_sessions cl"
proof -
  obtain deps call' cache' where "collect_src_file_dependencies fuel env (system_include_dirs cl) call (cl_includes_cache cl)
      = Some (deps, call', cache')" "\<forall>i \<in> set deps. accurate env i" "sound_cache env cache'"
    using collect_dependencies_accurate [OF assms(1-3)] assms(4) by blast
  then show ?thesis
    using assms(4) describes_info by (simp add: session_start_message_def) (simp add: describes_def)
qed

text \<open>A call that is not a compilation into an object file (linking, unsupported compilers, calls
  the parser rejects) is run on this machine with the arguments exactly as the wrapper sent them; no
  server is involved, and the client and its files are as before.\<close>

theorem other_calls_run_locally:
  assumes "compiler_call_type (snd (initialize_compiler_call (current_working_dir rq) (cmd_line_args rq) (new_compiler_call deps)))
      \<noteq> CALL_TYPE_COMPILE" and "cmd_line_args rq = c # as"
  shows "handle_ipc_request fuel env openable wc run net draw snapshots deps rq cl fs =
    (case run c as (current_working_dir rq) of (code, out, err) \<Rightarrow> Some (Inr (mk_response code out err, cl, fs)))"
  using assms by (simp add: handle_ipc_request_def run_original_def split: prod.split)

lemma dom_with_reg [simp]:
  "dom (cl_sessions (with_reg reg cl)) = dom (cl_sessions cl) \<inter> client_sessions reg"
  by (simp add: with_reg_def Int_commute)

lemma await_session_failure:
  assumes "await_session run rq runs key msgs cl fs = Some (Inr (r, cl', fs'))" "compiler_exit_code r \<noteq> 0"
  shows "run_original run rq = Inr r"
  using assms
  by (cases "run_original run rq") (auto simp: await_session_def Let_def split: option.splits prod.splits if_splits)

text \<open>What a session's handlers do to the client's tables, and that they keep the session's uuid.\<close>

definition reg_shrinks :: "client_session \<Rightarrow> client_reg \<Rightarrow> client_session \<Rightarrow> client_reg \<Rightarrow> bool" where
  "reg_shrinks s reg s' reg' \<longleftrightarrow>
     client_sessions reg' \<subseteq> client_sessions reg \<and> cs_session_uuid s' = cs_session_uuid s"

lemma reg_shrinks_trans [trans]: "reg_shrinks s reg s1 reg1 \<Longrightarrow> reg_shrinks s1 reg1 s2 reg2 \<Longrightarrow> reg_shrinks s reg s2 reg2"
  by (auto simp: reg_shrinks_def)

lemma reg_shrinks_refl: "reg_shrinks s reg s reg"
  by (simp add: reg_shrinks_def)

lemma reg_shrinks_terminate: "terminate_client_session s reg = (s', reg') \<Longrightarrow> reg_shrinks s reg s' reg'"
  by (auto simp: terminate_client_session_def remove_client_session_def reg_shrinks_def)

lemma send_required_file_uuid [simp]: "cs_session_uuid (send_required_file fs s) = cs_session_uuid s"
  by (simp add: send_required_file_def fold_cli_send_msg Let_def split: option.split)

lemma send_abort_uuid [simp]: "cs_session_uuid (send_abort_to_server reg s) = cs_session_uuid s"
  by (simp add: send_abort_to_server_def cli_send_msg_def)

lemma reg_shrinks_fall_back: "fall_back run s reg = (s', reg') \<Longrightarrow> reg_shrinks s reg s' reg'"
  using reg_shrinks_terminate [of "send_abort_to_server reg (perform_local_compilation run s)" reg s' reg']
  by (simp add: fall_back_def reg_shrinks_def)

lemma reg_shrinks_message:
  assumes "handle_server_message run m s reg fs = (go_on, s1, reg1, fs1)"
  shows "reg_shrinks s reg s1 reg1"
proof (cases m)
  case (SSessionAbort a b)
  then show ?thesis
    using assms reg_shrinks_terminate [of "perform_local_compilation run s" reg s1 reg1]
    by (auto simp: handle_server_message_def reg_shrinks_def split: prod.splits)
next
  case (SFileUpComplete a b ok)
  obtain s2 reg2 where f: "fall_back run s reg = (s2, reg2)" by fastforce
  then show ?thesis
    using SFileUpComplete assms reg_shrinks_fall_back [OF f]
    by (cases "a = cs_session_uuid s \<and> ok") (auto simp: handle_server_message_def reg_shrinks_def)
next
  case (SObjFileChunk c)
  obtain ok s2 fs2 where p: "process_obj_file_chunk c s fs = (ok, s2, fs2)" by (metis prod_cases3)
  obtain s3 reg3 where f: "fall_back run s2 reg = (s3, reg3)" by fastforce
  show ?thesis
    using SObjFileChunk assms p f process_obj_file_chunk_frame(1) [OF p] reg_shrinks_fall_back [OF f]
    by (cases ok) (auto simp: handle_server_message_def reg_shrinks_def)
qed (use assms in \<open>simp_all add: handle_server_message_def reg_shrinks_refl\<close>)

lemma reg_shrinks_loop:
  assumes "client_session_loop run msgs s reg fs = (s', reg', fs')"
  shows "reg_shrinks s reg s' reg'"
  using assms
proof (induction msgs arbitrary: s reg fs)
  case (Cons m ms)
  obtain go_on s1 reg1 fs1 where h: "handle_server_message run m s reg fs = (go_on, s1, reg1, fs1)"
    by (metis prod_cases4)
  from reg_shrinks_message [OF this] show ?case
    using Cons.prems Cons.IH [of s1 reg1 fs1] h
    by (auto simp: reg_shrinks_refl split: if_splits intro: reg_shrinks_trans)
qed (simp add: reg_shrinks_refl)

lemma reg_shrinks_session:
  assumes "handle_client_session run msgs s reg fs = (s', reg', fs')"
  shows "reg_shrinks s reg s' reg'"
  using reg_shrinks_loop [OF assms [unfolded handle_client_session_def]] by (simp add: reg_shrinks_def)

lemma await_session_disposes:
  assumes "await_session run rq runs key msgs cl fs = Some (Inr (r, cl', fs'))"
    and "\<forall>s. cl_sessions cl key = Some s \<longrightarrow> cs_session_uuid s = key"
  shows "dom (cl_sessions cl') \<subseteq> dom (cl_sessions cl) - {key}"
proof -
  obtain s where s: "cl_sessions cl key = Some s" "cs_session_uuid s = key"
    using assms by (auto simp: await_session_def split: option.splits)
  obtain s1 reg1 fs1 where h: "(if runs then handle_client_session run msgs s (reg_of cl) fs else (s, reg_of cl, fs)) = (s1, reg1, fs1)"
    by (metis prod_cases3)
  have sh: "reg_shrinks s (reg_of cl) s1 reg1"
    using h reg_shrinks_session [of run msgs s "reg_of cl" fs s1 reg1 fs1] by (auto simp: reg_shrinks_refl split: if_splits)
  obtain r0 s2 where r: "retrieve_unix_ipc_response s1 = Some (r0, s2)"
    using assms(1) s h by (auto simp: await_session_def split: option.splits)
  then have u: "cs_session_uuid s2 = key"
    using sh s by (auto simp: retrieve_unix_ipc_response_def reg_shrinks_def split: list.splits)
  have "cl' = with_reg (remove_client_session key reg1) cl"
    using assms(1) s h r u
    by (cases "run_original run rq") (auto simp: await_session_def terminate_client_session_def Let_def split: if_splits)
  then show ?thesis
    using sh by (auto simp: remove_client_session_def reg_shrinks_def reg_of_def)
qed

text \<open>The client's invariant: a session is stored under its uuid.\<close>

definition client_ok :: "client \<Rightarrow> bool" where
  "client_ok cl \<longleftrightarrow> (\<forall>k s. cl_sessions cl k = Some s \<longrightarrow> cs_session_uuid s = k)"

lemma client_ok_with_reg: "client_ok cl \<Longrightarrow> client_ok (with_reg reg cl)"
  by (auto simp: client_ok_def with_reg_def restrict_map_def split: if_splits)

lemma client_ok_emplace: "client_ok cl \<Longrightarrow> client_ok (try_emplace_call (cs_session_uuid s) s cl)"
  by (auto simp: client_ok_def try_emplace_call_def split: if_splits)

lemma dom_emplace: "dom (cl_sessions (try_emplace_call k s cl)) = insert k (dom (cl_sessions cl))"
  by (auto simp: try_emplace_call_def)

lemma start_keeps_uuid:
  "start_client_session openable wc connects reply rqst s fs = Inr (False, s1, fs1) \<Longrightarrow> cs_session_uuid s1 = cs_session_uuid s"
  by (auto simp: start_client_session_def cli_send_msg_def bind_r_def Let_def split: if_splits sum.splits server_message.splits prod.splits)

lemma session_start_sessions:
  "session_start_message fuel env call cl = Some (Inr (rqst, call', cl1)) \<Longrightarrow> cl_sessions cl1 = cl_sessions cl"
  by (auto simp: session_start_message_def split: option.splits)

lemma connect_stores_session:
  assumes "connect_to_server fuel env openable wc run net node call cl fs = Some (Inr (key, started, msgs, cl1, fs1))"
    and "client_ok cl"
  shows "client_ok cl1 \<and> dom (cl_sessions cl1) \<subseteq> insert key (dom (cl_sessions cl))"
proof -
  obtain rqst call' cl0 where st: "session_start_message fuel env call cl = Some (Inr (rqst, call', cl0))"
    using assms(1) by (auto simp: connect_to_server_def split: option.splits sum.splits)
  note same = session_start_sessions [OF st]
  have ok0: "client_ok cl0" using assms(2) same by (simp add: client_ok_def)
  obtain connects reply ms where net: "net node rqst = (connects, reply, ms)" by (metis prod_cases3)
  obtain b s1 fs2 where s1: "start_client_session openable wc connects reply (CSessionStart rqst)
      (new_client_session nil_uuid call') fs = Inr (b, s1, fs2)"
    using assms(1) st net by (auto simp: connect_to_server_def split: sum.splits)
  show ?thesis
  proof (cases b)
    case True
    then have "cl1 = try_emplace_call key s1 cl0" "key = cs_session_uuid s1"
      using assms(1) st net s1 by (auto simp: connect_to_server_def)
    then show ?thesis using client_ok_emplace [OF ok0] same by (simp add: dom_emplace)
  next
    case False
    let ?s = "send_abort_to_server (reg_of cl0) s1"
    obtain s2 reg where t: "terminate_client_session ?s (reg_of cl0) = (s2, reg)" by fastforce
    have u: "cs_session_uuid (perform_local_compilation run s2) = nil_uuid"
      using False s1 t start_keeps_uuid [of openable wc connects reply _ _ fs s1 fs2]
      by (auto simp: terminate_client_session_def new_client_session_def)
    have "cl1 = try_emplace_call nil_uuid (perform_local_compilation run s2) (with_reg reg cl0)" "key = nil_uuid"
      using assms(1) st net s1 t False by (auto simp: connect_to_server_def)
    then show ?thesis
      using client_ok_emplace [OF client_ok_with_reg [OF ok0], of "perform_local_compilation run s2"] u same
      by (auto simp: dom_emplace)
  qed
qed

lemma await_session_ok:
  "await_session run rq runs key msgs cl fs = Some (Inr (r, cl', fs')) \<Longrightarrow> client_ok cl \<Longrightarrow> client_ok cl'"
  by (cases "run_original run rq")
    (auto simp: await_session_def client_ok_with_reg Let_def split: option.splits prod.splits if_splits)


text \<open>A call that produces an object file from something the parser does not take for a source file,
  such as an assembler file, is sent to a server although it was rejected: the client fails on the
  size of the file with the empty name, and the wrapper gets no response.\<close>

lemma assembler_call_fails:
  assumes "find_server draw snapshots = Some node" "src_file env [] = None"
  shows "handle_ipc_request fuel env openable wc run net draw snapshots deps
    \<lparr>current_working_dir = ''/p'', cmd_line_args = [''/usr/bin/gcc'', ''-c'', ''x.s'', ''-o'', ''x.o'']\<rparr> cl fs
    = Some (Inl (Throw Filesystem_Error))"
proof -
  let ?call = "initialize_compiler_call ''/p'' [''/usr/bin/gcc'', ''-c'', ''x.s'', ''-o'', ''x.o''] (new_compiler_call deps)"
  have "compiler_call_type (snd ?call) = CALL_TYPE_COMPILE \<and> input_src_file (snd ?call) = []"
    by (simp add: initialize_compiler_call_def SUPPORTED_COMPILERS_def,
        simp add: split_call_args.simps(2) operand_option_def is_src_file_arg_def is_header_file_def is_for_linking_def ends_with_starts,
        simp add: call_ops new_compiler_call_def Let_def ends_with_starts)
  then show ?thesis
    using assms by (simp add: handle_ipc_request_def connect_to_server_def session_start_message_def)
qed

section \<open>Examples\<close>

definition example_client :: client where
  "example_client = new_client ''c1'' no_include_dirs"

definition example_compile :: compiler_call where
  "example_compile = (new_compiler_call (new_dep_files_state False False False))\<lparr>input_src_file := ''/p/a.c''\<rparr>"

lemma example_client_ok: "client_ok example_client"
  by (simp add: client_ok_def example_client_def new_client_def)

theorem start_request_describes_files_witness:
  "\<exists>rqst call' cl'. session_start_message 3 cyclic_sources example_compile example_client = Some (Inr (rqst, call', cl'))
    \<and> ss_client_id rqst = cl_uuid example_client \<and> ss_client_working_dir rqst = cc_working_dir example_compile
    \<and> ss_client_cmd_line_args rqst = cc_cmd_line_args example_compile
    \<and> ss_client_idirs rqst = cnvt_to_cmd_line_args (cc_include_dirs example_compile)
    \<and> fi_filename (hd (ss_required_files_info rqst)) = input_src_file example_compile
    \<and> (\<forall>fi \<in> set (ss_required_files_info rqst). describes cyclic_sources fi)
    \<and> sound_cache cyclic_sources (cl_includes_cache cl') \<and> cl_sessions cl' = cl_sessions example_client"
  by (rule start_request_describes_files)
    (simp_all add: cyclic_sources_finite sound_cache_def empty_cache_def example_client_def new_client_def example_compile_def,
     simp add: cyclic_sources_def)

definition link_request :: unix_ipc_request where
  "link_request = \<lparr>current_working_dir = ''/p'', cmd_line_args = [''/usr/bin/ld'', ''a.o'']\<rparr>"

lemma link_request_type:
  "compiler_call_type (snd (initialize_compiler_call (current_working_dir link_request) (cmd_line_args link_request)
     (new_compiler_call deps))) \<noteq> CALL_TYPE_COMPILE"
  by (simp add: link_request_def initialize_compiler_call_def SUPPORTED_COMPILERS_def new_compiler_call_def)

theorem other_calls_run_locally_witness:
  "handle_ipc_request 0 cyclic_sources (\<lambda>_. True) id (\<lambda>c as d. (7, c, hd as)) (\<lambda>_ _. (False, Inl (Throw Eof), [])) id []
     (new_dep_files_state False False False) link_request example_client Map.empty =
   (case (7, ''/usr/bin/ld'', hd [''a.o'']) of (code, out, err) \<Rightarrow> Some (Inr (mk_response code out err, example_client, Map.empty)))"
  by (rule other_calls_run_locally [where run = "\<lambda>c as d. (7, c, hd as)", OF link_request_type]) (simp add: link_request_def)

text \<open>A request to compile whose session the server refuses.\<close>

definition compile_request :: unix_ipc_request where
  "compile_request = \<lparr>current_working_dir = ''/p'', cmd_line_args = example_args\<rparr>"

definition one_source :: source_env where
  "one_source = \<lparr>src_file = [''a.c'' \<mapsto> []], src_is_dir = (\<lambda>_. False), src_sha1 = id\<rparr>"

definition some_server :: server_info where
  "some_server = \<lparr>si_server_uuid = ''s'', si_server_ip = ''10.0.0.1'', si_server_port = 5001, si_available_jobs = 2, si_last_seen = 0\<rparr>"

lemma example_call_source: "input_src_file (snd example_call) = ''a.c''"
  by (simp add: example_call_def example_args_def initialize_compiler_call_def SUPPORTED_COMPILERS_def,
      simp add: split_call_args.simps(2) operand_option_def is_src_file_arg_def ends_with_starts,
      simp add: call_ops new_compiler_call_def Let_def ends_with_starts)

definition refusing :: network where
  "refusing node rqst = (True, Inr SNotSet, [])"

definition failing_compiler :: process_runner where
  "failing_compiler c as d = (1, [], ''error'')"

definition refused_outcome :: "(unix_ipc_response \<times> client \<times> file_store) result option" where
  "refused_outcome = handle_ipc_request 2 one_source (\<lambda>_. True) id failing_compiler refusing (\<lambda>_. 0)
     [[(''s'', some_server)]] (new_dep_files_state False False False) compile_request example_client Map.empty"

lemma refused_connect:
  "\<exists>s cl1. connect_to_server 2 one_source (\<lambda>_. True) id failing_compiler refusing node (snd example_call) example_client Map.empty
      = Some (Inr (nil_uuid, False, [], cl1, Map.empty))
    \<and> cl_sessions cl1 nil_uuid = Some s \<and> unix_ipc_channel s = [mk_response 1 [] ''error'']"
proof -
  have "\<exists>rqst call' cl'. session_start_message 2 one_source (snd example_call) example_client = Some (Inr (rqst, call', cl'))"
    using collect_dependencies_accurate [of one_source 2 "cl_includes_cache example_client" "snd example_call" "system_include_dirs example_client"]
    by (auto simp: session_start_message_def example_call_source one_source_def sound_cache_def example_client_def
        new_client_def empty_cache_def)
  then obtain rqst call' cl' where st: "session_start_message 2 one_source (snd example_call) example_client = Some (Inr (rqst, call', cl'))"
    by blast
  then have "cl_sessions cl' = Map.empty"
    using session_start_sessions [OF st] by (simp add: example_client_def new_client_def)
  then show ?thesis
    by (simp add: connect_to_server_def st refusing_def start_client_session_def terminate_client_session_def Let_def
        try_emplace_call_def with_reg_def send_abort_to_server_def cli_send_msg_def new_client_session_def local_response_def
        failing_compiler_def)
qed

lemma refused_outcome_returns:
  "\<exists>r cl' fs'. refused_outcome = Some (Inr (r, cl', fs')) \<and> compiler_exit_code r = 1"
proof -
  obtain s cl1 where c: "connect_to_server 2 one_source (\<lambda>_. True) id failing_compiler refusing
      (some_server\<lparr>si_available_jobs := 1\<rparr>) (snd example_call) example_client Map.empty = Some (Inr (nil_uuid, False, [], cl1, Map.empty))"
      "cl_sessions cl1 nil_uuid = Some s" "unix_ipc_channel s = [mk_response 1 [] ''error'']"
    using refused_connect by blast
  have call: "initialize_compiler_call (current_working_dir compile_request) (cmd_line_args compile_request)
      (new_compiler_call (new_dep_files_state False False False)) = example_call"
    by (simp add: compile_request_def example_call_def)
  have node: "find_server (\<lambda>_. 0) [[(''s'', some_server)]] = Some (some_server\<lparr>si_available_jobs := 1\<rparr>)"
    by (simp add: pick_compilation_server_def some_server_def Let_def)
  have "run_original failing_compiler compile_request = Inr (mk_response 1 [] ''error'')"
    by (simp add: run_original_def compile_request_def example_args_def failing_compiler_def)
  then show ?thesis
    using c example_call_accepted
    by (simp add: refused_outcome_def handle_ipc_request_def call node await_session_def retrieve_unix_ipc_response_def
        mk_response_def terminate_client_session_def del: find_server.simps)
qed


end
