(* ===== verification/File_State.thy ===== *)
theory File_State
  imports Std_Fs
begin

text \<open>
  \<open>src/src/file_state_view.hpp\<close>: what a server keeps about one file of a client
  (\<open>FileStateView\<close>) and about one upload in progress (\<open>FileTransferState\<close>), the
  translation between client paths and server paths, and the name of the object file.
\<close>

section \<open>File states\<close>

datatype file_status =
    FILE_STATUS_INITIAL
  | FILE_STATUS_UPLOADING
  | FILE_STATUS_AVAILABLE
  | FILE_STATUS_FAULT
  | FILE_STATUS_COUNT

record file_state_view =
  file_sz_bytes :: u64
  file_sha1 :: string
  file_status :: file_status
  up_start_time :: u64
  server_file_path :: string

definition new_file_state_view :: "u64 \<Rightarrow> string \<Rightarrow> string \<Rightarrow> file_state_view" where
  "new_file_state_view sz sha path =
     \<lparr>file_sz_bytes = sz, file_sha1 = sha, file_status = FILE_STATUS_INITIAL,
      up_start_time = 0, server_file_path = path\<rparr>"

record file_transfer_state =
  is_finished :: bool
  file_out_stream :: out_stream
  ft_session_id :: string
  ft_filename :: string
  last_seq_no :: u64
  last_offset :: u64

text \<open>The constructor opens (and so truncates) the output file.\<close>

definition new_file_transfer_state ::
    "(string \<Rightarrow> bool) \<Rightarrow> string \<Rightarrow> string \<Rightarrow> file_store \<Rightarrow> file_transfer_state \<times> file_store" where
  "new_file_transfer_state openable session_id filename fs =
     (let (st, fs') = open_out openable filename fs
      in (\<lparr>is_finished = False, file_out_stream = st, ft_session_id = session_id,
           ft_filename = filename, last_seq_no = 0, last_offset = 0\<rparr>, fs'))"

section \<open>Client paths and server paths\<close>

definition is_system_path :: "string \<Rightarrow> bool" where
  "is_system_path path \<longleftrightarrow>
     starts_with path ''/usr/src'' \<or> starts_with path ''/usr/local'' \<or> starts_with path ''/Library''"

definition cnvt_client_to_server_path :: "string \<Rightarrow> string \<Rightarrow> string" where
  "cnvt_client_to_server_path cwd client_path =
     (if is_system_path client_path then client_path
      else path_append cwd (relative_path client_path))"

definition cnvt_server_to_client_path :: "string \<Rightarrow> string \<Rightarrow> string" where
  "cnvt_server_to_client_path cwd server_path =
     (if starts_with server_path cwd then drop (length cwd) server_path else server_path)"

definition generate_obj_file_path :: "string \<Rightarrow> string \<Rightarrow> string \<Rightarrow> string" where
  "generate_obj_file_path out_obj_dir client_id session_id =
     out_obj_dir @ ''/'' @ client_id @ ''_'' @ session_id @ ''.o''"

section \<open>Lemmas\<close>

text \<open>A path as the protocol needs it: absolute, with a single leading separator.\<close>

definition plain_absolute :: "string \<Rightarrow> bool" where
  "plain_absolute p \<longleftrightarrow> is_absolute p \<and> \<not> is_absolute (tl p)"

text \<open>A workspace directory as \<open>ClientViewsStorage\<close> makes it: no trailing separator, and no
  system path lies in it.\<close>

definition workspace :: "string \<Rightarrow> bool" where
  "workspace cwd \<longleftrightarrow> cwd \<noteq> [] \<and> last cwd \<noteq> sep \<and> (\<forall>p. is_system_path p \<longrightarrow> \<not> starts_with p cwd)"

lemma plain_absoluteE:
  assumes "plain_absolute p"
  obtains r where "p = sep # r" and "\<not> is_absolute r"
  using assms by (cases p) (auto simp: plain_absolute_def)

lemma server_path_of_plain:
  assumes "plain_absolute p" and "workspace cwd" and "\<not> is_system_path p"
  shows "cnvt_client_to_server_path cwd p = cwd @ p"
proof -
  from assms(1) obtain r where "p = sep # r" and "\<not> is_absolute r" by (rule plain_absoluteE)
  with assms(2,3) show ?thesis
    by (simp add: cnvt_client_to_server_path_def relative_path_absolute path_append_relative workspace_def)
qed

lemma client_path_roundtrip:
  assumes "plain_absolute p" and "workspace cwd"
  shows "cnvt_server_to_client_path cwd (cnvt_client_to_server_path cwd p) = p"
proof (cases "is_system_path p")
  case True
  with assms(2) show ?thesis
    by (auto simp: cnvt_client_to_server_path_def cnvt_server_to_client_path_def workspace_def)
next
  case False
  with assms show ?thesis
    by (simp add: server_path_of_plain cnvt_server_to_client_path_def)
qed

lemma server_path_inj:
  assumes "plain_absolute p" and "plain_absolute q" and "workspace cwd"
    and "cnvt_client_to_server_path cwd p = cnvt_client_to_server_path cwd q"
  shows "p = q"
  by (metis assms client_path_roundtrip)

text \<open>A client path that is not absolute does not come back: the translation to the server loses
  the difference between \<open>a.c\<close> and \<open>/a.c\<close>.\<close>

lemma relative_client_path_lost:
  assumes "\<not> is_absolute p" and "workspace cwd" and "\<not> is_system_path p" and "relative_path p = p"
  shows "cnvt_server_to_client_path cwd (cnvt_client_to_server_path cwd p) = sep # p"
  using assms
  by (simp add: cnvt_client_to_server_path_def cnvt_server_to_client_path_def path_append_relative
      workspace_def starts_with_def)

end
