(* ===== verification/Compiler_Manager.thy ===== *)
theory Compiler_Manager
  imports DB_Prelude
begin

text \<open>
  \<open>src/src/compiler_manager.hpp\<close> and \<open>compiler_manager.cpp\<close>: the server's queue of
  compilation requests and its pool of worker threads, and the counter of available jobs that the
  workers hand to \<open>ResourceBroadcaster\<close> (\<open>src/src/resource_broadcaster.hpp\<close>).

  A worker thread is its place in \<open>_worker_loop\<close>; a step is one critical section or one call
  between two of them. A \<open>ServerSession *\<close> is the session's identifier. The compiler that
  \<open>_compile_src\<close> starts is not part of the program: in the step relation its output is chosen by
  the environment, and \<open>compile_src\<close> takes the process as an argument.
\<close>

section \<open>Requests and the manager\<close>

record compilation_request =
  invalidated :: bool
  requester_session :: string
  cr_compiler_name :: string
  cr_cmd_line_args :: "string list"
  cr_current_working_dir :: string

record compilation_output =
  stdout_data :: string
  stderr_data :: string
  compiling_duration :: i32
  exit_code :: i32

datatype worker =
    WWaiting
  | WTaken compilation_request
  | WCompiling compilation_request
  | WCompiled compilation_request compilation_output
  | WExited

record compiler_manager =
  thread_pool_sz :: u64
  active_compile_jobs :: u64
  compile_task_queue :: "compilation_request list"
  worker_threads :: "worker list"
  stop_threads :: bool
  advertised_jobs :: u64

text \<open>The constructors of \<open>CompilerManager\<close> and of \<open>ResourceBroadcaster\<close>, which starts
  with eight available jobs.\<close>

definition new_compiler_manager :: "u64 \<Rightarrow> compiler_manager" where
  "new_compiler_manager sz =
     \<lparr>thread_pool_sz = sz, active_compile_jobs = 0, compile_task_queue = [],
      worker_threads = replicate (unat sz) WWaiting, stop_threads = False, advertised_jobs = 8\<rparr>"

definition add_compilation_request :: "compilation_request \<Rightarrow> compiler_manager \<Rightarrow> compiler_manager" where
  "add_compilation_request rqst m = m\<lparr>compile_task_queue := compile_task_queue m @ [rqst]\<rparr>"

definition invalidate_requests_for_session :: "string \<Rightarrow> compiler_manager \<Rightarrow> compiler_manager" where
  "invalidate_requests_for_session sess m =
     m\<lparr>compile_task_queue :=
        map (\<lambda>r. if requester_session r = sess then r\<lparr>invalidated := True\<rparr> else r) (compile_task_queue m)\<rparr>"

definition get_available_jobs :: "compiler_manager \<Rightarrow> u64" where
  "get_available_jobs m = thread_pool_sz m - active_compile_jobs m"

text \<open>\<open>ServerSession::set_available_compiler_jobs\<close>, through
  \<open>Server::set_advertiser_available_jobs\<close>, down to \<open>ResourceBroadcaster::set_available_jobs\<close>.\<close>

definition set_available_jobs :: "u64 \<Rightarrow> compiler_manager \<Rightarrow> compiler_manager" where
  "set_available_jobs n m = m\<lparr>advertised_jobs := n\<rparr>"

definition set_worker :: "nat \<Rightarrow> worker \<Rightarrow> compiler_manager \<Rightarrow> compiler_manager" where
  "set_worker i wk m = m\<lparr>worker_threads := (worker_threads m)[i := wk]\<rparr>"

text \<open>\<open>_compile_src\<close>: the compiler process is the argument \<open>run\<close> (exit code and output of a
  command in a directory), the elapsed whole seconds are the argument \<open>secs\<close>.\<close>

definition compile_src ::
    "(string \<Rightarrow> string list \<Rightarrow> string \<Rightarrow> i32 \<times> string \<times> string) \<Rightarrow> i32 \<Rightarrow> compilation_request \<Rightarrow> compilation_output" where
  "compile_src run secs rqst =
     (let (code, out, err) = run (cr_compiler_name rqst) (cr_cmd_line_args rqst) (cr_current_working_dir rqst)
      in \<lparr>stdout_data = out, stderr_data = err, compiling_duration = secs, exit_code = code\<rparr>)"

section \<open>The worker loop\<close>

text \<open>The predicate a worker waits for.\<close>

definition wait_condition :: "compiler_manager \<Rightarrow> bool" where
  "wait_condition m \<longleftrightarrow> stop_threads m \<or>
     (compile_task_queue m \<noteq> [] \<and> active_compile_jobs m < thread_pool_sz m)"

text \<open>The first critical section of \<open>_worker_loop\<close>, once the wait is over.\<close>

definition worker_take :: "nat \<Rightarrow> compiler_manager \<Rightarrow> compiler_manager" where
  "worker_take i m =
     (if stop_threads m \<and> compile_task_queue m = [] then set_worker i WExited m
      else if active_compile_jobs m \<ge> thread_pool_sz m then m
      else case compile_task_queue m of
          [] \<Rightarrow> m
        | task # queue \<Rightarrow>
            let m1 = m\<lparr>compile_task_queue := queue\<rparr>
            in if invalidated task then m1
               else set_worker i (WTaken task) (m1\<lparr>active_compile_jobs := active_compile_jobs m1 + 1\<rparr>))"

definition worker_announce :: "nat \<Rightarrow> compilation_request \<Rightarrow> compiler_manager \<Rightarrow> compiler_manager" where
  "worker_announce i task m =
     set_worker i (WCompiling task) (set_available_jobs (thread_pool_sz m - active_compile_jobs m) m)"

definition worker_compiled ::
    "nat \<Rightarrow> compilation_request \<Rightarrow> compilation_output \<Rightarrow> compiler_manager \<Rightarrow> compiler_manager" where
  "worker_compiled i task out m =
     set_worker i (WCompiled task out) (m\<lparr>active_compile_jobs := active_compile_jobs m - 1\<rparr>)"

text \<open>After the second critical section: announce again and publish the output to the session
  (\<open>publish_compilation_results\<close>, in the theory of the sessions), then loop.\<close>

definition worker_publish :: "nat \<Rightarrow> compiler_manager \<Rightarrow> compiler_manager" where
  "worker_publish i m =
     set_worker i WWaiting (set_available_jobs (thread_pool_sz m - active_compile_jobs m) m)"

text \<open>The destructor: the waits of all workers end; a worker leaves the loop once the queue is empty.\<close>

definition stop_compiler_manager :: "compiler_manager \<Rightarrow> compiler_manager" where
  "stop_compiler_manager m = m\<lparr>stop_threads := True\<rparr>"

inductive cm_step :: "compiler_manager \<Rightarrow> compiler_manager \<Rightarrow> bool" where
  cm_add: "cm_step m (add_compilation_request rqst m)"
| cm_invalidate: "cm_step m (invalidate_requests_for_session sess m)"
| cm_stop: "cm_step m (stop_compiler_manager m)"
| cm_take: "i < length (worker_threads m) \<Longrightarrow> worker_threads m ! i = WWaiting \<Longrightarrow> wait_condition m \<Longrightarrow>
     cm_step m (worker_take i m)"
| cm_announce: "i < length (worker_threads m) \<Longrightarrow> worker_threads m ! i = WTaken task \<Longrightarrow>
     cm_step m (worker_announce i task m)"
| cm_compiled: "i < length (worker_threads m) \<Longrightarrow> worker_threads m ! i = WCompiling task \<Longrightarrow>
     cm_step m (worker_compiled i task out m)"
| cm_publish: "i < length (worker_threads m) \<Longrightarrow> worker_threads m ! i = WCompiled task out \<Longrightarrow>
     cm_step m (worker_publish i m)"

inductive cm_reachable :: "u64 \<Rightarrow> compiler_manager \<Rightarrow> bool" for sz where
  cm_start: "cm_reachable sz (new_compiler_manager sz)"
| cm_next: "cm_reachable sz m \<Longrightarrow> cm_step m m' \<Longrightarrow> cm_reachable sz m'"

inductive_cases cm_stepE: "cm_step m m'"

section \<open>Invariant\<close>

definition busy :: "worker \<Rightarrow> bool" where
  "busy wk \<longleftrightarrow> (case wk of WTaken _ \<Rightarrow> True | WCompiling _ \<Rightarrow> True | _ \<Rightarrow> False)"

definition busy_count :: "worker list \<Rightarrow> nat" where
  "busy_count wks = length (filter busy wks)"

lemma busy_simps [simp]:
  "busy WWaiting = False" "busy WExited = False" "busy (WTaken r) = True"
  "busy (WCompiling r) = True" "busy (WCompiled r out) = False"
  by (simp_all add: busy_def)

lemma busy_count_update:
  assumes "i < length wks"
  shows "busy_count (wks[i := wk]) + (if busy (wks ! i) then 1 else 0)
    = busy_count wks + (if busy wk then 1 else 0)"
  using assms
proof (induction wks arbitrary: i)
  case (Cons x xs)
  then show ?case by (cases i) (auto simp: busy_count_def)
qed simp

lemma busy_count_le: "busy_count wks \<le> length wks"
  by (simp add: busy_count_def)

lemma busy_count_less: "i < length wks \<Longrightarrow> \<not> busy (wks ! i) \<Longrightarrow> busy_count wks < length wks"
  using busy_count_update [of i wks "WTaken undefined"] busy_count_le [of "wks[i := WTaken undefined]"]
  by simp

definition cm_inv :: "u64 \<Rightarrow> compiler_manager \<Rightarrow> bool" where
  "cm_inv sz m \<longleftrightarrow> thread_pool_sz m = sz \<and> length (worker_threads m) = unat sz \<and>
     unat (active_compile_jobs m) = busy_count (worker_threads m) \<and>
     (advertised_jobs m \<le> sz \<or> advertised_jobs m = 8)"

lemmas cm_defs = set_worker_def add_compilation_request_def invalidate_requests_for_session_def
  worker_take_def worker_announce_def worker_compiled_def worker_publish_def set_available_jobs_def
  stop_compiler_manager_def Let_def

lemma cm_inv_new: "cm_inv sz (new_compiler_manager sz)"
  by (simp add: cm_inv_def new_compiler_manager_def busy_count_def)

lemma unat_plus_one: "unat (x :: u64) < unat (y :: u64) \<Longrightarrow> unat (x + 1) = unat x + 1"
  by unat_arith

lemma unat_minus_one: "0 < unat (x :: u64) \<Longrightarrow> unat (x - 1) = unat x - 1"
  by unat_arith

lemma unat_minus: "unat (a :: u64) \<le> unat p \<Longrightarrow> unat (p - a) = unat p - unat a"
  by unat_arith

lemma minus_le: "unat (a :: u64) \<le> unat p \<Longrightarrow> p - a \<le> p"
  by unat_arith

lemma cm_inv_active: "cm_inv sz m \<Longrightarrow> unat (active_compile_jobs m) \<le> unat sz"
  using busy_count_le [of "worker_threads m"] by (simp add: cm_inv_def)

text \<open>A worker that is not compiling leaves room: the capacity checks of the loop cannot fail for
  it.\<close>

lemma cm_inv_room:
  assumes "cm_inv sz m" and "i < length (worker_threads m)" and "\<not> busy (worker_threads m ! i)"
  shows "unat (active_compile_jobs m) < unat (thread_pool_sz m)"
  using assms(1) busy_count_less [OF assms(2,3)] by (simp add: cm_inv_def)

lemma cm_inv_worker:
  assumes "cm_inv sz m" and "i < length (worker_threads m)"
    and "unat a + (if busy (worker_threads m ! i) then 1 else 0)
      = unat (active_compile_jobs m) + (if busy wk then 1 else 0)"
    and "adv \<le> sz \<or> adv = 8"
  shows "cm_inv sz (set_worker i wk (m\<lparr>active_compile_jobs := a, compile_task_queue := q, advertised_jobs := adv\<rparr>))"
  using assms busy_count_update [OF assms(2), of wk]
  by (simp add: cm_inv_def set_worker_def split: if_splits)

lemma cm_inv_take:
  assumes "cm_inv sz m" and "i < length (worker_threads m)" and "worker_threads m ! i = WWaiting"
  shows "cm_inv sz (worker_take i m)"
proof -
  have room: "unat (active_compile_jobs m) < unat (thread_pool_sz m)"
    using assms by (intro cm_inv_room) auto
  have exited: "cm_inv sz (set_worker i WExited m)"
    using cm_inv_worker [OF assms(1,2), of "active_compile_jobs m" WExited "advertised_jobs m" "compile_task_queue m"] assms
    by (simp add: cm_inv_def)
  have taken: "cm_inv sz (set_worker i (WTaken task) (m\<lparr>compile_task_queue := q, active_compile_jobs := active_compile_jobs m + 1\<rparr>))" for task q
    using cm_inv_worker [OF assms(1,2), of "active_compile_jobs m + 1" "WTaken task" "advertised_jobs m" q] assms
      unat_plus_one [OF room]
    by (simp add: cm_inv_def set_worker_def)
  show ?thesis
    using exited taken assms(1)
    by (auto simp: worker_take_def Let_def cm_inv_def split: list.splits)
qed

lemma cm_step_inv: "cm_step m m' \<Longrightarrow> cm_inv sz m \<Longrightarrow> cm_inv sz m'"
proof (induction rule: cm_step.induct)
  case (cm_take i m)
  then show ?case by (intro cm_inv_take)
next
  case (cm_announce i m task)
  have "thread_pool_sz m - active_compile_jobs m \<le> sz"
    using cm_inv_active [OF cm_announce(3)] cm_announce(3) by (auto simp: cm_inv_def intro: minus_le)
  with cm_inv_worker [OF cm_announce(3,1), of "active_compile_jobs m" "WCompiling task" _ "compile_task_queue m"]
  show ?case using cm_announce by (simp add: worker_announce_def set_available_jobs_def)
next
  case (cm_compiled i m task out)
  have "0 < unat (active_compile_jobs m)"
    using cm_compiled busy_count_update [of i "worker_threads m" WWaiting] by (simp add: cm_inv_def)
  with cm_inv_worker [OF cm_compiled(3,1), of "active_compile_jobs m - 1" "WCompiled task out" "advertised_jobs m" "compile_task_queue m"]
  show ?case using cm_compiled by (simp add: worker_compiled_def unat_minus_one cm_inv_def)
next
  case (cm_publish i m task out)
  have "thread_pool_sz m - active_compile_jobs m \<le> sz"
    using cm_inv_active [OF cm_publish(3)] cm_publish(3) by (auto simp: cm_inv_def intro: minus_le)
  with cm_inv_worker [OF cm_publish(3,1), of "active_compile_jobs m" WWaiting _ "compile_task_queue m"]
  show ?case using cm_publish by (simp add: worker_publish_def set_available_jobs_def)
qed (simp_all add: cm_inv_def cm_defs)

lemma cm_reachable_inv: "cm_reachable sz m \<Longrightarrow> cm_inv sz m"
  by (induction rule: cm_reachable.induct) (auto intro: cm_inv_new cm_step_inv)

section \<open>Invalidated requests\<close>

definition holds_session :: "string \<Rightarrow> worker \<Rightarrow> bool" where
  "holds_session sess wk \<longleftrightarrow> (case wk of
      WTaken r \<Rightarrow> requester_session r = sess
    | WCompiling r \<Rightarrow> requester_session r = sess
    | WCompiled r _ \<Rightarrow> requester_session r = sess
    | _ \<Rightarrow> False)"

definition no_live_request :: "string \<Rightarrow> compiler_manager \<Rightarrow> bool" where
  "no_live_request sess m \<longleftrightarrow> (\<forall>r \<in> set (compile_task_queue m). requester_session r = sess \<longrightarrow> invalidated r)"

text \<open>Runs in which the session asks for nothing more.\<close>

inductive cm_quiet :: "string \<Rightarrow> compiler_manager \<Rightarrow> compiler_manager \<Rightarrow> bool" for sess where
  quiet_refl: "cm_quiet sess m m"
| quiet_step: "cm_quiet sess m m' \<Longrightarrow> cm_step m' m'' \<Longrightarrow>
    (\<And>r. m'' = add_compilation_request r m' \<Longrightarrow> requester_session r \<noteq> sess) \<Longrightarrow> cm_quiet sess m m''"

lemma cm_step_quiet:
  assumes "cm_step m m'" and "\<And>r. m' = add_compilation_request r m \<Longrightarrow> requester_session r \<noteq> sess"
    and "no_live_request sess m"
  shows "no_live_request sess m' \<and> length (worker_threads m') = length (worker_threads m) \<and>
    (\<forall>i < length (worker_threads m). holds_session sess (worker_threads m' ! i) \<longrightarrow>
       holds_session sess (worker_threads m ! i))"
  using assms(1)
proof (cases rule: cm_step.cases)
  case (cm_add rqst)
  with assms show ?thesis by (auto simp: no_live_request_def add_compilation_request_def)
next
  case (cm_take i)
  with assms(3) show ?thesis
    by (auto simp: no_live_request_def worker_take_def set_worker_def holds_session_def Let_def nth_list_update
        split: list.splits if_splits)
qed (use assms(3) in \<open>auto simp: no_live_request_def cm_defs holds_session_def nth_list_update split: if_splits\<close>)

lemma cm_quiet_holds:
  assumes "cm_quiet sess m m'" and "no_live_request sess m"
  shows "no_live_request sess m' \<and> length (worker_threads m') = length (worker_threads m) \<and>
    (\<forall>i < length (worker_threads m). holds_session sess (worker_threads m' ! i) \<longrightarrow>
       holds_session sess (worker_threads m ! i))"
  using assms
proof (induction rule: cm_quiet.induct)
  case (quiet_step m m' m'')
  then show ?case using cm_step_quiet [of m' m'' sess] by auto
qed simp

section \<open>Properties\<close>

text \<open>C14. The worker pool: in every reachable state the number of running compilations is the
  number of workers between taking a request and decrementing the counter and never exceeds the
  pool, so \<open>get_available_jobs\<close> does not wrap around; and a worker that is not compiling always
  finds a free slot, so the second capacity check of the loop never makes it spin.\<close>

theorem worker_pool_capacity:
  assumes "cm_reachable sz m"
  shows "unat (active_compile_jobs m) = busy_count (worker_threads m) \<and>
    unat (active_compile_jobs m) \<le> unat sz \<and>
    unat (get_available_jobs m) = unat sz - busy_count (worker_threads m) \<and>
    (\<forall>i < length (worker_threads m). \<not> busy (worker_threads m ! i) \<longrightarrow>
       active_compile_jobs m < thread_pool_sz m)"
proof -
  have inv: "cm_inv sz m" by (rule cm_reachable_inv [OF assms])
  note le = cm_inv_active [OF inv]
  show ?thesis
    using inv le cm_inv_room [OF inv]
    by (auto simp: cm_inv_def get_available_jobs_def unat_minus word_less_nat_alt)
qed

theorem worker_pool_capacity_witness:
  "unat (get_available_jobs (new_compiler_manager 4)) = 4"
  using worker_pool_capacity [OF cm_start [of 4]] by (simp add: new_compiler_manager_def busy_count_def)



end
