(* ===== verification/Server_Session.thy ===== *)
theory Server_Session
  imports File_State Messages Compiler_Manager
begin

text \<open>
  The server's side of a compilation session: \<open>ClientView\<close> (\<open>src/src/client_view.hpp\<close>,
  \<open>client_view.cpp\<close>) and \<open>ServerSession\<close> (\<open>src/src/server_session.hpp\<close>,
  \<open>server_session.cpp\<close>).

  A \<open>FileStateView *\<close> points into the map of the client view, whose entries are never erased:
  it is the entry's key, the client path. The map of sessions is an association list, because
  \<open>try_compile_for_active_sessions\<close> iterates over it; the list's order stands for the
  unspecified iteration order of the hash map. What the sessions share (the request queue of the
  compiler manager, the server's files, the directories created) is the record \<open>backend\<close>.
  Messages handed to \<open>send_msg\<close> are appended to \<open>out_msgs\<close>; their ordered delivery is the
  subject of the theory of the write queues. Handlers are atomic: they run under the mutexes of
  the session and of the view.

  Arguments for what is outside the program: \<open>openable\<close> (the operating system lets the server
  create this file), \<open>sha1\<close> (boost's digest, as bytes), \<open>now\<close> (the clock), \<open>compiler_bin\<close>
  (the configured compiler).
\<close>

section \<open>State\<close>

record server_session =
  session_uuid :: string
  terminated :: bool
  are_args_ready :: bool
  is_compiler_running :: bool
  required_files_state :: "string list"
  file_transfer_states :: "string \<rightharpoonup> file_transfer_state"
  in_src_file :: string
  ses_compiler_name :: string
  ses_working_dir :: string
  ses_cmd_line_args :: "string list"
  out_obj_file :: string
  ses_exit_code :: i32
  ses_stdout :: string
  ses_stderr :: string
  compile_duration :: i32
  out_msgs :: "server_message list"

record client_view =
  client_uuid :: string
  cv_working_dir :: string
  last_active_ts :: nat
  client_file_states :: "string \<rightharpoonup> file_state_view"
  associated_sessions :: "(string \<times> server_session) list"
  client_created_dirs :: "string set"

record backend =
  manager :: compiler_manager
  files :: file_store
  made_dirs :: "string list"

definition new_server_session :: "string \<Rightarrow> client_view \<Rightarrow> string \<Rightarrow> session_start_request \<Rightarrow> server_session" where
  "new_server_session compiler_bin view uuid rqst =
     \<lparr>session_uuid = uuid, terminated = False, are_args_ready = False, is_compiler_running = False,
      required_files_state = [], file_transfer_states = Map.empty,
      in_src_file = ss_client_source_file rqst, ses_compiler_name = compiler_bin,
      ses_working_dir = cv_working_dir view, ses_cmd_line_args = [],
      out_obj_file = [], ses_exit_code = 0, ses_stdout = [], ses_stderr = [],
      compile_duration = 0, out_msgs = []\<rparr>"

definition new_client_view :: "string \<Rightarrow> string \<Rightarrow> nat \<Rightarrow> client_view" where
  "new_client_view uuid cwd now =
     \<lparr>client_uuid = uuid, cv_working_dir = cwd, last_active_ts = now,
      client_file_states = Map.empty, associated_sessions = [], client_created_dirs = {}\<rparr>"

section \<open>Sessions of a view\<close>

definition get_session :: "client_view \<Rightarrow> string \<Rightarrow> server_session option" where
  "get_session view uuid = map_of (associated_sessions view) uuid"

text \<open>Mutation of a session object through its pointer.\<close>

definition upd_session :: "string \<Rightarrow> (server_session \<Rightarrow> server_session) \<Rightarrow> client_view \<Rightarrow> client_view" where
  "upd_session uuid f view =
     view\<lparr>associated_sessions :=
       map (\<lambda>(k, s). if k = uuid then (k, f s) else (k, s)) (associated_sessions view)\<rparr>"

definition try_emplace_session :: "string \<Rightarrow> server_session \<Rightarrow> client_view \<Rightarrow> client_view" where
  "try_emplace_session uuid s view =
     (if get_session view uuid = None
      then view\<lparr>associated_sessions := associated_sessions view @ [(uuid, s)]\<rparr> else view)"

definition send_msg :: "server_message \<Rightarrow> server_session \<Rightarrow> server_session" where
  "send_msg msg s = s\<lparr>out_msgs := out_msgs s @ [msg]\<rparr>"

definition add_required_file_state :: "string \<Rightarrow> server_session \<Rightarrow> server_session" where
  "add_required_file_state path s = s\<lparr>required_files_state := required_files_state s @ [path]\<rparr>"

section \<open>File states of a view\<close>

definition get_file_state :: "client_view \<Rightarrow> string \<Rightarrow> file_state_view option" where
  "get_file_state view client_path = client_file_states view client_path"

definition update_file_state :: "string \<Rightarrow> file_state_view \<Rightarrow> client_view \<Rightarrow> bool \<times> client_view" where
  "update_file_state client_path st view =
     (if client_file_states view client_path = None then (False, view)
      else (True, view\<lparr>client_file_states := (client_file_states view)(client_path \<mapsto> st)\<rparr>))"

text \<open>The entry is returned by reference; the reference is \<open>client_path\<close>. A \<open>try_emplace\<close>
  on a key that is present changes nothing.\<close>

definition add_file_state :: "string \<Rightarrow> u64 \<Rightarrow> string \<Rightarrow> client_view \<Rightarrow> client_view" where
  "add_file_state client_path sz sha view =
     (case client_file_states view client_path of
        Some st \<Rightarrow>
          if file_sha1 st = sha \<and> file_sz_bytes st = sz then view
          else view
      | None \<Rightarrow>
          view\<lparr>client_file_states := (client_file_states view)(client_path \<mapsto>
             new_file_state_view sz sha (cnvt_client_to_server_path (cv_working_dir view) client_path))\<rparr>)"

definition update_last_active_ts :: "nat \<Rightarrow> client_view \<Rightarrow> client_view" where
  "update_last_active_ts now view = view\<lparr>last_active_ts := now\<rparr>"

section \<open>The compiler call on the server\<close>

definition is_src_file :: "string \<Rightarrow> bool" where
  "is_src_file f \<longleftrightarrow> ends_with f ''.c'' \<or> ends_with f ''.cc'' \<or> ends_with f ''.cpp'' \<or> ends_with f ''.cxx''"

text \<open>The loop over the include directories: \<open>-I<dir>\<close> is one element, every other flag is
  followed by its directory. The flag of the last element is read together with the element after
  it, which need not exist.\<close>

fun convert_idirs :: "string \<Rightarrow> string list \<Rightarrow> string list result" where
  "convert_idirs idirs_dir [] = Inr []"
| "convert_idirs idirs_dir (d # ds) =
     (if starts_with d ''-I''
      then bind_r (convert_idirs idirs_dir ds) (\<lambda>r.
             Inr ((''-I'' @ cnvt_client_to_server_path idirs_dir (drop 2 d)) # r))
      else case ds of
          [] \<Rightarrow> Inl Undefined
        | p # ds' \<Rightarrow> bind_r (convert_idirs idirs_dir ds') (\<lambda>r.
             Inr (d # cnvt_client_to_server_path idirs_dir p # r)))"

text \<open>The loop over the arguments: source files and \<open>-o\<close> with its operand are dropped, absolute
  paths are moved into the workspace. The second component lists the directories it creates.\<close>

fun convert_args :: "string \<Rightarrow> string list \<Rightarrow> string list \<times> string list" where
  "convert_args idirs_dir [] = ([], [])"
| "convert_args idirs_dir (a # as) =
     (if is_src_file a then convert_args idirs_dir as
      else if ends_with a ''-o'' then convert_args idirs_dir (drop 1 as)
      else if starts_with a ''/'' then
        let server_path = cnvt_client_to_server_path idirs_dir a;
            (args, dirs) = convert_args idirs_dir as
        in (server_path # args, parent_path server_path # dirs)
      else let (args, dirs) = convert_args idirs_dir as in (a # args, dirs))"

definition OBJ_STORE_PATH :: string where
  "OBJ_STORE_PATH = ''/tmp/distbuild/obj_store''"

definition preprocess_compiler_call ::
    "string \<Rightarrow> string \<Rightarrow> string list \<Rightarrow> string list \<Rightarrow> server_session \<Rightarrow> (server_session \<times> string list) result" where
  "preprocess_compiler_call client_id client_working_dir args idirs s =
     (let fixed_in_src_file =
            (if starts_with (in_src_file s) ''/''
             then cnvt_client_to_server_path (ses_working_dir s) (in_src_file s) else in_src_file s);
          idirs_dir = ses_working_dir s;
          cwd = cnvt_client_to_server_path (ses_working_dir s) client_working_dir;
          obj = generate_obj_file_path OBJ_STORE_PATH client_id (session_uuid s);
          (converted, dirs) = convert_args idirs_dir args
      in bind_r (convert_idirs idirs_dir idirs) (\<lambda>idir_args.
           Inr (s\<lparr>ses_working_dir := cwd, out_obj_file := obj,
                  ses_cmd_line_args := idir_args @ converted @ [fixed_in_src_file, ''-o'', obj],
                  are_args_ready := True\<rparr>,
                parent_path obj # dirs)))"

section \<open>Requesting the compilation\<close>

definition file_available :: "client_view \<Rightarrow> string \<Rightarrow> bool" where
  "file_available view path =
     (case client_file_states view path of None \<Rightarrow> False
      | Some st \<Rightarrow> file_status st = FILE_STATUS_AVAILABLE)"

text \<open>Both branches of \<open>try_request_src_compilation\<close> have this body; they differ in the
  session mutex only.\<close>

definition try_request_src_compilation ::
    "client_view \<Rightarrow> server_session \<Rightarrow> compiler_manager \<Rightarrow> server_session \<times> compiler_manager" where
  "try_request_src_compilation view s m =
     (if \<not> are_args_ready s then (s, m)
      else if \<not> list_all (file_available view) (required_files_state s) then (s, m)
      else if \<not> is_compiler_running s
      then (s\<lparr>is_compiler_running := True\<rparr>,
            add_compilation_request
              \<lparr>invalidated = False, requester_session = session_uuid s, cr_compiler_name = ses_compiler_name s,
               cr_cmd_line_args = ses_cmd_line_args s, cr_current_working_dir = ses_working_dir s\<rparr> m)
      else (s, m))"

fun try_compile_sessions ::
    "client_view \<Rightarrow> (string \<times> server_session) list \<Rightarrow> compiler_manager
      \<Rightarrow> (string \<times> server_session) list \<times> compiler_manager" where
  "try_compile_sessions view [] m = ([], m)"
| "try_compile_sessions view ((k, s) # ss) m =
     (let (s', m1) = try_request_src_compilation view s m;
          (ss', m2) = try_compile_sessions view ss m1
      in ((k, s') # ss', m2))"

definition try_compile_for_active_sessions :: "client_view \<Rightarrow> backend \<Rightarrow> client_view \<times> backend" where
  "try_compile_for_active_sessions view be =
     (let (ss, m) = try_compile_sessions view (associated_sessions view) (manager be)
      in (view\<lparr>associated_sessions := ss\<rparr>, be\<lparr>manager := m\<rparr>))"

section \<open>A new session\<close>

fun register_required_files :: "string \<Rightarrow> file_info list \<Rightarrow> client_view \<Rightarrow> client_view" where
  "register_required_files uuid [] view = view"
| "register_required_files uuid (fi # fis) view =
     register_required_files uuid fis
       (if fi_filename fi = [] then view
        else upd_session uuid (add_required_file_state (fi_filename fi))
               (add_file_state (fi_filename fi) (fi_filesize fi) (fi_filehash fi) view))"

text \<open>\<open>_create_client_dir_hierarchy\<close>: the session's working directory and the parent directories
  of its files, less those created before.\<close>

definition session_dirs :: "client_view \<Rightarrow> server_session \<Rightarrow> string list" where
  "session_dirs view s =
     remdups (filter (\<lambda>d. d \<notin> client_created_dirs view)
       (ses_working_dir s #
        concat (map (\<lambda>p. case client_file_states view p of None \<Rightarrow> []
                          | Some st \<Rightarrow> [parent_path (server_file_path st)]) (required_files_state s))))"

definition create_client_dir_hierarchy :: "server_session \<Rightarrow> client_view \<Rightarrow> backend \<Rightarrow> client_view \<times> backend" where
  "create_client_dir_hierarchy s view be =
     (let dirs = session_dirs view s
      in (view\<lparr>client_created_dirs := client_created_dirs view \<union> set dirs\<rparr>,
          be\<lparr>made_dirs := made_dirs be @ dirs\<rparr>))"

text \<open>Which files the client is asked for, and the change of their states.\<close>

fun request_files :: "u64 \<Rightarrow> string list \<Rightarrow> client_view \<Rightarrow> string list \<times> client_view" where
  "request_files now [] view = ([], view)"
| "request_files now (p # ps) view =
     (case client_file_states view p of
        None \<Rightarrow> request_files now ps view
      | Some st \<Rightarrow>
          let cp = cnvt_server_to_client_path (cv_working_dir view) (server_file_path st)
          in (case file_status st of
                FILE_STATUS_INITIAL \<Rightarrow>
                  (let (_, view') = update_file_state cp
                         (st\<lparr>file_status := FILE_STATUS_UPLOADING, up_start_time := now\<rparr>) view;
                       (cps, view'') = request_files now ps view'
                   in (cp # cps, view''))
              | FILE_STATUS_FAULT \<Rightarrow>
                  (let (cps, view'') = request_files now ps view in (cp # cps, view''))
              | _ \<Rightarrow> request_files now ps view))"

definition add_session ::
    "string \<Rightarrow> u64 \<Rightarrow> string \<Rightarrow> session_start_request \<Rightarrow> client_view \<Rightarrow> backend \<Rightarrow> (client_view \<times> backend) result" where
  "add_session compiler_bin now uuid rqst view be =
     (let view1 = register_required_files uuid (ss_required_files_info rqst)
                    (try_emplace_session uuid (new_server_session compiler_bin view uuid rqst) view)
      in case get_session view1 uuid of
           None \<Rightarrow> Inl Undefined
         | Some s \<Rightarrow>
             bind_r (preprocess_compiler_call (client_uuid view1) (ss_client_working_dir rqst)
                       (ss_client_cmd_line_args rqst) (ss_client_idirs rqst) s) (\<lambda>(s', dirs).
               let view2 = upd_session uuid (\<lambda>_. s') view1;
                   (view3, be1) = create_client_dir_hierarchy s' view2 (be\<lparr>made_dirs := made_dirs be @ dirs\<rparr>);
                   (requested, view4) = request_files now (required_files_state s') view3;
                   view5 = upd_session uuid (send_msg (SSessionConfirmed uuid requested)) view4
               in Inr (try_compile_for_active_sessions view5 be1)))"

section \<open>Receiving a file\<close>

definition set_file_status :: "string \<Rightarrow> file_status \<Rightarrow> client_view \<Rightarrow> client_view" where
  "set_file_status client_path new_status view =
     (case client_file_states view client_path of
        None \<Rightarrow> view
      | Some st \<Rightarrow> snd (update_file_state client_path (st\<lparr>file_status := new_status\<rparr>) view))"

definition set_transfer :: "string \<Rightarrow> string \<Rightarrow> file_transfer_state \<Rightarrow> client_view \<Rightarrow> client_view" where
  "set_transfer uuid server_name ts view =
     upd_session uuid (\<lambda>s. s\<lparr>file_transfer_states := (file_transfer_states s)(server_name \<mapsto> ts)\<rparr>) view"

text \<open>What \<open>process_file_chunk\<close> does with the last chunk, once the stream is closed. Any
  exception leaves the state as it is at that point.\<close>

definition finish_upload ::
    "(string \<Rightarrow> string) \<Rightarrow> string \<Rightarrow> string \<Rightarrow> file_state_view \<Rightarrow> client_view \<Rightarrow> backend
      \<Rightarrow> bool result \<times> client_view \<times> backend" where
  "finish_upload sha1 uuid path cur view be =
     (case file_size (files be) (server_file_path cur) of
        Inl e \<Rightarrow> (Inl e, view, be)
      | Inr sz \<Rightarrow>
          if file_sz_bytes cur \<noteq> sz then (Inr False, set_file_status path FILE_STATUS_FAULT view, be)
          else
            let content = (case files be (server_file_path cur) of None \<Rightarrow> [] | Some c \<Rightarrow> c);
                view1 = (if file_sha1 cur \<noteq> sha1 content
                         then set_file_status path FILE_STATUS_FAULT view else view);
                view2 = set_file_status path FILE_STATUS_AVAILABLE view1;
                (view3, be1) = try_compile_for_active_sessions view2 be
            in (Inr True, upd_session uuid (send_msg (SFileUpComplete uuid path True)) view3, be1))"

definition process_file_chunk ::
    "(string \<Rightarrow> bool) \<Rightarrow> (string \<Rightarrow> string) \<Rightarrow> string \<Rightarrow> file_chunk_upload \<Rightarrow> server_session
      \<Rightarrow> client_view \<Rightarrow> backend \<Rightarrow> bool result \<times> client_view \<times> backend" where
  "process_file_chunk openable sha1 uuid chunk s view be =
     (case get_file_state view (fc_filename chunk) of
        None \<Rightarrow> (Inr False, view, be)
      | Some cur \<Rightarrow>
          if fc_session_id chunk \<noteq> uuid
          then (Inr False, set_file_status (fc_filename chunk) FILE_STATUS_FAULT view, be)
          else
            let server_name = server_file_path cur;
                (ts, fs) = (case file_transfer_states s server_name of
                              Some ts \<Rightarrow> (ts, files be)
                            | None \<Rightarrow> new_file_transfer_state openable uuid server_name (files be));
                be1 = be\<lparr>files := fs\<rparr>;
                view1 = set_transfer uuid server_name ts view
            in if is_finished ts then (Inr True, view1, be1)
               else if ft_session_id ts \<noteq> uuid \<or> fc_sequence_no chunk \<noteq> last_seq_no ts + 1
                       \<or> fc_offset chunk < last_offset ts
               then (Inr False,
                     set_file_status (fc_filename chunk) FILE_STATUS_FAULT
                       (set_transfer uuid server_name
                          (ts\<lparr>is_finished := True, file_out_stream := stream_close (file_out_stream ts)\<rparr>) view1),
                     be1)
               else
                 let (st, fs1) = stream_write (file_out_stream ts) (fc_data chunk) (files be1);
                     ts1 = ts\<lparr>last_offset := fc_offset chunk, last_seq_no := fc_sequence_no chunk,
                              file_out_stream := st\<rparr>;
                     be2 = be1\<lparr>files := fs1\<rparr>
                 in if \<not> fc_is_last_chunk chunk then (Inr True, set_transfer uuid server_name ts1 view1, be2)
                    else finish_upload sha1 uuid (fc_filename chunk) cur
                           (set_transfer uuid server_name
                              (ts1\<lparr>is_finished := True, file_out_stream := stream_close st\<rparr>) view1) be2)"

section \<open>Ending a session\<close>

definition remove_session :: "string \<Rightarrow> client_view \<Rightarrow> client_view" where
  "remove_session uuid view =
     view\<lparr>associated_sessions := filter (\<lambda>(k, _). k \<noteq> uuid) (associated_sessions view)\<rparr>"

definition terminate_server_session :: "string \<Rightarrow> client_view \<Rightarrow> backend \<Rightarrow> client_view \<times> backend" where
  "terminate_server_session uuid view be =
     (remove_session uuid (upd_session uuid (\<lambda>s. s\<lparr>terminated := True\<rparr>) view),
      be\<lparr>manager := invalidate_requests_for_session uuid (manager be)\<rparr>)"

section \<open>The session's message loop\<close>

text \<open>One turn of the loop of \<open>handle_server_session\<close>: whether the loop goes on, and the new
  state. An exception is caught outside the loop, which so ends without terminating the session.\<close>

definition handle_client_message ::
    "(string \<Rightarrow> bool) \<Rightarrow> (string \<Rightarrow> string) \<Rightarrow> nat \<Rightarrow> string \<Rightarrow> client_message \<Rightarrow> client_view \<Rightarrow> backend
      \<Rightarrow> (bool \<times> client_view \<times> backend) result" where
  "handle_client_message openable sha1 now uuid msg view be =
     (case msg of
        CSessionStart _ \<Rightarrow> Inr (True, update_last_active_ts now view, be)
      | CFileChunkUpload chunk \<Rightarrow>
          (let view1 = update_last_active_ts now view
           in case get_session view1 uuid of
                None \<Rightarrow> Inl Undefined
              | Some s \<Rightarrow>
                  (case process_file_chunk openable sha1 uuid chunk s view1 be of
                     (Inl (Throw e), view2, be2) \<Rightarrow> Inr (False, view2, be2)
                   | (Inl Undefined, view2, be2) \<Rightarrow> Inl Undefined
                   | (Inr True, view2, be2) \<Rightarrow> Inr (True, view2, be2)
                   | (Inr False, view2, be2) \<Rightarrow>
                       Inr (True, upd_session uuid (send_msg (SSessionAbort uuid [])) view2, be2)))
      | CSessionAbort _ _ \<Rightarrow> (let (view1, be1) = terminate_server_session uuid view be in Inr (False, view1, be1))
      | CNotSet \<Rightarrow> (let (view1, be1) = terminate_server_session uuid view be in Inr (False, view1, be1)))"

text \<open>The loop over the messages that arrive; when the connection ends, \<open>receive_msg\<close> throws and
  the loop ends.\<close>

fun handle_server_session ::
    "(string \<Rightarrow> bool) \<Rightarrow> (string \<Rightarrow> string) \<Rightarrow> nat \<Rightarrow> string \<Rightarrow> client_message list \<Rightarrow> client_view \<Rightarrow> backend
      \<Rightarrow> (bool \<times> client_view \<times> backend) result" where
  "handle_server_session openable sha1 now uuid [] view be = Inr (True, view, be)"
| "handle_server_session openable sha1 now uuid (m # ms) view be =
     bind_r (handle_client_message openable sha1 now uuid m view be) (\<lambda>(go_on, view', be').
       if go_on then handle_server_session openable sha1 now uuid ms view' be'
       else Inr (False, view', be'))"

section \<open>Sending the result\<close>

definition CHUNK_SIZE :: nat where
  "CHUNK_SIZE = 64 * 1024"

definition build_msg :: "server_session \<Rightarrow> obj_file_chunk" where
  "build_msg s =
     \<lparr>oc_session_id = session_uuid s, oc_compiler_exit_code = ses_exit_code s,
      oc_compiler_call_duration = compile_duration s, oc_compiler_stdout = [], oc_compiler_stderr = [],
      oc_filesize = 0, oc_is_last_chunk = False, oc_data = []\<rparr>"

text \<open>The read loop over the object file; the argument is what is left of it.\<close>

function obj_chunks :: "server_session \<Rightarrow> u64 \<Rightarrow> string \<Rightarrow> obj_file_chunk list" where
  "obj_chunks s file_sz rest =
     (let bytes = take CHUNK_SIZE rest
      in if length bytes = 0 then []
         else
           let is_last = (length bytes < CHUNK_SIZE);
               chunk = (build_msg s)\<lparr>oc_filesize := file_sz, oc_data := bytes, oc_is_last_chunk := is_last\<rparr>;
               chunk' = (if is_last then chunk\<lparr>oc_compiler_stdout := ses_stdout s, oc_compiler_stderr := ses_stderr s\<rparr>
                         else chunk)
           in chunk' # obj_chunks s file_sz (drop CHUNK_SIZE rest))"
  by pat_completeness auto
termination
  by (relation "measure (\<lambda>(s, sz, rest). length rest)") (auto simp: CHUNK_SIZE_def)

declare obj_chunks.simps [simp del]

definition compilation_result_msgs :: "file_store \<Rightarrow> server_session \<Rightarrow> server_message list" where
  "compilation_result_msgs fs s =
     (if ses_exit_code s \<noteq> 0
      then [SObjFileChunk ((build_msg s)\<lparr>oc_filesize := 0, oc_is_last_chunk := True,
              oc_compiler_stdout := ses_stdout s, oc_compiler_stderr := ses_stderr s\<rparr>)]
      else case fs (out_obj_file s) of
          None \<Rightarrow> []
        | Some content \<Rightarrow> map SObjFileChunk (obj_chunks s (u64_size content) content))"

definition send_compilation_result :: "file_store \<Rightarrow> server_session \<Rightarrow> server_session" where
  "send_compilation_result fs s = fold send_msg (compilation_result_msgs fs s) s"

text \<open>Called by a worker thread with the session pointer of its request: the session may be gone
  by then.\<close>

definition publish_compilation_results ::
    "string \<Rightarrow> compilation_output \<Rightarrow> client_view \<Rightarrow> backend \<Rightarrow> client_view result" where
  "publish_compilation_results uuid out view be =
     (case get_session view uuid of
        None \<Rightarrow> Inl Undefined
      | Some s \<Rightarrow>
          Inr (upd_session uuid (\<lambda>s. send_compilation_result (files be)
            (s\<lparr>ses_exit_code := exit_code out, ses_stdout := stdout_data out,
               ses_stderr := stderr_data out, compile_duration := compiling_duration out\<rparr>)) view))"

end
