(* ===== verification/Server_Upload.thy ===== *)
theory Server_Upload
  imports Server_Session
begin

text \<open>
  The upload of one file, as the server's session sees it: what each chunk does to the file, to
  the transfer state and to the file's status. The lemmas at the start give the equations of the
  two tables of a client view (its sessions and its file states) that all proofs about the server
  use.
\<close>

section \<open>Tables of objects reached through pointers\<close>

text \<open>The contract of a table whose entries are modified in place: modifying one entry changes
  the lookup of that entry and of no other.\<close>

locale object_table =
  fixes lookup :: "'s \<Rightarrow> 'k \<Rightarrow> 'o option"
    and modify :: "'k \<Rightarrow> ('o \<Rightarrow> 'o) \<Rightarrow> 's \<Rightarrow> 's"
  assumes lookup_modify: "lookup (modify k f s) j = (if j = k then map_option f (lookup s k) else lookup s j)"
begin

lemma lookup_modify_same [simp]: "lookup (modify k f s) k = map_option f (lookup s k)"
  by (simp add: lookup_modify)

lemma lookup_modify_other: "j \<noteq> k \<Longrightarrow> lookup (modify k f s) j = lookup s j"
  by (simp add: lookup_modify)

lemma dom_modify: "dom (lookup (modify k f s)) = dom (lookup s)"
  by (auto simp: lookup_modify split: if_splits)

lemma lookup_fold_modify:
  "lookup (fold (modify k) fs s) k = map_option (fold (\<lambda>f. f) fs) (lookup s k)"
  by (induction fs arbitrary: s) (simp_all add: option.map_comp option.map_id0 option.map_id comp_def)

end

lemma map_of_map_key:
  "map_of (map (\<lambda>(k, s). if k = u then (k, f s) else (k, s)) xs) j =
     (if j = u then map_option f (map_of xs u) else map_of xs j)"
  by (induction xs) auto

lemma map_key_comp:
  "map (\<lambda>(k, s). if k = u then (k, f s) else (k, s)) (map (\<lambda>(k, s). if k = u then (k, g s) else (k, s)) xs)
     = map (\<lambda>(k, s). if k = u then (k, f (g s)) else (k, s)) xs"
  by (induction xs) auto

lemma upd_session_comp: "upd_session u f (upd_session u g view) = upd_session u (\<lambda>s. f (g s)) view"
  by (simp add: upd_session_def map_key_comp del: map_map)

interpretation sessions: object_table get_session upd_session
  by unfold_locales (simp add: get_session_def upd_session_def map_of_map_key)

text \<open>The status of a file, through \<open>set_file_status\<close>.\<close>

definition upd_file :: "string \<Rightarrow> (file_state_view \<Rightarrow> file_state_view) \<Rightarrow> client_view \<Rightarrow> client_view" where
  "upd_file path f view =
     (case client_file_states view path of
        None \<Rightarrow> view
      | Some st \<Rightarrow> snd (update_file_state path (f st) view))"

lemma set_file_status_upd_file:
  "set_file_status path new_status = upd_file path (\<lambda>st. st\<lparr>file_status := new_status\<rparr>)"
  by (intro ext) (simp add: set_file_status_def upd_file_def split: option.split)

interpretation file_table: object_table get_file_state upd_file
  by unfold_locales (auto simp: get_file_state_def upd_file_def update_file_state_def split: option.split)

lemma upd_session_frame [simp]:
  "client_file_states (upd_session u f view) = client_file_states view"
  "cv_working_dir (upd_session u f view) = cv_working_dir view"
  "client_uuid (upd_session u f view) = client_uuid view"
  by (simp_all add: upd_session_def)

lemma set_transfer_frame [simp]:
  "client_file_states (set_transfer u n ts view) = client_file_states view"
  "cv_working_dir (set_transfer u n ts view) = cv_working_dir view"
  by (simp_all add: set_transfer_def)

definition with_transfer :: "string \<Rightarrow> file_transfer_state \<Rightarrow> server_session \<Rightarrow> server_session" where
  "with_transfer n ts s = s\<lparr>file_transfer_states := (file_transfer_states s)(n \<mapsto> ts)\<rparr>"

lemma with_transfer_twice [simp]: "with_transfer n ts (with_transfer n ts' s) = with_transfer n ts s"
  by (simp add: with_transfer_def)

lemma with_transfer_frame [simp]:
  "session_uuid (with_transfer n ts s) = session_uuid s"
  "out_msgs (with_transfer n ts s) = out_msgs s"
  "required_files_state (with_transfer n ts s) = required_files_state s"
  "are_args_ready (with_transfer n ts s) = are_args_ready s"
  "is_compiler_running (with_transfer n ts s) = is_compiler_running s"
  "file_transfer_states (with_transfer n ts s) = (file_transfer_states s)(n \<mapsto> ts)"
  by (simp_all add: with_transfer_def)

lemma get_session_set_transfer [simp]:
  "get_session (set_transfer u n ts view) j =
     (if j = u then map_option (with_transfer n ts) (get_session view u) else get_session view j)"
  by (simp add: set_transfer_def sessions.lookup_modify with_transfer_def [abs_def])

lemma set_transfer_same [simp]: "set_transfer u n ts (set_transfer u n ts' view) = set_transfer u n ts view"
  by (simp add: set_transfer_def upd_session_comp)

lemma set_file_status_frame [simp]:
  "get_session (set_file_status p st view) = get_session view"
  "cv_working_dir (set_file_status p st view) = cv_working_dir view"
  "associated_sessions (set_file_status p st view) = associated_sessions view"
  by (auto simp: set_file_status_def update_file_state_def get_session_def split: option.split)

lemma client_file_states_set_status:
  "client_file_states (set_file_status p st view) q =
     (if q = p then map_option (\<lambda>f. f\<lparr>file_status := st\<rparr>) (client_file_states view p)
      else client_file_states view q)"
  using file_table.lookup_modify [of p "\<lambda>f. f\<lparr>file_status := st\<rparr>" view q]
  by (simp add: get_file_state_def set_file_status_upd_file)

lemma update_last_active_ts_frame [simp]:
  "get_session (update_last_active_ts now view) = get_session view"
  "client_file_states (update_last_active_ts now view) = client_file_states view"
  "associated_sessions (update_last_active_ts now view) = associated_sessions view"
  "cv_working_dir (update_last_active_ts now view) = cv_working_dir view"
  by (auto simp: update_last_active_ts_def get_session_def)

section \<open>Requesting compilations\<close>

text \<open>What one pass over the sessions does, written without the loop: a session is marked when its
  arguments are ready and all its files are there, and it queues its request when it was not
  marked before.\<close>

definition all_there :: "client_view \<Rightarrow> server_session \<Rightarrow> bool" where
  "all_there view s \<longleftrightarrow> are_args_ready s \<and> (\<forall>p \<in> set (required_files_state s). file_available view p)"

definition mark_running :: "client_view \<Rightarrow> server_session \<Rightarrow> server_session" where
  "mark_running view s = s\<lparr>is_compiler_running := (is_compiler_running s \<or> all_there view s)\<rparr>"

definition request_of :: "server_session \<Rightarrow> compilation_request" where
  "request_of s =
     \<lparr>invalidated = False, requester_session = session_uuid s, cr_compiler_name = ses_compiler_name s,
      cr_cmd_line_args = ses_cmd_line_args s, cr_current_working_dir = ses_working_dir s\<rparr>"

definition newly_ready :: "client_view \<Rightarrow> (string \<times> server_session) list \<Rightarrow> server_session list" where
  "newly_ready view ss = filter (\<lambda>s. all_there view s \<and> \<not> is_compiler_running s) (map snd ss)"

lemma try_request_eq:
  "try_request_src_compilation view s m =
     (mark_running view s,
      m\<lparr>compile_task_queue := compile_task_queue m @
         (if all_there view s \<and> \<not> is_compiler_running s then [request_of s] else [])\<rparr>)"
  by (auto simp: try_request_src_compilation_def mark_running_def all_there_def request_of_def
      add_compilation_request_def list_all_iff)

lemma try_compile_sessions_eq:
  "try_compile_sessions view ss m =
     (map (\<lambda>(k, s). (k, mark_running view s)) ss,
      m\<lparr>compile_task_queue := compile_task_queue m @ map request_of (newly_ready view ss)\<rparr>)"
  by (induction ss arbitrary: m) (auto simp: try_request_eq newly_ready_def Let_def)

lemma try_compile_eq:
  "try_compile_for_active_sessions view be =
     (view\<lparr>associated_sessions := map (\<lambda>(k, s). (k, mark_running view s)) (associated_sessions view)\<rparr>,
      be\<lparr>manager := (manager be)\<lparr>compile_task_queue := compile_task_queue (manager be)
          @ map request_of (newly_ready view (associated_sessions view))\<rparr>\<rparr>)"
  by (simp add: try_compile_for_active_sessions_def try_compile_sessions_eq)

lemma get_session_map [simp]:
  "get_session (v\<lparr>associated_sessions := map (\<lambda>(k, s). (k, f s)) (associated_sessions w)\<rparr>) u
     = map_option f (get_session w u)"
  by (simp add: get_session_def map_of_map)

lemma mark_running_frame [simp]:
  "session_uuid (mark_running view s) = session_uuid s"
  "out_msgs (mark_running view s) = out_msgs s"
  "file_transfer_states (mark_running view s) = file_transfer_states s"
  "required_files_state (mark_running view s) = required_files_state s"
  "are_args_ready (mark_running view s) = are_args_ready s"
  by (simp_all add: mark_running_def)

section \<open>One file, chunk by chunk\<close>

text \<open>The state of an upload after \<open>n\<close> chunks that carried the bytes \<open>got\<close>; \<open>off\<close> is the
  offset of the last of them.\<close>

definition receiving ::
    "string \<Rightarrow> string \<Rightarrow> file_state_view \<Rightarrow> nat \<Rightarrow> nat \<Rightarrow> string \<Rightarrow> client_view \<Rightarrow> backend \<Rightarrow> bool" where
  "receiving uuid path cur n off got view be \<longleftrightarrow>
     client_file_states view path = Some cur \<and>
     (\<exists>s ts. get_session view uuid = Some s \<and>
        file_transfer_states s (server_file_path cur) = Some ts \<and>
        \<not> is_finished ts \<and> ft_session_id ts = uuid \<and>
        last_seq_no ts = of_nat n \<and> last_offset ts = of_nat off \<and>
        is_open (file_out_stream ts) \<and> stream_path (file_out_stream ts) = server_file_path cur \<and>
        stream_pos (file_out_stream ts) = length got) \<and>
     files be (server_file_path cur) = Some got"

text \<open>The chunk a client sends next, with the offset \<open>off'\<close>.\<close>

definition mk_chunk :: "string \<Rightarrow> string \<Rightarrow> nat \<Rightarrow> nat \<Rightarrow> string \<Rightarrow> bool \<Rightarrow> file_chunk_upload" where
  "mk_chunk uuid path seq off d is_last =
     \<lparr>fc_session_id = uuid, fc_filename = path, fc_sequence_no = of_nat seq, fc_offset = of_nat off,
      fc_data = d, fc_is_last_chunk = is_last\<rparr>"

lemma of_nat_le_u64: "a \<le> b \<Longrightarrow> b < 2 ^ 64 \<Longrightarrow> (of_nat a :: u64) \<le> of_nat b"
  by (simp add: word_le_nat_alt unat_of_nat take_bit_nat_eq_self)

lemma receivingE:
  assumes "receiving uuid path cur n off got view be" and "get_session view uuid = Some s"
  obtains ts where "client_file_states view path = Some cur"
    and "file_transfer_states s (server_file_path cur) = Some ts" and "\<not> is_finished ts"
    and "ft_session_id ts = uuid" and "last_seq_no ts = of_nat n" and "last_offset ts = of_nat off"
    and "is_open (file_out_stream ts)" and "stream_path (file_out_stream ts) = server_file_path cur"
    and "stream_pos (file_out_stream ts) = length got"
    and "files be (server_file_path cur) = Some got"
  using assms by (auto simp: receiving_def)

text \<open>A chunk in sequence: its bytes are appended to the file, and after the last one the upload is
  finished.\<close>

lemma process_chunk_in_sequence:
  assumes "receiving uuid path cur n off got view be" and "get_session view uuid = Some s"
    and "off \<le> off'" and "off' < 2 ^ 64"
  obtains ts where "is_finished ts = l" "ft_session_id ts = uuid" "last_seq_no ts = of_nat (Suc n)" "last_offset ts = of_nat off'"
    "is_open (file_out_stream ts) = (\<not> l)" "stream_path (file_out_stream ts) = server_file_path cur"
    "stream_pos (file_out_stream ts) = length (got @ d)"
    "process_file_chunk openable sha uuid (mk_chunk uuid path (Suc n) off' d l) s view be =
       (if l then finish_upload sha uuid path cur (set_transfer uuid (server_file_path cur) ts view)
                    (be\<lparr>files := (files be)(server_file_path cur \<mapsto> got @ d)\<rparr>)
        else (Inr True, set_transfer uuid (server_file_path cur) ts view,
              be\<lparr>files := (files be)(server_file_path cur \<mapsto> got @ d)\<rparr>))"
proof -
  from assms(1,2) obtain ts where ts: "client_file_states view path = Some cur"
    "file_transfer_states s (server_file_path cur) = Some ts" "\<not> is_finished ts"
    "ft_session_id ts = uuid" "last_seq_no ts = of_nat n" "last_offset ts = of_nat off"
    "is_open (file_out_stream ts)" "stream_path (file_out_stream ts) = server_file_path cur"
    "stream_pos (file_out_stream ts) = length got" "files be (server_file_path cur) = Some got"
    by (rule receivingE)
  let ?sp = "server_file_path cur" and ?st = "(file_out_stream ts)\<lparr>stream_pos := length (got @ d)\<rparr>"
  let ?ts1 = "ts\<lparr>last_offset := of_nat off', last_seq_no := of_nat (Suc n), file_out_stream := ?st\<rparr>"
  let ?ts = "if l then ?ts1\<lparr>is_finished := True, file_out_stream := stream_close ?st\<rparr> else ?ts1"
  have le: "\<not> (of_nat off' :: u64) < of_nat off"
    using of_nat_le_u64 [OF assms(3,4)] by simp
  have w: "stream_write (file_out_stream ts) d (files be) = (?st, (files be)(?sp \<mapsto> got @ d))"
    using stream_write_append [of "file_out_stream ts" "files be" got d] ts by simp
  have "process_file_chunk openable sha uuid (mk_chunk uuid path (Suc n) off' d l) s view be =
       (if l then finish_upload sha uuid path cur (set_transfer uuid ?sp ?ts view) (be\<lparr>files := (files be)(?sp \<mapsto> got @ d)\<rparr>)
        else (Inr True, set_transfer uuid ?sp ?ts view, be\<lparr>files := (files be)(?sp \<mapsto> got @ d)\<rparr>))"
    using ts w le by (cases l) (simp_all add: process_file_chunk_def get_file_state_def mk_chunk_def Let_def)
  then show ?thesis using that [of ?ts] ts by (cases l) (simp_all add: stream_close_def)
qed

lemma process_chunk_receiving:
  assumes "receiving uuid path cur n off got view be" and "get_session view uuid = Some s"
    and "off \<le> off'" and "off' < 2 ^ 64"
  obtains view1 be1 ts where
    "process_file_chunk openable sha1 uuid (mk_chunk uuid path (Suc n) off' d False) s view be = (Inr True, view1, be1)"
    and "receiving uuid path cur (Suc n) off' (got @ d) view1 be1"
    and "get_session view1 uuid = Some (with_transfer (server_file_path cur) ts s)"
    and "client_file_states view1 = client_file_states view"
    and "\<forall>q. q \<noteq> server_file_path cur \<longrightarrow> files be1 q = files be q"
proof (rule process_chunk_in_sequence [where l = False and d = d and sha = sha1 and openable = openable, OF assms])
  fix ts
  let ?view = "set_transfer uuid (server_file_path cur) ts view" and ?be = "be\<lparr>files := (files be)(server_file_path cur \<mapsto> got @ d)\<rparr>"
  assume ts: "is_finished ts = False" "ft_session_id ts = uuid" "last_seq_no ts = of_nat (Suc n)" "last_offset ts = of_nat off'"
    "is_open (file_out_stream ts) = (\<not> False)" "stream_path (file_out_stream ts) = server_file_path cur"
    "stream_pos (file_out_stream ts) = length (got @ d)"
    and p: "process_file_chunk openable sha1 uuid (mk_chunk uuid path (Suc n) off' d False) s view be =
       (if False then finish_upload sha1 uuid path cur ?view ?be else (Inr True, ?view, ?be))"
  have "receiving uuid path cur (Suc n) off' (got @ d) ?view ?be"
    using assms(1,2) ts by (auto simp: receiving_def)
  then show ?thesis using that [of ?view ?be ts] p assms(2) by simp
qed

text \<open>The chunk that completes the file, when the file has the announced size: the status becomes
  available whatever the hash says, the sessions that wait for nothing else queue their
  compilation, and the client is told.\<close>

definition upload_done ::
    "string \<Rightarrow> string \<Rightarrow> file_state_view \<Rightarrow> string \<Rightarrow> server_session \<Rightarrow> client_view \<Rightarrow> backend \<Rightarrow> client_view \<Rightarrow> backend \<Rightarrow> bool" where
  "upload_done uuid path cur content s view be view' be' \<longleftrightarrow>
     client_file_states view' = (client_file_states view)(path \<mapsto> cur\<lparr>file_status := FILE_STATUS_AVAILABLE\<rparr>) \<and>
     files be' (server_file_path cur) = Some content \<and>
     (\<forall>q. q \<noteq> server_file_path cur \<longrightarrow> files be' q = files be q) \<and>
     (\<exists>s'. get_session view' uuid = Some s' \<and>
        out_msgs s' = out_msgs s @ [SFileUpComplete uuid path True] \<and>
        are_args_ready s' = are_args_ready s \<and> required_files_state s' = required_files_state s \<and>
        (\<forall>q. q \<noteq> server_file_path cur \<longrightarrow> file_transfer_states s' q = file_transfer_states s q) \<and>
        is_compiler_running s' = (is_compiler_running s \<or> all_there view' s))"

lemma set_status_twice [simp]:
  "set_file_status p st (set_file_status p st' view) = set_file_status p st view"
  by (auto simp: set_file_status_def update_file_state_def split: option.split)

lemma client_file_states_set_status_eq:
  "client_file_states view p = Some cur \<Longrightarrow>
     client_file_states (set_file_status p st view) = (client_file_states view)(p \<mapsto> cur\<lparr>file_status := st\<rparr>)"
  by (auto simp: client_file_states_set_status)

lemma all_there_cong: "client_file_states v = client_file_states w \<Longrightarrow> all_there v s = all_there w s"
  by (simp add: all_there_def file_available_def)

lemma all_there_with_transfer [simp]: "all_there v (with_transfer n ts s) = all_there v s"
  by (simp add: all_there_def)

lemma send_msg_frame [simp]:
  "out_msgs (send_msg m s) = out_msgs s @ [m]"
  "is_compiler_running (send_msg m s) = is_compiler_running s"
  "file_transfer_states (send_msg m s) = file_transfer_states s"
  "required_files_state (send_msg m s) = required_files_state s"
  "are_args_ready (send_msg m s) = are_args_ready s"
  "session_uuid (send_msg m s) = session_uuid s"
  by (simp_all add: send_msg_def)

lemma finish_upload_done:
  assumes "client_file_states view path = Some cur" and "get_session view uuid = Some s"
    and "files be (server_file_path cur) = Some content" and "file_sz_bytes cur = u64_size content"
  obtains view' be' where "finish_upload sha1 uuid path cur view be = (Inr True, view', be')"
    and "upload_done uuid path cur content s view be view' be'"
proof -
  let ?v = "set_file_status path FILE_STATUS_AVAILABLE view"
  obtain view3 be1 where t: "try_compile_for_active_sessions ?v be = (view3, be1)" by fastforce
  let ?view = "upd_session uuid (send_msg (SFileUpComplete uuid path True)) view3"
  have "finish_upload sha1 uuid path cur view be = (Inr True, ?view, be1)"
    using assms t by (simp add: finish_upload_def file_size_def Let_def)
  moreover have st: "client_file_states ?view = client_file_states ?v"
    using t by (auto simp: try_compile_eq)
  moreover have "files be1 = files be"
    using t by (auto simp: try_compile_eq)
  moreover have "get_session view3 uuid = Some (mark_running ?v s)"
    using t assms(2) by (auto simp: try_compile_eq)
  moreover have "is_compiler_running (mark_running ?v s) = (is_compiler_running s \<or> all_there ?view s)"
    using all_there_cong [OF st] by (simp add: mark_running_def)
  ultimately show ?thesis
    using assms that [of ?view be1]
    by (simp add: upload_done_def client_file_states_set_status_eq)
qed

lemma process_chunk_last:
  assumes "receiving uuid path cur n off got view be" and "get_session view uuid = Some s"
    and "off \<le> off'" and "off' < 2 ^ 64" and "file_sz_bytes cur = u64_size (got @ d)"
  obtains view1 be1 where
    "process_file_chunk openable sha1 uuid (mk_chunk uuid path (Suc n) off' d True) s view be = (Inr True, view1, be1)"
    and "upload_done uuid path cur (got @ d) s view be view1 be1"
proof (rule process_chunk_in_sequence [where l = True and d = d and sha = sha1 and openable = openable, OF assms(1-4)])
  fix ts
  let ?sp = "server_file_path cur"
  let ?view = "set_transfer uuid ?sp ts view" and ?be = "be\<lparr>files := (files be)(?sp \<mapsto> got @ d)\<rparr>"
  assume p: "process_file_chunk openable sha1 uuid (mk_chunk uuid path (Suc n) off' d True) s view be =
       (if True then finish_upload sha1 uuid path cur ?view ?be else (Inr True, ?view, ?be))"
  have sess: "get_session ?view uuid = Some (with_transfer ?sp ts s)" using assms(2) by simp
  obtain view' be' where "finish_upload sha1 uuid path cur ?view ?be = (Inr True, view', be')"
    and "upload_done uuid path cur (got @ d) (with_transfer ?sp ts s) ?view ?be view' be'"
    by (rule finish_upload_done [OF _ sess, of path cur ?be "got @ d"]) (use assms(1,5) in \<open>simp_all add: receiving_def\<close>)
  with p show ?thesis using that [of view' be'] by (simp add: upload_done_def)
qed

subsection \<open>The first chunk opens the file\<close>

definition fresh_transfer :: "string \<Rightarrow> string \<Rightarrow> file_transfer_state" where
  "fresh_transfer uuid sp =
     \<lparr>is_finished = False, file_out_stream = \<lparr>is_open = True, stream_path = sp, stream_pos = 0\<rparr>,
      ft_session_id = uuid, ft_filename = sp, last_seq_no = 0, last_offset = 0\<rparr>"

lemma new_file_transfer_state_eq:
  "openable sp \<Longrightarrow> new_file_transfer_state openable uuid sp fs = (fresh_transfer uuid sp, fs(sp \<mapsto> []))"
  by (simp add: new_file_transfer_state_def open_out_def fresh_transfer_def)

lemma receiving_fresh:
  assumes "client_file_states view path = Some cur" and "get_session view uuid = Some s"
  shows "receiving uuid path cur 0 0 [] (set_transfer uuid (server_file_path cur) (fresh_transfer uuid (server_file_path cur)) view)
    (be\<lparr>files := (files be)(server_file_path cur \<mapsto> [])\<rparr>)"
  using assms by (simp add: receiving_def fresh_transfer_def)

lemma process_chunk_first:
  assumes "client_file_states view path = Some cur" and "get_session view uuid = Some s"
    and "file_transfer_states s (server_file_path cur) = None" and "openable (server_file_path cur)"
  shows "process_file_chunk openable sha1 uuid (mk_chunk uuid path (Suc 0) off d l) s view be
     = process_file_chunk openable sha1 uuid (mk_chunk uuid path (Suc 0) off d l)
         (with_transfer (server_file_path cur) (fresh_transfer uuid (server_file_path cur)) s)
         (set_transfer uuid (server_file_path cur) (fresh_transfer uuid (server_file_path cur)) view)
         (be\<lparr>files := (files be)(server_file_path cur \<mapsto> [])\<rparr>)"
  using assms
  by (simp add: process_file_chunk_def get_file_state_def mk_chunk_def new_file_transfer_state_eq Let_def split: prod.split)

subsection \<open>A whole file\<close>

text \<open>The chunks of a file cut into pieces, the last piece marked, after \<open>n\<close> chunks and \<open>off\<close>
  bytes.\<close>

fun chunk_seq :: "string \<Rightarrow> string \<Rightarrow> nat \<Rightarrow> nat \<Rightarrow> string list \<Rightarrow> file_chunk_upload list" where
  "chunk_seq uuid path n off [] = []"
| "chunk_seq uuid path n off (d # ds) =
     mk_chunk uuid path (Suc n) off d (ds = []) # chunk_seq uuid path (Suc n) (off + length d) ds"

lemma receiving_ts [simp]:
  "receiving uuid path cur n off got (update_last_active_ts now view) be = receiving uuid path cur n off got view be"
  by (simp add: receiving_def)

lemma upload_done_trans:
  assumes "upload_done uuid path cur content (with_transfer (server_file_path cur) ts s) view1 be1 view' be'"
    and "client_file_states view1 = client_file_states view"
    and "\<forall>q. q \<noteq> server_file_path cur \<longrightarrow> files be1 q = files be q"
  shows "upload_done uuid path cur content s view be view' be'"
  using assms by (simp add: upload_done_def)

lemma handle_chunk_ok:
  assumes "get_session view uuid = Some s"
    and "process_file_chunk openable sha1 uuid c s (update_last_active_ts now view) be = (Inr True, view1, be1)"
  shows "handle_client_message openable sha1 now uuid (CFileChunkUpload c) view be = Inr (True, view1, be1)"
  using assms by (simp add: handle_client_message_def)

lemma upload_rest:
  assumes "receiving uuid path cur n off got view be" and "get_session view uuid = Some s"
    and "ds \<noteq> []" and "off \<le> length got" and "length (got @ concat ds) < 2 ^ 64"
    and "file_sz_bytes cur = u64_size (got @ concat ds)"
  shows "\<exists>view' be'. handle_server_session openable sha1 now uuid
        (map CFileChunkUpload (chunk_seq uuid path n (length got) ds)) view be = Inr (True, view', be') \<and>
      upload_done uuid path cur (got @ concat ds) s view be view' be'"
  using assms
proof (induction ds arbitrary: n off got view be s)
  case (Cons d ds)
  let ?view = "update_last_active_ts now view"
  have recv: "receiving uuid path cur n off got ?view be" "get_session ?view uuid = Some s"
    using Cons.prems by simp_all
  have off: "off \<le> length got" "length got < 2 ^ 64"
    using Cons.prems by simp_all
  show ?case
  proof (cases "ds = []")
    case True
    have "file_sz_bytes cur = u64_size (got @ d)"
      using Cons.prems(6) True by simp
    from process_chunk_last [OF recv off this] obtain view1 be1 where
        p: "process_file_chunk openable sha1 uuid (mk_chunk uuid path (Suc n) (length got) d True) s ?view be
          = (Inr True, view1, be1)"
        and "upload_done uuid path cur (got @ d) s ?view be view1 be1" by metis
    then show ?thesis
      using True handle_chunk_ok [OF Cons.prems(2) p] by (auto simp: upload_done_def)
  next
    case False
    from process_chunk_receiving [OF recv off] obtain view1 be1 ts where
        p: "process_file_chunk openable sha1 uuid (mk_chunk uuid path (Suc n) (length got) d False) s ?view be
          = (Inr True, view1, be1)"
        and r1: "receiving uuid path cur (Suc n) (length got) (got @ d) view1 be1"
        and s1: "get_session view1 uuid = Some (with_transfer (server_file_path cur) ts s)"
        and f1: "client_file_states view1 = client_file_states ?view"
        and o1: "\<forall>q. q \<noteq> server_file_path cur \<longrightarrow> files be1 q = files be q" by metis
    have "\<exists>view' be'. handle_server_session openable sha1 now uuid
        (map CFileChunkUpload (chunk_seq uuid path (Suc n) (length (got @ d)) ds)) view1 be1 = Inr (True, view', be') \<and>
      upload_done uuid path cur ((got @ d) @ concat ds) (with_transfer (server_file_path cur) ts s) view1 be1 view' be'"
      using Cons.prems False by (intro Cons.IH [OF r1 s1]) simp_all
    then obtain view' be' where
        h: "handle_server_session openable sha1 now uuid
          (map CFileChunkUpload (chunk_seq uuid path (Suc n) (length (got @ d)) ds)) view1 be1 = Inr (True, view', be')"
        and u: "upload_done uuid path cur ((got @ d) @ concat ds) (with_transfer (server_file_path cur) ts s) view1 be1 view' be'"
      by auto
    have "upload_done uuid path cur (got @ concat (d # ds)) s view be view' be'"
      using upload_done_trans [OF u] f1 o1 by simp
    with h False handle_chunk_ok [OF Cons.prems(2) p] show ?thesis by simp
  qed
qed simp

text \<open>From the start: a session that has not seen the file yet gets all of it.\<close>

lemma update_ts_set_transfer:
  "update_last_active_ts now (set_transfer u n ts view) = set_transfer u n ts (update_last_active_ts now view)"
  by (simp add: update_last_active_ts_def set_transfer_def upd_session_def)

lemma handle_chunk_first:
  assumes "client_file_states view path = Some cur" and "get_session view uuid = Some s"
    and "file_transfer_states s (server_file_path cur) = None" and "openable (server_file_path cur)"
  shows "handle_client_message openable sha1 now uuid (CFileChunkUpload (mk_chunk uuid path (Suc 0) off d l)) view be
    = handle_client_message openable sha1 now uuid (CFileChunkUpload (mk_chunk uuid path (Suc 0) off d l))
        (set_transfer uuid (server_file_path cur) (fresh_transfer uuid (server_file_path cur)) view)
        (be\<lparr>files := (files be)(server_file_path cur \<mapsto> [])\<rparr>)"
  using assms process_chunk_first [of "update_last_active_ts now view" path cur uuid s openable]
  by (simp add: handle_client_message_def update_ts_set_transfer)

lemma upload_file:
  assumes "client_file_states view path = Some cur" and "get_session view uuid = Some s"
    and "file_transfer_states s (server_file_path cur) = None" and "openable (server_file_path cur)"
    and "ds \<noteq> []" and "length (concat ds) < 2 ^ 64" and "file_sz_bytes cur = u64_size (concat ds)"
  shows "\<exists>view' be'. handle_server_session openable sha1 now uuid
        (map CFileChunkUpload (chunk_seq uuid path 0 0 ds)) view be = Inr (True, view', be') \<and>
      upload_done uuid path cur (concat ds) s view be view' be'"
proof -
  let ?sp = "server_file_path cur"
  let ?view = "set_transfer uuid ?sp (fresh_transfer uuid ?sp) view"
  let ?be = "be\<lparr>files := (files be)(?sp \<mapsto> [])\<rparr>"
  have s0: "get_session ?view uuid = Some (with_transfer ?sp (fresh_transfer uuid ?sp) s)"
    using assms(2) by simp
  obtain d ds' where ds: "ds = d # ds'" using assms(5) by (cases ds) auto
  have "handle_server_session openable sha1 now uuid (map CFileChunkUpload (chunk_seq uuid path 0 0 ds)) view be
      = handle_server_session openable sha1 now uuid (map CFileChunkUpload (chunk_seq uuid path 0 0 ds)) ?view ?be"
    using handle_chunk_first [where openable = openable, OF assms(1-4)] by (simp add: ds)
  moreover have "\<exists>view' be'. handle_server_session openable sha1 now uuid
        (map CFileChunkUpload (chunk_seq uuid path 0 0 ds)) ?view ?be = Inr (True, view', be') \<and>
      upload_done uuid path cur (concat ds) (with_transfer ?sp (fresh_transfer uuid ?sp) s) ?view ?be view' be'"
    using upload_rest [OF receiving_fresh [OF assms(1,2)] s0 assms(5)] assms(6,7) by simp
  ultimately obtain view' be' where "handle_server_session openable sha1 now uuid
        (map CFileChunkUpload (chunk_seq uuid path 0 0 ds)) view be = Inr (True, view', be')"
      and u: "upload_done uuid path cur (concat ds) (with_transfer ?sp (fresh_transfer uuid ?sp) s) ?view ?be view' be'"
    by auto
  moreover have "upload_done uuid path cur (concat ds) s view be view' be'"
    by (rule upload_done_trans [OF u]) simp_all
  ultimately show ?thesis by blast
qed

end
