(* ===== verification/Session_Transfer.thy ===== *)
theory Session_Transfer
  imports Client_Session Server_Upload
begin

text \<open>
  The two sides of a session together: the files the client uploads arrive on the server as they
  are on the client, all files the server asked for are uploaded in turn, and the object file comes
  back. The network between the two sides delivers messages in order, which is what the write queues
  and the framing give.
\<close>

section \<open>One file from the client to the server\<close>

text \<open>The read loop marks a chunk as the last one when it is shorter than the buffer.\<close>

definition sendable :: "string \<Rightarrow> bool" where
  "sendable content \<longleftrightarrow> content = [] \<or> \<not> OBJ_CHUNK_SZ dvd length content"

definition pieces :: "string \<Rightarrow> string list" where
  "pieces content = (if content = [] then [[]] else chunks_of OBJ_CHUNK_SZ content)"

lemma OBJ_CHUNK_SZ_pos [simp]: "0 < OBJ_CHUNK_SZ"
  by (simp add: OBJ_CHUNK_SZ_def)

lemma concat_pieces [simp]: "concat (pieces content) = content"
  by (simp add: pieces_def concat_chunks_of)

lemma pieces_not_Nil [simp]: "pieces content \<noteq> []"
  by (simp add: pieces_def chunks_of_step)

lemma file_chunks_chunk_seq:
  assumes "content = [] \<or> \<not> OBJ_CHUNK_SZ dvd length content"
  shows "file_chunks uuid name (of_nat (Suc n)) (of_nat off) content = chunk_seq uuid name n off (chunks_of OBJ_CHUNK_SZ content)"
  using assms
proof (induction "length content" arbitrary: content n off rule: less_induct)
  case less
  show ?case
  proof (cases "content = []")
    case False
    let ?rest = "drop OBJ_CHUNK_SZ content" and ?len = "length (take OBJ_CHUNK_SZ content)"
    have last: "(length content < OBJ_CHUNK_SZ) = (chunks_of OBJ_CHUNK_SZ ?rest = [])"
      using less.prems False by (cases "?rest = []") (auto simp: chunks_of_step le_less)
    have "?rest = [] \<or> \<not> OBJ_CHUNK_SZ dvd length ?rest"
      using less.prems False by (auto simp: dvd_minus_self)
    then have "file_chunks uuid name (of_nat (Suc (Suc n))) (of_nat (off + ?len)) ?rest
        = chunk_seq uuid name (Suc n) (off + ?len) (chunks_of OBJ_CHUNK_SZ ?rest)"
      using less.hyps [of ?rest "Suc n" "off + ?len"] False by (simp only: length_drop) simp
    then show ?thesis
      using False last by (simp add: file_chunks_step chunks_of_step mk_chunk_def add_ac)
  qed simp
qed

lemma send_required_file_pieces:
  assumes "req_files_send_idx s < length (cs_required_files s)"
    and "cs_required_files s ! req_files_send_idx s = name" "cfs name = Some content" "sendable content"
  shows "send_required_file cfs s =
    s\<lparr>cs_out_msgs := cs_out_msgs s @ map CFileChunkUpload (chunk_seq (cs_session_uuid s) name 0 0 (pieces content)),
      req_files_send_idx := req_files_send_idx s + 1\<rparr>"
proof (cases "content = []")
  case True
  then show ?thesis
    using assms by (simp add: send_required_file_def fold_cli_send_msg pieces_def mk_chunk_def)
next
  case False
  then show ?thesis
    using assms send_required_file_sends [where fs = cfs, OF assms(1-3) False] file_chunks_chunk_seq [of content _ _ 0 0]
    by (simp add: pieces_def sendable_def)
qed

text \<open>When the client's session sends the next required file and the server's session handles
  those messages, the server's copy of the file has the client's bytes, whatever their number and
  content (as long as the number is not a positive multiple of 65536), the file's status becomes
  available, no other file's status or content changes, the client is told so in one message, and the
  session's compilation is requested when this was its last missing file.\<close>

theorem upload_end_to_end:
  assumes "req_files_send_idx s < length (cs_required_files s)" "cs_required_files s ! req_files_send_idx s = name"
    and "cfs name = Some content" "sendable content" "length content < 2 ^ 64"
    and "get_session view (cs_session_uuid s) = Some ss" "client_file_states view name = Some cur"
    and "file_sz_bytes cur = u64_size content" "file_transfer_states ss (server_file_path cur) = None"
    and "openable (server_file_path cur)"
  shows "\<exists>msgs view' be' ss'. cs_out_msgs (send_required_file cfs s) = cs_out_msgs s @ msgs
    \<and> handle_server_session openable sha now (cs_session_uuid s) msgs view be = Inr (True, view', be')
    \<and> files be' (server_file_path cur) = Some content
    \<and> (\<forall>q. q \<noteq> server_file_path cur \<longrightarrow> files be' q = files be q)
    \<and> client_file_states view' = (client_file_states view)(name \<mapsto> cur\<lparr>file_status := FILE_STATUS_AVAILABLE\<rparr>)
    \<and> get_session view' (cs_session_uuid s) = Some ss'
    \<and> out_msgs ss' = out_msgs ss @ [SFileUpComplete (cs_session_uuid s) name True]
    \<and> is_compiler_running ss' = (is_compiler_running ss \<or> all_there view' ss)"
proof -
  let ?uuid = "cs_session_uuid s"
  obtain view' be' where "handle_server_session openable sha now ?uuid
        (map CFileChunkUpload (chunk_seq ?uuid name 0 0 (pieces content))) view be = Inr (True, view', be')"
      "upload_done ?uuid name cur content ss view be view' be'"
    using upload_file [where openable = openable and ds = "pieces content" and be = be, OF assms(7,6,9,10)] assms(5,8)
    by fastforce
  then show ?thesis
    using send_required_file_pieces [where cfs = cfs, OF assms(1-4)] by (auto simp: upload_done_def)
qed

text \<open>When the size is a positive multiple of the buffer, no chunk is marked as the last one: the
  server never finishes the file.\<close>

lemma multiple_of_buffer_never_finishes:
  assumes "content \<noteq> []" "OBJ_CHUNK_SZ dvd length content"
  shows "\<forall>c \<in> set (file_chunks uuid name seq off content). \<not> fc_is_last_chunk c"
  using assms
proof (induction "length content" arbitrary: content seq off rule: less_induct)
  case less
  then have le: "OBJ_CHUNK_SZ \<le> length content" by (auto dest: dvd_imp_le)
  let ?rest = "drop OBJ_CHUNK_SZ content"
  have "\<forall>c \<in> set (file_chunks uuid name (seq + 1) off' ?rest). \<not> fc_is_last_chunk c" for off'
    using less.hyps [of ?rest] less.prems le by (cases "?rest = []") (auto simp: dvd_minus_self)
  then show ?case using less.prems le by (simp add: file_chunks_step)
qed

section \<open>All required files\<close>

text \<open>
  Rounds of the protocol: the server handles what the client has sent since the last round, then
  the client handles what the server has sent in response.
\<close>

fun exchange ::
    "nat \<Rightarrow> (string \<Rightarrow> bool) \<Rightarrow> (string \<Rightarrow> string) \<Rightarrow> nat \<Rightarrow> process_runner \<Rightarrow> client_message list
      \<Rightarrow> client_session \<Rightarrow> client_reg \<Rightarrow> file_store \<Rightarrow> client_view \<Rightarrow> backend
      \<Rightarrow> (client_message list \<times> client_session \<times> client_reg \<times> file_store \<times> client_view \<times> backend) result" where
  "exchange 0 openable sha now run pending s reg cfs view be = Inr (pending, s, reg, cfs, view, be)"
| "exchange (Suc n) openable sha now run pending s reg cfs view be =
     (case get_session view (cs_session_uuid s) of
        None \<Rightarrow> Inl Undefined
      | Some ss \<Rightarrow>
          bind_r (handle_server_session openable sha now (cs_session_uuid s) pending view be) (\<lambda>(go_on, view', be').
            let answers = (case get_session view' (cs_session_uuid s) of None \<Rightarrow> []
                             | Some ss' \<Rightarrow> drop (length (out_msgs ss)) (out_msgs ss'));
                (s', reg', cfs') = client_session_loop run answers s reg cfs
            in exchange n openable sha now run (drop (length (cs_out_msgs s)) (cs_out_msgs s')) s' reg' cfs' view' be'))"

text \<open>What the two sides know about each other when the server has confirmed a session: the client
  can read every requested file, the server expects its size, can create it, and has not received any
  of it; the files lie at different places on the server.\<close>

definition uploadable :: "(string \<Rightarrow> bool) \<Rightarrow> file_store \<Rightarrow> client_view \<Rightarrow> server_session \<Rightarrow> string \<Rightarrow> bool" where
  "uploadable openable cfs view ss p \<longleftrightarrow>
     (\<exists>content cur. cfs p = Some content \<and> sendable content \<and> length content < 2 ^ 64 \<and>
        client_file_states view p = Some cur \<and> file_sz_bytes cur = u64_size content \<and>
        openable (server_file_path cur) \<and> file_transfer_states ss (server_file_path cur) = None)"

lemma uploadableE:
  assumes "uploadable openable cfs view ss p"
  obtains content cur where "cfs p = Some content" "sendable content" "length content < 2 ^ 64"
    "client_file_states view p = Some cur" "file_sz_bytes cur = u64_size content"
    "openable (server_file_path cur)" "file_transfer_states ss (server_file_path cur) = None"
  using assms by (auto simp: uploadable_def)

definition ready_to_upload ::
    "(string \<Rightarrow> bool) \<Rightarrow> file_store \<Rightarrow> client_view \<Rightarrow> server_session \<Rightarrow> string list \<Rightarrow> bool" where
  "ready_to_upload openable cfs view ss ps \<longleftrightarrow>
     distinct ps \<and>
     (\<forall>p \<in> set ps. uploadable openable cfs view ss p) \<and>
     (\<forall>p \<in> set ps. \<forall>q \<in> set ps. \<forall>c d. client_file_states view p = Some c \<longrightarrow> client_file_states view q = Some d \<longrightarrow>
        server_file_path c = server_file_path d \<longrightarrow> p = q)"

definition uploaded :: "file_store \<Rightarrow> client_view \<Rightarrow> backend \<Rightarrow> string \<Rightarrow> bool" where
  "uploaded cfs view be p \<longleftrightarrow>
     (\<exists>cur. client_file_states view p = Some cur \<and> file_status cur = FILE_STATUS_AVAILABLE \<and>
        files be (server_file_path cur) = cfs p)"

lemma client_loop_file_complete:
  assumes "\<not> cs_terminated s"
  shows "client_session_loop run [SFileUpComplete (cs_session_uuid s) p True] s reg cfs = (send_required_file cfs s, reg, cfs)"
  using assms by (simp add: handle_server_message_def)

lemma send_required_file_frame:
  "cs_session_uuid (send_required_file cfs s) = cs_session_uuid s"
  "cs_terminated (send_required_file cfs s) = cs_terminated s"
  "cs_required_files (send_required_file cfs s) = cs_required_files s"
  by (simp_all add: send_required_file_def fold_cli_send_msg Let_def split: option.split)

lemma send_required_file_none:
  "req_files_send_idx s \<ge> length (cs_required_files s) \<Longrightarrow> send_required_file cfs s = s"
  by (simp add: send_required_file_def)

text \<open>The effect of uploading the files \<open>ps\<close>, with what stays as it was.\<close>

definition server_paths :: "client_view \<Rightarrow> string list \<Rightarrow> string set" where
  "server_paths view ps = {server_file_path cur | p cur. p \<in> set ps \<and> client_file_states view p = Some cur}"

definition upload_outcome ::
    "string \<Rightarrow> file_store \<Rightarrow> string list \<Rightarrow> client_view \<Rightarrow> backend \<Rightarrow> server_session
      \<Rightarrow> client_view \<Rightarrow> backend \<Rightarrow> server_session \<Rightarrow> bool" where
  "upload_outcome uuid cfs ps view be ss view' be' ss' \<longleftrightarrow>
     get_session view' uuid = Some ss'
     \<and> are_args_ready ss' = are_args_ready ss \<and> required_files_state ss' = required_files_state ss
     \<and> (\<forall>q \<in> set ps. uploaded cfs view' be' q)
     \<and> (\<forall>q. q \<notin> set ps \<longrightarrow> client_file_states view' q = client_file_states view q)
     \<and> (\<forall>q. map_option server_file_path (client_file_states view' q) = map_option server_file_path (client_file_states view q))
     \<and> (\<forall>q. q \<notin> server_paths view ps \<longrightarrow> files be' q = files be q)
     \<and> (all_there view' ss' \<longrightarrow> is_compiler_running ss')
     \<and> (is_compiler_running ss' \<longrightarrow> is_compiler_running ss \<or> all_there view' ss')"

lemma server_paths_map:
  assumes "\<forall>q. map_option server_file_path (client_file_states view' q) = map_option server_file_path (client_file_states view q)"
  shows "server_paths view' ps = server_paths view ps"
proof -
  have "server_paths v ps = {x. \<exists>p \<in> set ps. map_option server_file_path (client_file_states v p) = Some x}" for v
    by (auto simp: server_paths_def)
  then show ?thesis by (simp only: assms [rule_format])
qed

lemma upload_outcome_trans:
  assumes "upload_outcome uuid cfs [p] view be ss view1 be1 ss1"
    and "upload_outcome uuid cfs ps view1 be1 ss1 view2 be2 ss2"
    and "p \<notin> set ps" and "\<And>cur. client_file_states view1 p = Some cur \<Longrightarrow> server_file_path cur \<notin> server_paths view1 ps"
  shows "upload_outcome uuid cfs (p # ps) view be ss view2 be2 ss2"
proof -
  have "uploaded cfs view2 be2 p"
    using assms by (auto simp: upload_outcome_def uploaded_def)
  moreover have "server_paths view1 ps = server_paths view ps"
    using assms(1) by (intro server_paths_map) (simp add: upload_outcome_def)
  moreover have "server_paths view (p # ps) = server_paths view [p] \<union> server_paths view ps"
    by (auto simp: server_paths_def)
  moreover have "all_there view2 ss2" if "all_there view1 ss1"
    unfolding all_there_def
  proof (intro conjI ballI)
    show "are_args_ready ss2" using assms(2) that by (simp add: upload_outcome_def all_there_def)
    fix q assume "q \<in> set (required_files_state ss2)"
    then have "file_available view1 q" using assms(2) that by (simp add: upload_outcome_def all_there_def)
    moreover have "q \<in> set ps \<Longrightarrow> uploaded cfs view2 be2 q" "q \<notin> set ps \<Longrightarrow> client_file_states view2 q = client_file_states view1 q"
      using assms(2) by (simp_all add: upload_outcome_def)
    ultimately show "file_available view2 q" by (cases "q \<in> set ps") (auto simp: uploaded_def file_available_def)
  qed
  then have "is_compiler_running ss2 \<longrightarrow> is_compiler_running ss \<or> all_there view2 ss2"
    using assms(1,2) by (auto simp: upload_outcome_def)
  ultimately show ?thesis using assms(1,2) by (simp add: upload_outcome_def)
qed

lemma ready_after_upload:
  assumes "ready_to_upload openable cfs view ss (p # ps)" "client_file_states view p = Some cur"
    and st: "\<And>q. q \<noteq> p \<Longrightarrow> client_file_states view' q = client_file_states view q"
    and ts: "\<And>q. q \<noteq> server_file_path cur \<Longrightarrow> file_transfer_states ss' q = file_transfer_states ss q"
  shows "ready_to_upload openable cfs view' ss' ps"
proof -
  have "uploadable openable cfs view' ss' q" if "q \<in> set ps" for q
  proof -
    have "q \<noteq> p" "uploadable openable cfs view ss q" using assms(1) that by (auto simp: ready_to_upload_def)
    then obtain c cur' where q: "cfs q = Some c" "sendable c" "length c < 2 ^ 64" "client_file_states view q = Some cur'"
        "file_sz_bytes cur' = u64_size c" "openable (server_file_path cur')"
        "file_transfer_states ss (server_file_path cur') = None"
      by (auto elim: uploadableE)
    have "server_file_path cur' \<noteq> server_file_path cur"
      using assms(1,2) that q(4) \<open>q \<noteq> p\<close> unfolding ready_to_upload_def by (meson list.set_intros)
    then show ?thesis using q st [OF \<open>q \<noteq> p\<close>] ts by (auto simp: uploadable_def)
  qed
  moreover have "client_file_states view' q = client_file_states view q" if "q \<in> set ps" for q
    by (intro st) (use assms(1) that in \<open>auto simp: ready_to_upload_def\<close>)
  ultimately show ?thesis using assms(1) by (auto simp: ready_to_upload_def)
qed

text \<open>The files still to come do not lie where the uploaded one does.\<close>

lemma uploaded_path_apart:
  assumes "ready_to_upload openable cfs view ss (p # ps)" "upload_outcome uuid cfs [p] view be ss view1 be1 ss1"
    and "client_file_states view1 p = Some cur"
  shows "server_file_path cur \<notin> server_paths view1 ps"
proof -
  have paths: "\<forall>q. map_option server_file_path (client_file_states view1 q) = map_option server_file_path (client_file_states view q)"
    using assms(2) by (simp add: upload_outcome_def)
  then have "map_option server_file_path (client_file_states view p) = Some (server_file_path cur)"
    using assms(3) by (metis option.simps(9))
  then show ?thesis
    unfolding server_paths_map [OF paths] using assms(1) by (fastforce simp: server_paths_def ready_to_upload_def)
qed

text \<open>One round: the first file of the rest is uploaded and the client sends the next one.\<close>

lemma server_receives_file:
  assumes "ready_to_upload openable cfs view ss (p # ps)" "get_session view uuid = Some ss" "cfs p = Some content"
  obtains view' be' ss' where
    "handle_server_session openable sha now uuid (map CFileChunkUpload (chunk_seq uuid p 0 0 (pieces content))) view be
      = Inr (True, view', be')"
    "ready_to_upload openable cfs view' ss' ps" "upload_outcome uuid cfs [p] view be ss view' be' ss'"
    "out_msgs ss' = out_msgs ss @ [SFileUpComplete uuid p True]"
proof -
  obtain cur where cur: "sendable content" "length content < 2 ^ 64" "client_file_states view p = Some cur"
      "file_sz_bytes cur = u64_size content" "openable (server_file_path cur)"
      "file_transfer_states ss (server_file_path cur) = None"
    using assms(1,3) by (auto simp: ready_to_upload_def elim: uploadableE)
  have "\<exists>view' be'. handle_server_session openable sha now uuid
        (map CFileChunkUpload (chunk_seq uuid p 0 0 (pieces content))) view be = Inr (True, view', be')
      \<and> upload_done uuid p cur content ss view be view' be'"
    using upload_file [where openable = openable and ds = "pieces content" and be = be, OF cur(3) assms(2) cur(6,5)] cur(2,4)
    by simp
  then obtain view' be' where h: "handle_server_session openable sha now uuid
        (map CFileChunkUpload (chunk_seq uuid p 0 0 (pieces content))) view be = Inr (True, view', be')"
      and u: "upload_done uuid p cur content ss view be view' be'"
    by blast
  from u obtain ss' where ss': "get_session view' uuid = Some ss'"
      "out_msgs ss' = out_msgs ss @ [SFileUpComplete uuid p True]"
      "are_args_ready ss' = are_args_ready ss" "required_files_state ss' = required_files_state ss"
      "\<And>q. q \<noteq> server_file_path cur \<Longrightarrow> file_transfer_states ss' q = file_transfer_states ss q"
      "is_compiler_running ss' = (is_compiler_running ss \<or> all_there view' ss)"
    by (auto simp: upload_done_def)
  have st: "client_file_states view' = (client_file_states view)(p \<mapsto> cur\<lparr>file_status := FILE_STATUS_AVAILABLE\<rparr>)"
    using u by (simp add: upload_done_def)
  have "ready_to_upload openable cfs view' ss' ps"
    by (rule ready_after_upload [OF assms(1) cur(3)]) (simp_all add: st ss'(5))
  moreover have "upload_outcome uuid cfs [p] view be ss view' be' ss'"
    using u st ss' cur(3) assms(3)
    by (auto simp: upload_outcome_def uploaded_def upload_done_def all_there_def server_paths_def)
  ultimately show ?thesis using that h ss'(2) by blast
qed

lemma upload_round:
  assumes "ready_to_upload openable cfs view ss (p # ps)" "get_session view (cs_session_uuid s) = Some ss"
    and "\<not> cs_terminated s" "cfs p = Some content"
  obtains view' be' ss' where
    "\<And>n. exchange (Suc n) openable sha now run
       (map CFileChunkUpload (chunk_seq (cs_session_uuid s) p 0 0 (pieces content))) s reg cfs view be =
     exchange n openable sha now run (drop (length (cs_out_msgs s)) (cs_out_msgs (send_required_file cfs s)))
       (send_required_file cfs s) reg cfs view' be'"
    "ready_to_upload openable cfs view' ss' ps"
    "upload_outcome (cs_session_uuid s) cfs [p] view be ss view' be' ss'"
proof -
  let ?uuid = "cs_session_uuid s"
  obtain view' be' ss' where h: "handle_server_session openable sha now ?uuid
        (map CFileChunkUpload (chunk_seq ?uuid p 0 0 (pieces content))) view be = Inr (True, view', be')"
      and r: "ready_to_upload openable cfs view' ss' ps" "upload_outcome ?uuid cfs [p] view be ss view' be' ss'"
      and out: "out_msgs ss' = out_msgs ss @ [SFileUpComplete ?uuid p True]"
    by (rule server_receives_file [where sha = sha and now = now and be = be, OF assms(1,2,4)])
  have "get_session view' ?uuid = Some ss'" using r(2) by (simp add: upload_outcome_def)
  then have "exchange (Suc n) openable sha now run
       (map CFileChunkUpload (chunk_seq ?uuid p 0 0 (pieces content))) s reg cfs view be =
     exchange n openable sha now run (drop (length (cs_out_msgs s)) (cs_out_msgs (send_required_file cfs s)))
       (send_required_file cfs s) reg cfs view' be'" for n
    using assms(2) h out client_loop_file_complete [OF assms(3)] by (simp del: client_session_loop.simps)
  then show ?thesis using r by (rule that)
qed

lemma upload_rounds:
  assumes "ready_to_upload openable cfs view ss (p # ps)" "get_session view (cs_session_uuid s) = Some ss"
    and "\<not> cs_terminated s" "cfs p = Some content"
    and "cs_required_files s = done @ p # ps" "req_files_send_idx s = Suc (length done)"
  shows "\<exists>s' view' be' ss'. exchange (length (p # ps)) openable sha now run
       (map CFileChunkUpload (chunk_seq (cs_session_uuid s) p 0 0 (pieces content))) s reg cfs view be
         = Inr ([], s', reg, cfs, view', be')
     \<and> upload_outcome (cs_session_uuid s) cfs (p # ps) view be ss view' be' ss'"
  using assms
proof (induction ps arbitrary: p content s view be ss "done")
  case Nil
  obtain view' be' ss' where r: "\<And>n. exchange (Suc n) openable sha now run
       (map CFileChunkUpload (chunk_seq (cs_session_uuid s) p 0 0 (pieces content))) s reg cfs view be =
     exchange n openable sha now run (drop (length (cs_out_msgs s)) (cs_out_msgs (send_required_file cfs s)))
       (send_required_file cfs s) reg cfs view' be'"
    "ready_to_upload openable cfs view' ss' []"
    "upload_outcome (cs_session_uuid s) cfs [p] view be ss view' be' ss'"
    by (rule upload_round [where openable = openable and cfs = cfs and sha = sha and now = now and run = run
          and reg = reg and be = be, OF Nil.prems(1-4)]) (rule that)
  have "send_required_file cfs s = s" using Nil.prems by (intro send_required_file_none) simp
  then show ?case using r(1) [of 0] r(3) by (auto simp del: exchange.simps(2))
next
  case (Cons p2 ps)
  obtain view1 be1 ss1 where r: "\<And>n. exchange (Suc n) openable sha now run
       (map CFileChunkUpload (chunk_seq (cs_session_uuid s) p 0 0 (pieces content))) s reg cfs view be =
     exchange n openable sha now run (drop (length (cs_out_msgs s)) (cs_out_msgs (send_required_file cfs s)))
       (send_required_file cfs s) reg cfs view1 be1"
    "ready_to_upload openable cfs view1 ss1 (p2 # ps)"
    "upload_outcome (cs_session_uuid s) cfs [p] view be ss view1 be1 ss1"
    by (rule upload_round [where openable = openable and cfs = cfs and sha = sha and now = now and run = run
          and reg = reg and be = be, OF Cons.prems(1-4)]) (rule that)
  obtain c2 where c2: "cfs p2 = Some c2" "sendable c2"
    using r(2) by (auto simp: ready_to_upload_def elim: uploadableE)
  let ?s1 = "send_required_file cfs s"
  have s1: "?s1 = s\<lparr>cs_out_msgs := cs_out_msgs s @ map CFileChunkUpload (chunk_seq (cs_session_uuid s) p2 0 0 (pieces c2)),
      req_files_send_idx := req_files_send_idx s + 1\<rparr>"
    using Cons.prems c2 by (intro send_required_file_pieces) (simp_all add: nth_append)
  have "get_session view1 (cs_session_uuid s) = Some ss1" using r(3) by (simp add: upload_outcome_def)
  then obtain s' view' be' ss' where f: "exchange (length (p2 # ps)) openable sha now run
       (map CFileChunkUpload (chunk_seq (cs_session_uuid s) p2 0 0 (pieces c2))) ?s1 reg cfs view1 be1
         = Inr ([], s', reg, cfs, view', be')"
     "upload_outcome (cs_session_uuid s) cfs (p2 # ps) view1 be1 ss1 view' be' ss'"
    using Cons.IH [of view1 ss1 p2 ?s1 c2 "done @ [p]" be1] r(2) Cons.prems(3,5,6) c2(1) s1 by auto
  have p: "p \<notin> set (p2 # ps)" using Cons.prems(1) by (simp add: ready_to_upload_def)
  have "upload_outcome (cs_session_uuid s) cfs (p # p2 # ps) view be ss view' be' ss'"
    by (rule upload_outcome_trans [OF r(3) f(2) p uploaded_path_apart [OF Cons.prems(1) r(3)]])
  moreover have "exchange (length (p # p2 # ps)) openable sha now run
       (map CFileChunkUpload (chunk_seq (cs_session_uuid s) p 0 0 (pieces content))) s reg cfs view be
      = Inr ([], s', reg, cfs, view', be')"
    using r(1) [of "length (p2 # ps)"] f(1) s1 by (simp del: exchange.simps)
  ultimately show ?case by blast
qed

lemma uploads_complete:
  assumes "are_args_ready ss" "\<forall>p \<in> set (required_files_state ss). p \<in> set ps \<or> file_available view p"
    and o: "upload_outcome uuid cfs ps view be ss view' be' ss'"
  shows "is_compiler_running ss'"
proof -
  have "file_available view' p" if "p \<in> set (required_files_state ss)" for p
  proof (cases "p \<in> set ps")
    case True
    then show ?thesis using o by (auto simp: upload_outcome_def uploaded_def file_available_def)
  next
    case False
    then show ?thesis using assms(2) that o by (auto simp: upload_outcome_def file_available_def)
  qed
  then have "all_there view' ss'" using o assms(1) by (simp add: upload_outcome_def all_there_def)
  then show ?thesis using o by (simp add: upload_outcome_def)
qed

lemma all_files_outcome:
  assumes "ready_to_upload openable cfs view ss (cs_required_files s)" "cs_required_files s \<noteq> []"
    and "req_files_send_idx s = 0" "\<not> cs_terminated s" "cs_out_msgs s = []"
    and "get_session view (cs_session_uuid s) = Some ss" "are_args_ready ss"
    and "\<forall>p \<in> set (required_files_state ss). p \<in> set (cs_required_files s) \<or> file_available view p"
  shows "\<exists>s' view' be' ss'.
      exchange (length (cs_required_files s)) openable sha now run (cs_out_msgs (send_required_file cfs s))
        (send_required_file cfs s) reg cfs view be = Inr ([], s', reg, cfs, view', be')
      \<and> upload_outcome (cs_session_uuid s) cfs (cs_required_files s) view be ss view' be' ss' \<and> is_compiler_running ss'"
proof -
  obtain p ps where ps: "cs_required_files s = p # ps" using assms(2) by (cases "cs_required_files s") auto
  obtain content where c: "cfs p = Some content" "sendable content"
    using assms(1) ps by (auto simp: ready_to_upload_def elim: uploadableE)
  let ?s1 = "send_required_file cfs s"
  have s1: "?s1 = s\<lparr>cs_out_msgs := map CFileChunkUpload (chunk_seq (cs_session_uuid s) p 0 0 (pieces content)),
      req_files_send_idx := 1\<rparr>"
    using send_required_file_pieces [of s p cfs content] assms(3,5) ps c by simp
  have "ready_to_upload openable cfs view ss (p # ps)" "get_session view (cs_session_uuid ?s1) = Some ss"
    "\<not> cs_terminated ?s1" "cs_required_files ?s1 = [] @ p # ps" "req_files_send_idx ?s1 = Suc (length [])"
    using assms(1,4,6) ps s1 by simp_all
  from upload_rounds [where openable = openable and cfs = cfs and sha = sha and now = now and run = run and reg = reg
      and be = be, OF this(1-3) c(1) this(4,5)] s1
  obtain s' view' be' ss' where e: "exchange (length (p # ps)) openable sha now run (cs_out_msgs ?s1) ?s1 reg cfs view be
         = Inr ([], s', reg, cfs, view', be')"
     and o: "upload_outcome (cs_session_uuid s) cfs (p # ps) view be ss view' be' ss'"
    by auto
  have "is_compiler_running ss'"
    by (rule uploads_complete [OF assms(7) _ o]) (use assms(8) ps in auto)
  then show ?thesis using e o ps by auto
qed

text \<open>A confirmed session gets all its files: when the client can read every file the server
  asked for, the session starts by sending the first one and, after as many rounds as there are
  files, the server has a byte-identical copy of each of them, all are available, the other files of
  the server are untouched, nothing is left to send, and, if the session's remaining required files
  were available, its compilation has been requested.\<close>

theorem session_uploads_all_files:
  assumes "ready_to_upload openable cfs view ss (cs_required_files s)" "cs_required_files s \<noteq> []"
    and "req_files_send_idx s = 0" "\<not> cs_terminated s" "cs_out_msgs s = []"
    and "get_session view (cs_session_uuid s) = Some ss" "are_args_ready ss"
    and "\<forall>p \<in> set (required_files_state ss). p \<in> set (cs_required_files s) \<or> file_available view p"
  shows "\<exists>s' view' be' ss'.
      exchange (length (cs_required_files s)) openable sha now run (cs_out_msgs (send_required_file cfs s))
        (send_required_file cfs s) reg cfs view be = Inr ([], s', reg, cfs, view', be')
      \<and> (\<forall>p \<in> set (cs_required_files s). \<exists>cur. client_file_states view' p = Some cur
            \<and> file_status cur = FILE_STATUS_AVAILABLE \<and> files be' (server_file_path cur) = cfs p)
      \<and> (\<forall>q. q \<notin> server_paths view (cs_required_files s) \<longrightarrow> files be' q = files be q)
      \<and> get_session view' (cs_session_uuid s) = Some ss' \<and> is_compiler_running ss'"
  using all_files_outcome [where openable = openable and sha = sha and now = now and run = run and reg = reg and be = be, OF assms]
  unfolding upload_outcome_def uploaded_def by blast

section \<open>The object file from the server to the client\<close>

text \<open>Folding the server's result messages into a client session that waits for them.\<close>

definition awaiting_obj :: "string \<Rightarrow> client_session \<Rightarrow> file_store \<Rightarrow> bool" where
  "awaiting_obj got s fs \<longleftrightarrow>
     \<not> cs_terminated s \<and>
     (\<exists>ts. cs_transfer s = Some ts \<and> \<not> ot_is_finished ts \<and> ot_session_id ts = cs_session_uuid s \<and>
        is_open (obj_out_stream ts) \<and> stream_path (obj_out_stream ts) = ot_filename ts \<and>
        stream_pos (obj_out_stream ts) = length got \<and> fs (ot_filename ts) = Some got)"

definition obj_path :: "client_session \<Rightarrow> string" where
  "obj_path s = (case cs_transfer s of None \<Rightarrow> [] | Some ts \<Rightarrow> ot_filename ts)"

lemma obj_chunk_appended:
  assumes "awaiting_obj got s fs" "oc_session_id msg = cs_session_uuid s" "\<not> oc_is_last_chunk msg"
  obtains s' where "handle_server_message run (SObjFileChunk msg) s reg fs = (True, s', reg, fs(obj_path s \<mapsto> got @ oc_data msg))"
    "awaiting_obj (got @ oc_data msg) s' (fs(obj_path s \<mapsto> got @ oc_data msg))"
    "obj_path s' = obj_path s" "cs_session_uuid s' = cs_session_uuid s" "unix_ipc_channel s' = unix_ipc_channel s"
    "cs_out_msgs s' = cs_out_msgs s"
proof -
  obtain ts where ts: "cs_transfer s = Some ts" "\<not> ot_is_finished ts" "ot_session_id ts = cs_session_uuid s"
      "is_open (obj_out_stream ts)" "stream_path (obj_out_stream ts) = ot_filename ts"
      "stream_pos (obj_out_stream ts) = length got" "fs (ot_filename ts) = Some got" "\<not> cs_terminated s"
    using assms(1) by (auto simp: awaiting_obj_def)
  have "stream_write (obj_out_stream ts) (oc_data msg) fs =
      ((obj_out_stream ts)\<lparr>stream_pos := length (got @ oc_data msg)\<rparr>, fs(ot_filename ts \<mapsto> got @ oc_data msg))"
    using stream_write_append [of "obj_out_stream ts" fs got "oc_data msg"] ts by simp
  then show ?thesis
    using that [of "s\<lparr>cs_transfer := Some (ts\<lparr>obj_out_stream := (obj_out_stream ts)\<lparr>stream_pos := length (got @ oc_data msg)\<rparr>\<rparr>)\<rparr>"]
      ts assms(2,3) by (simp add: handle_server_message_def process_obj_file_chunk_def awaiting_obj_def obj_path_def)
qed

lemma obj_chunk_last:
  assumes "awaiting_obj got s fs" "oc_session_id msg = cs_session_uuid s" "oc_is_last_chunk msg"
  obtains s' where "handle_server_message run (SObjFileChunk msg) s reg fs = (True, s', reg, fs(obj_path s \<mapsto> got @ oc_data msg))"
    "unix_ipc_channel s' = unix_ipc_channel s
       @ [mk_response (oc_compiler_exit_code msg) (oc_compiler_stderr msg) (oc_compiler_stdout msg)]"
    "cs_out_msgs s' = cs_out_msgs s"
proof -
  obtain ts where ts: "cs_transfer s = Some ts" "\<not> ot_is_finished ts" "ot_session_id ts = cs_session_uuid s"
      "is_open (obj_out_stream ts)" "stream_path (obj_out_stream ts) = ot_filename ts"
      "stream_pos (obj_out_stream ts) = length got" "fs (ot_filename ts) = Some got" "\<not> cs_terminated s"
    using assms(1) by (auto simp: awaiting_obj_def)
  have w: "stream_write (obj_out_stream ts) (oc_data msg) fs =
      ((obj_out_stream ts)\<lparr>stream_pos := length (got @ oc_data msg)\<rparr>, fs(ot_filename ts \<mapsto> got @ oc_data msg))"
    using stream_write_append [of "obj_out_stream ts" fs got "oc_data msg"] ts by simp
  then obtain s' where "process_obj_file_chunk msg s fs = (True, s', fs(obj_path s \<mapsto> got @ oc_data msg))"
      "unix_ipc_channel s' = unix_ipc_channel s
       @ [mk_response (oc_compiler_exit_code msg) (oc_compiler_stderr msg) (oc_compiler_stdout msg)]"
      "cs_out_msgs s' = cs_out_msgs s"
    using ts assms(2,3)
    by (simp add: process_obj_file_chunk_def publish_unix_ipc_response_def set_call_results_def obj_path_def)
  then show ?thesis using that [of s'] by (simp add: handle_server_message_def)
qed

lemma obj_chunks_step:
  "rest \<noteq> [] \<Longrightarrow> obj_chunks ss sz rest =
     (let chunk = (build_msg ss)\<lparr>oc_filesize := sz, oc_data := take CHUNK_SIZE rest, oc_is_last_chunk := (length rest < CHUNK_SIZE)\<rparr>
      in (if length rest < CHUNK_SIZE
          then chunk\<lparr>oc_compiler_stdout := ses_stdout ss, oc_compiler_stderr := ses_stderr ss\<rparr> else chunk))
     # obj_chunks ss sz (drop CHUNK_SIZE rest)"
  by (subst obj_chunks.simps) (auto simp: Let_def CHUNK_SIZE_def)

lemma obj_chunks_Nil [simp]: "obj_chunks ss sz [] = []"
  by (subst obj_chunks.simps) simp

lemma client_receives_obj_chunks:
  assumes "awaiting_obj got s fs" "session_uuid ss = cs_session_uuid s"
    and "rest \<noteq> []" "\<not> CHUNK_SIZE dvd length rest"
  shows "\<exists>s'. client_session_loop run (map SObjFileChunk (obj_chunks ss sz rest)) s reg fs
           = (s', reg, fs(obj_path s \<mapsto> got @ rest))
         \<and> unix_ipc_channel s' = unix_ipc_channel s @ [mk_response (ses_exit_code ss) (ses_stderr ss) (ses_stdout ss)]
         \<and> cs_out_msgs s' = cs_out_msgs s"
  using assms
proof (induction "length rest" arbitrary: rest got s fs rule: less_induct)
  case less
  have running: "\<not> cs_terminated s" using less.prems(1) by (simp add: awaiting_obj_def)
  show ?case
  proof (cases "length rest < CHUNK_SIZE")
    case True
    define msg where "msg = (build_msg ss)\<lparr>oc_filesize := sz, oc_data := rest, oc_is_last_chunk := True,
        oc_compiler_stdout := ses_stdout ss, oc_compiler_stderr := ses_stderr ss\<rparr>"
    have msg: "oc_session_id msg = cs_session_uuid s" "oc_is_last_chunk msg" "oc_data msg = rest"
      "oc_compiler_exit_code msg = ses_exit_code ss" "oc_compiler_stdout msg = ses_stdout ss" "oc_compiler_stderr msg = ses_stderr ss"
      using less.prems(2) by (simp_all add: msg_def build_msg_def)
    have "obj_chunks ss sz rest = [msg]"
      using True less.prems(3) by (simp add: obj_chunks_step msg_def Let_def)
    moreover obtain s' where "handle_server_message run (SObjFileChunk msg) s reg fs = (True, s', reg, fs(obj_path s \<mapsto> got @ rest))"
      "unix_ipc_channel s' = unix_ipc_channel s @ [mk_response (ses_exit_code ss) (ses_stderr ss) (ses_stdout ss)]"
      "cs_out_msgs s' = cs_out_msgs s"
      using obj_chunk_last [OF less.prems(1) msg(1,2), of run reg] msg(3-6) by metis
    ultimately show ?thesis using running by simp
  next
    case False
    define msg where "msg = (build_msg ss)\<lparr>oc_filesize := sz, oc_data := take CHUNK_SIZE rest, oc_is_last_chunk := False\<rparr>"
    have msg: "oc_session_id msg = cs_session_uuid s" "\<not> oc_is_last_chunk msg" "oc_data msg = take CHUNK_SIZE rest"
      using less.prems(2) by (simp_all add: msg_def build_msg_def)
    have chunks: "obj_chunks ss sz rest = msg # obj_chunks ss sz (drop CHUNK_SIZE rest)"
      using False less.prems(3) by (simp add: obj_chunks_step msg_def Let_def)
    let ?fs1 = "fs(obj_path s \<mapsto> got @ take CHUNK_SIZE rest)"
    obtain s1 where s1: "handle_server_message run (SObjFileChunk msg) s reg fs = (True, s1, reg, ?fs1)"
      "awaiting_obj (got @ take CHUNK_SIZE rest) s1 ?fs1"
      "obj_path s1 = obj_path s" "cs_session_uuid s1 = cs_session_uuid s" "unix_ipc_channel s1 = unix_ipc_channel s"
      "cs_out_msgs s1 = cs_out_msgs s"
      using obj_chunk_appended [OF less.prems(1) msg(1,2), of run reg] msg(3) by metis
    have "drop CHUNK_SIZE rest \<noteq> []" "\<not> CHUNK_SIZE dvd length (drop CHUNK_SIZE rest)"
      using less.prems(4) False by (auto simp: dvd_minus_self le_less)
    moreover have "length (drop CHUNK_SIZE rest) < length rest" using less.prems(3) by (simp add: CHUNK_SIZE_def)
    ultimately obtain s' where "client_session_loop run (map SObjFileChunk (obj_chunks ss sz (drop CHUNK_SIZE rest))) s1 reg ?fs1
          = (s', reg, ?fs1(obj_path s1 \<mapsto> (got @ take CHUNK_SIZE rest) @ drop CHUNK_SIZE rest))"
        "unix_ipc_channel s' = unix_ipc_channel s1 @ [mk_response (ses_exit_code ss) (ses_stderr ss) (ses_stdout ss)]"
        "cs_out_msgs s' = cs_out_msgs s1"
      using less.hyps [OF _ s1(2)] less.prems(2) s1(4) by metis
    then show ?thesis using chunks s1 running by simp
  qed
qed

lemma result_msgs_received:
  assumes "awaiting_obj [] s fs" "session_uuid ss = cs_session_uuid s"
    and "ses_exit_code ss = 0" "sfs (out_obj_file ss) = Some content"
    and "content \<noteq> []" "\<not> CHUNK_SIZE dvd length content"
  obtains s' r where "client_session_loop run (compilation_result_msgs sfs ss) s reg fs = (s', reg, fs(obj_path s \<mapsto> content))"
    "unix_ipc_channel s' = unix_ipc_channel s @ [r]" "compiler_exit_code r = 0"
    "r = mk_response 0 (ses_stderr ss) (ses_stdout ss)" "cs_out_msgs s' = cs_out_msgs s"
proof -
  obtain s' where "client_session_loop run (map SObjFileChunk (obj_chunks ss (u64_size content) content)) s reg fs
           = (s', reg, fs(obj_path s \<mapsto> [] @ content))"
      "unix_ipc_channel s' = unix_ipc_channel s @ [mk_response (ses_exit_code ss) (ses_stderr ss) (ses_stdout ss)]"
      "cs_out_msgs s' = cs_out_msgs s"
    using client_receives_obj_chunks [OF assms(1,2,5,6)] by blast
  then show ?thesis using that assms(3,4) by (simp add: compilation_result_msgs_def mk_response_def)
qed

text \<open>When a compilation succeeded and the client's session handles the messages that
  \<open>send_compilation_result\<close> produces, the client's object file ends with the bytes of the
  server's, whatever they are (as long as their number is not a multiple of 65536), no other file of
  the client changes, and the wrapper is handed exactly one response, with the compiler's exit code.\<close>

theorem object_file_returned:
  assumes "awaiting_obj [] s fs" "session_uuid ss = cs_session_uuid s"
    and "ses_exit_code ss = 0" "sfs (out_obj_file ss) = Some content"
    and "content \<noteq> []" "\<not> CHUNK_SIZE dvd length content"
  shows "\<exists>s' r. client_session_loop run (compilation_result_msgs sfs ss) s reg fs = (s', reg, fs(obj_path s \<mapsto> content))
    \<and> unix_ipc_channel s' = unix_ipc_channel s @ [r] \<and> compiler_exit_code r = 0"
  using result_msgs_received [where run = run and reg = reg and sfs = sfs and ss = ss, OF assms] by metis

text \<open>The response carries the two output streams of the compiler in exchanged places.\<close>

lemma response_streams_swapped:
  assumes "awaiting_obj got s fs" "oc_session_id msg = cs_session_uuid s" "oc_is_last_chunk msg"
  shows "\<exists>s' fs' r. process_obj_file_chunk msg s fs = (True, s', fs') \<and> unix_ipc_channel s' = unix_ipc_channel s @ [r]
    \<and> stdout_content r = oc_compiler_stderr msg \<and> stderr_content r = oc_compiler_stdout msg"
  using assms by (auto simp: awaiting_obj_def process_obj_file_chunk_def publish_unix_ipc_response_def
      set_call_results_def mk_response_def split: prod.split)

text \<open>An object file whose size is a multiple of the buffer, the empty one included, is sent
  without a last chunk: the wrapper gets no response.\<close>

lemma obj_multiple_never_finishes:
  assumes "CHUNK_SIZE dvd length content"
  shows "\<forall>c \<in> set (obj_chunks ss sz content). \<not> oc_is_last_chunk c"
  using assms
proof (induction "length content" arbitrary: content rule: less_induct)
  case less
  show ?case
  proof (cases "content = []")
    case False
    then have le: "CHUNK_SIZE \<le> length content" using less.prems by (auto dest: dvd_imp_le)
    have "\<forall>c \<in> set (obj_chunks ss sz (drop CHUNK_SIZE content)). \<not> oc_is_last_chunk c"
      using less.hyps [of "drop CHUNK_SIZE content"] less.prems le False by (auto simp: dvd_minus_self CHUNK_SIZE_def)
    then show ?thesis using False le by (simp add: obj_chunks_step)
  qed simp
qed

section \<open>An example session\<close>

definition ex_content :: string where "ex_content = ''int x;''"

definition ex_cur :: file_state_view where
  "ex_cur = new_file_state_view (u64_size ex_content) [] ''/w/a.c''"

definition ex_rqst :: session_start_request where
  "ex_rqst = \<lparr>ss_client_id = ''c'', ss_client_working_dir = ''/'', ss_client_source_file = ''/a.c'',
     ss_client_compiler = ''g'', ss_client_cmd_line_args = [], ss_client_idirs = [], ss_required_files_info = []\<rparr>"

definition ex_ss :: server_session where
  "ex_ss = (new_server_session ''g'' (new_client_view ''c'' ''/w'' 0) ''u'' ex_rqst)
     \<lparr>are_args_ready := True, required_files_state := [''/a.c''], out_obj_file := ''/o''\<rparr>"

definition ex_view :: client_view where
  "ex_view = (new_client_view ''c'' ''/w'' 0)
     \<lparr>client_file_states := [''/a.c'' \<mapsto> ex_cur], associated_sessions := [(''u'', ex_ss)]\<rparr>"

definition ex_cli :: client_session where
  "ex_cli = (new_client_session ''u'' (new_compiler_call (new_dep_files_state False False False)))
     \<lparr>cs_required_files := [''/a.c'']\<rparr>"

definition ex_be :: backend where
  "ex_be = \<lparr>manager = new_compiler_manager 1, files = Map.empty, made_dirs = []\<rparr>"

lemmas ex_defs = ex_content_def ex_cur_def ex_rqst_def ex_ss_def ex_view_def ex_cli_def new_file_state_view_def
  new_server_session_def new_client_view_def new_client_session_def

lemma ex_sendable: "sendable ex_content" "length ex_content < 2 ^ 64"
  by (simp_all add: ex_content_def sendable_def OBJ_CHUNK_SZ_def nat_dvd_not_less)

lemma ex_session: "get_session ex_view ''u'' = Some ex_ss"
  by (simp add: ex_view_def get_session_def)

lemma ex_view_state: "client_file_states ex_view ''/a.c'' = Some ex_cur"
  by (simp add: ex_view_def)

lemma ex_ready: "ready_to_upload (\<lambda>_. True) [''/a.c'' \<mapsto> ex_content] ex_view ex_ss [''/a.c'']"
  using ex_sendable by (simp add: ready_to_upload_def uploadable_def ex_view_state)
    (simp add: ex_ss_def new_server_session_def ex_cur_def new_file_state_view_def)

theorem upload_end_to_end_witness:
  "\<exists>msgs view' be' ss'. cs_out_msgs (send_required_file [''/a.c'' \<mapsto> ex_content] ex_cli) = cs_out_msgs ex_cli @ msgs
    \<and> handle_server_session (\<lambda>_. True) id 0 (cs_session_uuid ex_cli) msgs ex_view ex_be = Inr (True, view', be')
    \<and> files be' (server_file_path ex_cur) = Some ex_content
    \<and> (\<forall>q. q \<noteq> server_file_path ex_cur \<longrightarrow> files be' q = files ex_be q)
    \<and> client_file_states view' = (client_file_states ex_view)(''/a.c'' \<mapsto> ex_cur\<lparr>file_status := FILE_STATUS_AVAILABLE\<rparr>)
    \<and> get_session view' (cs_session_uuid ex_cli) = Some ss'
    \<and> out_msgs ss' = out_msgs ex_ss @ [SFileUpComplete (cs_session_uuid ex_cli) ''/a.c'' True]
    \<and> is_compiler_running ss' = (is_compiler_running ex_ss \<or> all_there view' ex_ss)"
proof (rule upload_end_to_end)
  show "get_session ex_view (cs_session_uuid ex_cli) = Some ex_ss"
    using ex_session by (simp add: ex_cli_def new_client_session_def)
  show "file_transfer_states ex_ss (server_file_path ex_cur) = None"
    by (simp add: ex_ss_def new_server_session_def)
  show "file_sz_bytes ex_cur = u64_size ex_content" by (simp add: ex_cur_def new_file_state_view_def)
qed (use ex_sendable ex_view_state in \<open>simp_all add: ex_cli_def new_client_session_def\<close>)

theorem session_uploads_all_files_witness:
  "\<exists>s' view' be' ss'.
      exchange (length (cs_required_files ex_cli)) (\<lambda>_. True) id 0 (\<lambda>c as d. (0, [], []))
        (cs_out_msgs (send_required_file [''/a.c'' \<mapsto> ex_content] ex_cli))
        (send_required_file [''/a.c'' \<mapsto> ex_content] ex_cli)
        \<lparr>reg_client_uuid = ''c'', client_sessions = {}, client_compiler_calls = {}\<rparr> [''/a.c'' \<mapsto> ex_content] ex_view ex_be
        = Inr ([], s', \<lparr>reg_client_uuid = ''c'', client_sessions = {}, client_compiler_calls = {}\<rparr>,
               [''/a.c'' \<mapsto> ex_content], view', be')
      \<and> (\<forall>p \<in> set (cs_required_files ex_cli). \<exists>cur. client_file_states view' p = Some cur
            \<and> file_status cur = FILE_STATUS_AVAILABLE \<and> files be' (server_file_path cur) = [''/a.c'' \<mapsto> ex_content] p)
      \<and> (\<forall>q. q \<notin> server_paths ex_view (cs_required_files ex_cli) \<longrightarrow> files be' q = files ex_be q)
      \<and> get_session view' (cs_session_uuid ex_cli) = Some ss' \<and> is_compiler_running ss'"
proof (rule session_uploads_all_files)
  show "ready_to_upload (\<lambda>_. True) [''/a.c'' \<mapsto> ex_content] ex_view ex_ss (cs_required_files ex_cli)"
    using ex_ready by (simp add: ex_cli_def new_client_session_def)
  show "get_session ex_view (cs_session_uuid ex_cli) = Some ex_ss"
    using ex_session by (simp add: ex_cli_def new_client_session_def)
  show "\<forall>p \<in> set (required_files_state ex_ss). p \<in> set (cs_required_files ex_cli) \<or> file_available ex_view p"
    by (simp add: ex_ss_def ex_cli_def)
qed (simp_all add: ex_cli_def ex_ss_def new_client_session_def)

definition ex_waiting :: client_session where
  "ex_waiting = ex_cli\<lparr>cs_transfer := Some (fst (new_obj_file_transfer_state (\<lambda>_. True) ''u'' ''/a.o'' Map.empty))\<rparr>"

lemma ex_awaiting: "awaiting_obj [] ex_waiting [''/a.o'' \<mapsto> []]"
  by (simp add: awaiting_obj_def ex_waiting_def ex_cli_def new_client_session_def new_obj_file_transfer_state_def open_out_def)

theorem object_file_returned_witness:
  "\<exists>s' r. client_session_loop (\<lambda>c as d. (0, [], [])) (compilation_result_msgs [''/o'' \<mapsto> ex_content] ex_ss) ex_waiting
        \<lparr>reg_client_uuid = ''c'', client_sessions = {}, client_compiler_calls = {}\<rparr> [''/a.o'' \<mapsto> []]
      = (s', \<lparr>reg_client_uuid = ''c'', client_sessions = {}, client_compiler_calls = {}\<rparr>,
         [''/a.o'' \<mapsto> []](obj_path ex_waiting \<mapsto> ex_content))
    \<and> unix_ipc_channel s' = unix_ipc_channel ex_waiting @ [r] \<and> compiler_exit_code r = 0"
proof (rule object_file_returned)
  show "awaiting_obj [] ex_waiting [''/a.o'' \<mapsto> []]" by (rule ex_awaiting)
  show "\<not> CHUNK_SIZE dvd length ex_content" by (simp add: ex_content_def CHUNK_SIZE_def nat_dvd_not_less)
qed (simp_all add: ex_defs ex_waiting_def)

end
