(* ===== verification/Server_Views.thy ===== *)
theory Server_Views
  imports Server_Upload Includes
begin

text \<open>
  The server as a whole: \<open>ClientViewsStorage\<close> (\<open>src/src/client_views_storage.hpp\<close>) and
  \<open>Server::handle_new_connection\<close> (\<open>src/src/server.cpp\<close>), and what the set-up of a session
  by \<open>ClientView::add_session\<close> achieves.

  \<open>valid_uuid\<close> says whether boost's \<open>string_generator\<close> accepts a string; uuids are in their
  canonical form.
\<close>

section \<open>Client views\<close>

record server =
  client_views :: "string \<rightharpoonup> client_view"
  srv_backend :: backend

definition CLIENTS_WORKSPACE :: string where
  "CLIENTS_WORKSPACE = ''/tmp/distbuild/client_storage''"

definition get_client_view :: "string \<Rightarrow> server \<Rightarrow> client_view option" where
  "get_client_view uuid srv = client_views srv uuid"

definition add_client_view :: "(string \<Rightarrow> bool) \<Rightarrow> nat \<Rightarrow> string \<Rightarrow> server \<Rightarrow> client_view result \<times> server" where
  "add_client_view valid_uuid clock uuid srv =
     (case get_client_view uuid srv of
        Some view \<Rightarrow> (Inr view, srv)
      | None \<Rightarrow>
          let path = path_append CLIENTS_WORKSPACE uuid;
              be = srv_backend srv;
              srv1 = srv\<lparr>srv_backend := be\<lparr>made_dirs := made_dirs be @ [path]\<rparr>\<rparr>
          in if \<not> valid_uuid uuid then (Inl (Throw (Runtime_Error ''invalid uuid string'')), srv1)
             else let view = new_client_view uuid path clock
                  in (Inr view, srv1\<lparr>client_views := (client_views srv1)(uuid \<mapsto> view)\<rparr>))"

definition remove_client_view :: "string \<Rightarrow> server \<Rightarrow> server" where
  "remove_client_view uuid srv = srv\<lparr>client_views := (client_views srv)(uuid := None)\<rparr>"

text \<open>\<open>handle_new_connection\<close>: the first message of a connection, or the exception of
  \<open>receive_msg\<close>. An exception ends the connection's coroutine.\<close>

definition handle_new_connection ::
    "(string \<Rightarrow> bool) \<Rightarrow> string \<Rightarrow> nat \<Rightarrow> u64 \<Rightarrow> string \<Rightarrow> client_message result \<Rightarrow> server \<Rightarrow> server result" where
  "handle_new_connection valid_uuid compiler_bin clock epoch suuid first srv =
     (case first of
        Inl (Throw e) \<Rightarrow> Inr srv
      | Inl Undefined \<Rightarrow> Inl Undefined
      | Inr (CSessionStart rqst) \<Rightarrow>
          (case add_client_view valid_uuid clock (ss_client_id rqst) srv of
             (Inl (Throw e), srv1) \<Rightarrow> Inr srv1
           | (Inl Undefined, srv1) \<Rightarrow> Inl Undefined
           | (Inr view, srv1) \<Rightarrow>
               bind_r (add_session compiler_bin epoch suuid rqst view (srv_backend srv1)) (\<lambda>(view', be').
                 Inr (srv1\<lparr>client_views := (client_views srv1)(ss_client_id rqst \<mapsto> view'), srv_backend := be'\<rparr>)))
      | Inr _ \<Rightarrow> Inr srv)"

text \<open>\<open>listen_for_connections\<close>: the results of \<open>async_accept\<close> in turn; every connection gets a
  coroutine of its own. No error is caught, so the first one ends the loop.\<close>

fun listen_for_connections :: "'conn result list \<Rightarrow> 'conn list" where
  "listen_for_connections [] = []"
| "listen_for_connections (Inr conn # accepted) = conn # listen_for_connections accepted"
| "listen_for_connections (Inl e # accepted) = []"

lemma accept_error_ends_server:
  "listen_for_connections (map Inr cs @ Inl e # accepted) = cs"
  by (induction cs) simp_all

section \<open>Include directories on the server\<close>

definition map_dirs :: "(string \<Rightarrow> string) \<Rightarrow> cmd_line_include_dirs \<Rightarrow> cmd_line_include_dirs" where
  "map_dirs f d =
     \<lparr>dash_i = map f (dash_i d), dash_isystem = map f (dash_isystem d), dash_iquote = map f (dash_iquote d),
      dash_include = map f (dash_include d)\<rparr>"

lemma convert_idirs_dash_i:
  "convert_idirs w (map (\<lambda>d. ''-I'' @ d) ds @ rest) =
     bind_r (convert_idirs w rest) (\<lambda>r. Inr (map (\<lambda>d. ''-I'' @ cnvt_client_to_server_path w d) ds @ r))"
proof (induction ds)
  case Nil
  then show ?case by (cases "convert_idirs w rest") simp_all
next
  case (Cons d ds)
  then show ?case by (cases "convert_idirs w rest") simp_all
qed

lemma convert_idirs_flag:
  assumes "\<not> starts_with flag ''-I''"
  shows "convert_idirs w (concat (map (\<lambda>d. [flag, d]) ds) @ rest) =
     bind_r (convert_idirs w rest) (\<lambda>r. Inr (concat (map (\<lambda>d. [flag, cnvt_client_to_server_path w d]) ds) @ r))"
proof (induction ds)
  case Nil
  then show ?case by (cases "convert_idirs w rest") simp_all
next
  case (Cons d ds)
  then show ?case using assms by (cases "convert_idirs w rest") simp_all
qed

lemma convert_idirs_of_client:
  "convert_idirs w (cnvt_to_cmd_line_args dirs) = Inr (cnvt_to_cmd_line_args (map_dirs (cnvt_client_to_server_path w) dirs))"
  using convert_idirs_flag [of "''-include''" w "dash_include dirs" "[]"]
    convert_idirs_dash_i [of w "dash_i dirs"]
  by (simp add: cnvt_to_cmd_line_args_def convert_idirs_flag map_dirs_def comp_def)

text \<open>C30. The include options that a client encodes with \<open>cnvt_to_cmd_line_args\<close> are decoded by the
  server's \<open>preprocess_compiler_call\<close> without reading past their end, and become the options for
  the same directories inside the client's workspace, in the same order.\<close>

theorem include_dirs_reach_server:
  "\<exists>s' made. preprocess_compiler_call client_id cwd args (cnvt_to_cmd_line_args dirs) s = Inr (s', made)
     \<and> are_args_ready s' \<and> ses_working_dir s' = cnvt_client_to_server_path (ses_working_dir s) cwd
     \<and> (\<exists>rest. ses_cmd_line_args s' =
          cnvt_to_cmd_line_args (map_dirs (cnvt_client_to_server_path (ses_working_dir s)) dirs) @ rest)"
  by (simp add: preprocess_compiler_call_def convert_idirs_of_client Let_def split: prod.split)

section \<open>Setting up a session\<close>

text \<open>The invariant of a view: every entry of the file table lies where the path translation puts it.\<close>

definition view_paths_ok :: "client_view \<Rightarrow> bool" where
  "view_paths_ok view \<longleftrightarrow>
     (\<forall>p st. client_file_states view p = Some st \<longrightarrow> server_file_path st = cnvt_client_to_server_path (cv_working_dir view) p)"

definition state_of_info :: "client_view \<Rightarrow> file_info \<Rightarrow> file_state_view" where
  "state_of_info view fi =
     new_file_state_view (fi_filesize fi) (fi_filehash fi) (cnvt_client_to_server_path (cv_working_dir view) (fi_filename fi))"

definition registered :: "file_info list \<Rightarrow> client_view \<Rightarrow> string \<Rightarrow> file_state_view option" where
  "registered fis view p =
     (case client_file_states view p of
        Some st \<Rightarrow> Some st
      | None \<Rightarrow> map_of (map (\<lambda>fi. (fi_filename fi, state_of_info view fi)) fis) p)"

lemma add_file_state_frame [simp]:
  "cv_working_dir (add_file_state p sz sha view) = cv_working_dir view"
  "associated_sessions (add_file_state p sz sha view) = associated_sessions view"
  "client_uuid (add_file_state p sz sha view) = client_uuid view"
  "client_created_dirs (add_file_state p sz sha view) = client_created_dirs view"
  "get_session (add_file_state p sz sha view) u = get_session view u"
  by (auto simp: add_file_state_def get_session_def split: option.split)

lemma client_file_states_add:
  "client_file_states (add_file_state p sz sha view) q =
     (if q = p \<and> client_file_states view p = None
      then Some (new_file_state_view sz sha (cnvt_client_to_server_path (cv_working_dir view) p))
      else client_file_states view q)"
  by (auto simp: add_file_state_def split: option.split)

lemma register_required_files_states:
  assumes "\<forall>fi \<in> set fis. fi_filename fi \<noteq> []"
  shows "client_file_states (register_required_files uuid fis view) = registered fis view
    \<and> cv_working_dir (register_required_files uuid fis view) = cv_working_dir view
    \<and> client_uuid (register_required_files uuid fis view) = client_uuid view
    \<and> (\<forall>u. get_session (register_required_files uuid fis view) u =
          (if u = uuid then map_option (\<lambda>s. s\<lparr>required_files_state := required_files_state s @ map fi_filename fis\<rparr>) (get_session view u)
           else get_session view u))"
  using assms
proof (induction fis arbitrary: view)
  case Nil
  then show ?case by (auto simp: registered_def fun_eq_iff option.map_ident split: option.split)
next
  case (Cons fi fis)
  let ?v = "upd_session uuid (add_required_file_state (fi_filename fi))
               (add_file_state (fi_filename fi) (fi_filesize fi) (fi_filehash fi) view)"
  have r: "register_required_files uuid (fi # fis) view = register_required_files uuid fis ?v"
    using Cons.prems by simp
  have "registered fis ?v = registered (fi # fis) view"
  proof
    fix p
    have "state_of_info ?v = state_of_info view" by (simp add: state_of_info_def fun_eq_iff)
    then show "registered fis ?v p = registered (fi # fis) view p"
      by (simp add: registered_def client_file_states_add split: option.split) (simp add: state_of_info_def)
  qed
  then show ?case
    unfolding r using Cons
    by (auto simp: sessions.lookup_modify add_required_file_state_def option.map_comp comp_def)
qed

text \<open>The files a session has to upload: those the server does not have yet.\<close>

definition wanted :: "file_state_view \<Rightarrow> bool" where
  "wanted st \<longleftrightarrow> file_status st = FILE_STATUS_INITIAL \<or> file_status st = FILE_STATUS_FAULT"

definition after_request :: "u64 \<Rightarrow> file_state_view \<Rightarrow> file_state_view" where
  "after_request now st =
     (if file_status st = FILE_STATUS_INITIAL then st\<lparr>file_status := FILE_STATUS_UPLOADING, up_start_time := now\<rparr> else st)"

lemma request_files_outcome:
  assumes "distinct ps" "\<forall>p \<in> set ps. client_file_states view p \<noteq> None"
    and "\<forall>p \<in> set ps. \<forall>st. client_file_states view p = Some st \<longrightarrow>
           cnvt_server_to_client_path (cv_working_dir view) (server_file_path st) = p"
  shows "fst (request_files now ps view) = filter (\<lambda>p. \<exists>st. client_file_states view p = Some st \<and> wanted st) ps
    \<and> client_file_states (snd (request_files now ps view)) =
        (\<lambda>p. if p \<in> set ps then map_option (after_request now) (client_file_states view p) else client_file_states view p)
    \<and> associated_sessions (snd (request_files now ps view)) = associated_sessions view
    \<and> cv_working_dir (snd (request_files now ps view)) = cv_working_dir view"
  using assms
proof (induction ps arbitrary: view)
  case (Cons p ps)
  obtain st where st: "client_file_states view p = Some st" using Cons.prems(2) by auto
  have cp: "cnvt_server_to_client_path (cv_working_dir view) (server_file_path st) = p" using Cons.prems(3) st by simp
  let ?v = "if file_status st = FILE_STATUS_INITIAL
    then view\<lparr>client_file_states := (client_file_states view)(p \<mapsto> after_request now st)\<rparr> else view"
  have r: "request_files now (p # ps) view =
      ((if wanted st then [p] else []) @ fst (request_files now ps ?v), snd (request_files now ps ?v))"
    using st cp by (cases "file_status st")
      (simp_all add: update_file_state_def after_request_def wanted_def case_prod_beta Let_def)
  have v: "client_file_states ?v = (client_file_states view)(p \<mapsto> after_request now st)" "cv_working_dir ?v = cv_working_dir view"
    "associated_sessions ?v = associated_sessions view"
    using st by (auto simp: after_request_def fun_eq_iff)
  have IH: "fst (request_files now ps ?v) = filter (\<lambda>p. \<exists>st. client_file_states ?v p = Some st \<and> wanted st) ps
    \<and> client_file_states (snd (request_files now ps ?v)) =
        (\<lambda>p. if p \<in> set ps then map_option (after_request now) (client_file_states ?v p) else client_file_states ?v p)
    \<and> associated_sessions (snd (request_files now ps ?v)) = associated_sessions ?v
    \<and> cv_working_dir (snd (request_files now ps ?v)) = cv_working_dir ?v"
    using Cons.prems v by (intro Cons.IH) auto
  have "filter (\<lambda>q. \<exists>st. client_file_states ?v q = Some st \<and> wanted st) ps =
      filter (\<lambda>q. \<exists>st. client_file_states view q = Some st \<and> wanted st) ps"
    using Cons.prems(1) v(1) by (intro filter_cong) auto
  moreover have "after_request now st = st" if "file_status st \<noteq> FILE_STATUS_INITIAL"
    using that by (simp add: after_request_def)
  ultimately show ?case unfolding r using IH Cons.prems(1) v st by (auto simp: fun_eq_iff)
qed (simp add: fun_eq_iff)


lemma registered_same:
  "p \<notin> fi_filename ` set fis \<Longrightarrow> registered fis view p = client_file_states view p"
  by (auto simp: registered_def map_of_eq_None_iff image_image split: option.split)

lemma registered_some:
  "p \<in> fi_filename ` set fis \<Longrightarrow> registered fis view p \<noteq> None"
  by (simp add: registered_def map_of_eq_None_iff image_image del: not_None_eq split: option.split)

lemma registered_paths_ok:
  assumes "view_paths_ok view" and "registered fis view p = Some st"
  shows "server_file_path st = cnvt_client_to_server_path (cv_working_dir view) p"
  using assms
  by (auto simp: registered_def view_paths_ok_def state_of_info_def new_file_state_view_def
      dest!: map_of_SomeD split: option.splits)

lemma mark_running_cong:
  "client_file_states v = client_file_states w \<Longrightarrow> mark_running v s = mark_running w s"
  using all_there_cong [of v w s] by (simp add: mark_running_def)

lemma get_session_emplace:
  "get_session view uuid = None \<Longrightarrow>
     get_session (try_emplace_session uuid s view) u = (if u = uuid then Some s else get_session view u)"
  by (auto simp: try_emplace_session_def get_session_def map_add_def split: option.split)

text \<open>The keys of the sessions.\<close>

definition session_keys :: "client_view \<Rightarrow> string list" where
  "session_keys view = map fst (associated_sessions view)"

lemma session_keys_upd [simp]: "session_keys (upd_session u f view) = session_keys view"
  by (auto simp: session_keys_def upd_session_def comp_def case_prod_beta)

lemma session_keys_add_file [simp]: "session_keys (add_file_state p sz sha view) = session_keys view"
  by (simp add: session_keys_def)

lemma session_keys_register [simp]: "session_keys (register_required_files uuid fis view) = session_keys view"
  by (induction fis arbitrary: view) simp_all

lemma session_keys_emplace:
  "get_session view uuid = None \<Longrightarrow> session_keys (try_emplace_session uuid s view) = session_keys view @ [uuid]"
  by (simp add: session_keys_def try_emplace_session_def)

lemma session_keys_try_compile:
  "try_compile_for_active_sessions view be = (view', be') \<Longrightarrow> session_keys view' = session_keys view"
  by (auto simp: session_keys_def try_compile_eq comp_def case_prod_beta)

lemma try_emplace_frame [simp]:
  "client_file_states (try_emplace_session uuid s view) = client_file_states view"
  "cv_working_dir (try_emplace_session uuid s view) = cv_working_dir view"
  "client_uuid (try_emplace_session uuid s view) = client_uuid view"
  by (simp_all add: try_emplace_session_def)

lemma state_of_info_emplace [simp]:
  "state_of_info (try_emplace_session uuid s view) = state_of_info view"
  by (simp add: state_of_info_def fun_eq_iff)

text \<open>What \<open>add_session\<close> promises: the answer to the client, the state of its files and of the new
  session, and that nothing else changes but the sessions that can start to compile.\<close>

definition wanted_names :: "session_start_request \<Rightarrow> client_view \<Rightarrow> string list" where
  "wanted_names rqst view =
     filter (\<lambda>p. \<exists>st. registered (ss_required_files_info rqst) view p = Some st \<and> wanted st)
       (map fi_filename (ss_required_files_info rqst))"

definition session_set_up ::
    "u64 \<Rightarrow> string \<Rightarrow> session_start_request \<Rightarrow> client_view \<Rightarrow> backend \<Rightarrow> client_view \<Rightarrow> backend \<Rightarrow> server_session \<Rightarrow> bool" where
  "session_set_up now uuid rqst view be view' be' s' \<longleftrightarrow>
     get_session view' uuid = Some s'
     \<and> out_msgs s' = [SSessionConfirmed uuid (wanted_names rqst view)]
     \<and> required_files_state s' = map fi_filename (ss_required_files_info rqst)
     \<and> are_args_ready s' \<and> file_transfer_states s' = Map.empty \<and> is_compiler_running s' = all_there view' s'
     \<and> client_file_states view' =
         (\<lambda>p. if p \<in> fi_filename ` set (ss_required_files_info rqst)
              then map_option (after_request now) (registered (ss_required_files_info rqst) view p)
              else client_file_states view p)
     \<and> (\<forall>u. u \<noteq> uuid \<longrightarrow> get_session view' u = map_option (mark_running view') (get_session view u))
     \<and> files be' = files be \<and> cv_working_dir view' = cv_working_dir view"

definition well_formed_request :: "session_start_request \<Rightarrow> bool" where
  "well_formed_request rqst \<longleftrightarrow>
     distinct (map fi_filename (ss_required_files_info rqst))
     \<and> (\<forall>fi \<in> set (ss_required_files_info rqst). plain_absolute (fi_filename fi))
     \<and> (\<exists>dirs. ss_client_idirs rqst = cnvt_to_cmd_line_args dirs)"

lemma plain_absolute_not_Nil: "plain_absolute p \<Longrightarrow> p \<noteq> []"
  by (auto elim: plain_absoluteE)

text \<open>The compiler is told to write its output to the file that the session sends back.\<close>

definition obj_arg_ok :: "server_session \<Rightarrow> bool" where
  "obj_arg_ok s \<longleftrightarrow> (\<exists>as. ses_cmd_line_args s = as @ [''-o'', out_obj_file s])"

lemma obj_arg_ok_frame [simp]:
  "obj_arg_ok (send_msg m s) = obj_arg_ok s" "obj_arg_ok (mark_running v s) = obj_arg_ok s"
  "obj_arg_ok (with_transfer n ts s) = obj_arg_ok s"
  by (simp_all add: obj_arg_ok_def send_msg_def mark_running_def with_transfer_def)

text \<open>The request for the compilation of a session, as the set-up of the session makes it.\<close>

definition request_made :: "string \<Rightarrow> string \<Rightarrow> session_start_request \<Rightarrow> client_view \<Rightarrow> compilation_request" where
  "request_made compiler_bin uuid rqst view =
     (let s = new_server_session compiler_bin view uuid rqst
      in case preprocess_compiler_call (client_uuid view) (ss_client_working_dir rqst) (ss_client_cmd_line_args rqst)
                (ss_client_idirs rqst) s of
           Inr (s', _) \<Rightarrow> request_of s'
         | Inl _ \<Rightarrow> request_of s)"

lemma request_of_frame [simp]:
  "request_of (send_msg m s) = request_of s" "request_of (mark_running v s) = request_of s"
  "request_of (with_transfer n ts s) = request_of s"
  by (simp_all add: request_of_def send_msg_def mark_running_def with_transfer_def)

lemma preprocess_request:
  assumes "preprocess_compiler_call (client_uuid view) (ss_client_working_dir rqst) (ss_client_cmd_line_args rqst)
      (ss_client_idirs rqst) ((new_server_session compiler_bin view uuid rqst)\<lparr>required_files_state := fs\<rparr>) = Inr (s', made)"
  shows "request_of s' = request_made compiler_bin uuid rqst view"
  using assms
  by (cases "convert_idirs (cv_working_dir view) (ss_client_idirs rqst)")
    (auto simp: request_made_def preprocess_compiler_call_def request_of_def new_server_session_def Let_def split: prod.splits)

lemma client_uuid_register [simp]: "client_uuid (register_required_files uuid fis view) = client_uuid view"
  by (induction fis arbitrary: view) (simp_all add: upd_session_def)

lemma preprocess_of_client:
  assumes "ss_client_idirs rqst = cnvt_to_cmd_line_args dirs"
  obtains s' made where
    "preprocess_compiler_call client_id cwd args (ss_client_idirs rqst) s = Inr (s', made)"
    "are_args_ready s'" "required_files_state s' = required_files_state s"
    "file_transfer_states s' = file_transfer_states s" "out_msgs s' = out_msgs s"
    "is_compiler_running s' = is_compiler_running s" "session_uuid s' = session_uuid s" "obj_arg_ok s'"
  using assms by (cases "convert_args (ses_working_dir s) args")
    (simp add: preprocess_compiler_call_def convert_idirs_of_client obj_arg_ok_def Let_def)

lemma register_new_session:
  assumes "\<forall>fi \<in> set fis. fi_filename fi \<noteq> []" "get_session view uuid = None" "required_files_state new = []"
  shows "let v = register_required_files uuid fis (try_emplace_session uuid new view)
    in client_file_states v = registered fis view \<and> cv_working_dir v = cv_working_dir view
     \<and> (\<forall>u. get_session v u =
          (if u = uuid then Some (new\<lparr>required_files_state := map fi_filename fis\<rparr>) else get_session view u))"
proof -
  have "registered fis (try_emplace_session uuid new view) = registered fis view"
    by (simp add: registered_def fun_eq_iff split: option.split)
  then show ?thesis
    using register_required_files_states [OF assms(1), of uuid "try_emplace_session uuid new view"] assms(3)
    by (simp add: get_session_emplace [OF assms(2)])
qed

lemma get_session_created_dirs [simp]: "get_session (view\<lparr>client_created_dirs := ds\<rparr>) = get_session view"
  by (simp add: get_session_def fun_eq_iff)

lemma create_dirs_frame:
  assumes "create_client_dir_hierarchy s view be = (view', be')"
  shows "client_file_states view' = client_file_states view" "cv_working_dir view' = cv_working_dir view"
    "get_session view' = get_session view" "files be' = files be" "manager be' = manager be"
    "session_keys view' = session_keys view"
  using assms by (auto simp: create_client_dir_hierarchy_def session_keys_def Let_def)

lemma try_compile_frame:
  assumes "try_compile_for_active_sessions view be = (view', be')"
  shows "client_file_states view' = client_file_states view" "cv_working_dir view' = cv_working_dir view"
    "files be' = files be" "all_there view' = all_there view"
    "get_session view' u = map_option (mark_running view') (get_session view u)"
proof -
  show cf: "client_file_states view' = client_file_states view" using assms by (auto simp: try_compile_eq)
  show "all_there view' = all_there view" using all_there_cong [OF cf] by auto
  have m: "mark_running view' = mark_running view" using mark_running_cong [OF cf] by auto
  show "get_session view' u = map_option (mark_running view') (get_session view u)"
    unfolding m using assms by (auto simp: try_compile_eq)
qed (use assms in \<open>auto simp: try_compile_eq\<close>)

text \<open>The state in which \<open>add_session\<close> asks for compilations.\<close>

definition session_prepared ::
    "string \<Rightarrow> u64 \<Rightarrow> string \<Rightarrow> session_start_request \<Rightarrow> client_view \<Rightarrow> backend \<Rightarrow> client_view \<Rightarrow> backend \<Rightarrow> server_session \<Rightarrow> bool" where
  "session_prepared compiler_bin now uuid rqst view be v b s \<longleftrightarrow>
     (\<forall>u. get_session v u = (if u = uuid then Some s else get_session view u))
     \<and> session_keys v = session_keys view @ [uuid] \<and> cv_working_dir v = cv_working_dir view
     \<and> client_file_states v =
         (\<lambda>p. if p \<in> fi_filename ` set (ss_required_files_info rqst)
              then map_option (after_request now) (registered (ss_required_files_info rqst) view p)
              else client_file_states view p)
     \<and> session_uuid s = uuid \<and> out_msgs s = [SSessionConfirmed uuid (wanted_names rqst view)]
     \<and> required_files_state s = map fi_filename (ss_required_files_info rqst)
     \<and> are_args_ready s \<and> file_transfer_states s = Map.empty \<and> \<not> is_compiler_running s \<and> obj_arg_ok s
     \<and> request_of s = request_made compiler_bin uuid rqst view
     \<and> files b = files be \<and> manager b = manager be"

lemma add_session_prepared:
  assumes rq: "well_formed_request rqst" and ok: "view_paths_ok view" "workspace (cv_working_dir view)"
    and fresh: "get_session view uuid = None"
  obtains v b s where "add_session compiler_bin now uuid rqst view be = Inr (try_compile_for_active_sessions v b)"
    and "session_prepared compiler_bin now uuid rqst view be v b s"
proof -
  let ?fis = "ss_required_files_info rqst" and ?new = "new_server_session compiler_bin view uuid rqst"
  let ?names = "map fi_filename ?fis" and ?msg = "SSessionConfirmed uuid (wanted_names rqst view)"
  define v1 where "v1 = register_required_files uuid ?fis (try_emplace_session uuid ?new view)"
  define s1 where "s1 = ?new\<lparr>required_files_state := ?names\<rparr>"
  have v1: "client_file_states v1 = registered ?fis view" "cv_working_dir v1 = cv_working_dir view"
    "get_session v1 u = (if u = uuid then Some s1 else get_session view u)" "session_keys v1 = session_keys view @ [uuid]" for u
    using rq plain_absolute_not_Nil register_new_session [OF _ fresh, of ?fis ?new] session_keys_emplace [OF fresh]
    by (auto simp: v1_def s1_def well_formed_request_def Let_def new_server_session_def)
  obtain dirs where dirs: "ss_client_idirs rqst = cnvt_to_cmd_line_args dirs"
    using rq by (auto simp: well_formed_request_def)
  obtain s2 made where s2: "preprocess_compiler_call (client_uuid v1) (ss_client_working_dir rqst)
        (ss_client_cmd_line_args rqst) (ss_client_idirs rqst) s1 = Inr (s2, made)"
    "are_args_ready s2" "required_files_state s2 = ?names" "session_uuid s2 = uuid"
    "file_transfer_states s2 = Map.empty" "out_msgs s2 = []" "\<not> is_compiler_running s2" "obj_arg_ok s2"
    by (rule preprocess_of_client [OF dirs, where s = s1])
      (rule that, assumption, simp_all add: s1_def new_server_session_def)
  have made: "request_of s2 = request_made compiler_bin uuid rqst view"
    by (rule preprocess_request [where fs = ?names]) (use s2(1) in \<open>simp add: v1_def s1_def\<close>)
  obtain v3 b1 where c: "create_client_dir_hierarchy s2 (upd_session uuid (\<lambda>_. s2) v1)
      (be\<lparr>made_dirs := made_dirs be @ made\<rparr>) = (v3, b1)" by fastforce
  have v3: "client_file_states v3 = registered ?fis view" "cv_working_dir v3 = cv_working_dir view"
    "get_session v3 u = (if u = uuid then Some s2 else get_session view u)" "session_keys v3 = session_keys view @ [uuid]"
    "files b1 = files be" "manager b1 = manager be" for u
    using create_dirs_frame [OF c] v1 by (simp_all add: sessions.lookup_modify)
  have ps: "distinct ?names" "\<forall>p \<in> set ?names. client_file_states v3 p \<noteq> None"
    "\<forall>p \<in> set ?names. \<forall>st. client_file_states v3 p = Some st \<longrightarrow>
       cnvt_server_to_client_path (cv_working_dir v3) (server_file_path st) = p"
    using rq registered_some registered_paths_ok [OF ok(1)] client_path_roundtrip [OF _ ok(2)]
    by (auto simp: v3 well_formed_request_def)
  obtain cps v4 where q: "request_files now ?names v3 = (cps, v4)" by fastforce
  have v4: "cps = wanted_names rqst view" "cv_working_dir v4 = cv_working_dir view" "get_session v4 = get_session v3"
    "session_keys v4 = session_keys v3"
    "client_file_states v4 = (\<lambda>p. if p \<in> fi_filename ` set ?fis then map_option (after_request now) (registered ?fis view p)
        else client_file_states view p)"
    using request_files_outcome [OF ps, of now] registered_same
    by (auto simp: q v3 wanted_names_def fun_eq_iff get_session_def session_keys_def)
  have "session_prepared compiler_bin now uuid rqst view be (upd_session uuid (send_msg ?msg) v4) b1 (send_msg ?msg s2)"
    using s2 v3 v4 made by (simp add: session_prepared_def sessions.lookup_modify)
  with that show ?thesis
    using v1(3) [of uuid] s2(1,3) c q v4(1) by (simp add: add_session_def Let_def flip: v1_def)
qed

lemma add_session_outcome:
  assumes "well_formed_request rqst" "view_paths_ok view" "workspace (cv_working_dir view)" "get_session view uuid = None"
  shows "\<exists>view' be' s'. add_session compiler_bin now uuid rqst view be = Inr (view', be')
    \<and> session_set_up now uuid rqst view be view' be' s'"
proof -
  obtain v b s where a: "add_session compiler_bin now uuid rqst view be = Inr (try_compile_for_active_sessions v b)"
    and p: "session_prepared compiler_bin now uuid rqst view be v b s" by (rule add_session_prepared [OF assms])
  obtain v' b' where t: "try_compile_for_active_sessions v b = (v', b')" by fastforce
  have "session_set_up now uuid rqst view be v' b' (mark_running v' s)"
    using try_compile_frame [OF t] p by (simp add: session_set_up_def session_prepared_def)
      (simp add: mark_running_def all_there_def)
  then show ?thesis using a t by auto
qed

lemma session_set_up_paths_ok:
  assumes "session_set_up now uuid rqst view be view' be' s'" "view_paths_ok view"
  shows "view_paths_ok view'"
  unfolding view_paths_ok_def
proof (intro allI impI)
  fix p st assume "client_file_states view' p = Some st"
  then obtain st0 where "registered (ss_required_files_info rqst) view p = Some st0" "server_file_path st = server_file_path st0"
    using assms(1) registered_same [of p "ss_required_files_info rqst" view]
    by (auto simp: session_set_up_def after_request_def split: if_splits)
  then show "server_file_path st = cnvt_client_to_server_path (cv_working_dir view') p"
    using registered_paths_ok [OF assms(2)] assms(1) by (simp add: session_set_up_def)
qed

section \<open>Connections\<close>

definition uuid_string :: "string \<Rightarrow> bool" where
  "uuid_string u \<longleftrightarrow> u \<noteq> [] \<and> sep \<notin> set u"

text \<open>The invariant of the server.\<close>

definition server_ok :: "server \<Rightarrow> bool" where
  "server_ok srv \<longleftrightarrow>
     (\<forall>u view. client_views srv u = Some view \<longrightarrow>
        view_paths_ok view \<and> cv_working_dir view = path_append CLIENTS_WORKSPACE u)"

lemma client_workspace:
  assumes "uuid_string u"
  shows "workspace (path_append CLIENTS_WORKSPACE u)"
proof -
  have "path_append CLIENTS_WORKSPACE u = CLIENTS_WORKSPACE @ sep # u"
    using assms by (cases u) (auto simp: uuid_string_def path_append_relative CLIENTS_WORKSPACE_def)
  moreover have "last u \<noteq> sep" using assms by (metis last_in_set uuid_string_def)
  moreover have "\<not> starts_with p (CLIENTS_WORKSPACE @ sep # u)" if "is_system_path p" for p
    using that by (auto simp: is_system_path_def starts_with_iff CLIENTS_WORKSPACE_def)
  ultimately show ?thesis using assms by (simp add: workspace_def uuid_string_def)
qed

lemma new_view_ok: "view_paths_ok (new_client_view u cwd clock)"
  by (simp add: view_paths_ok_def new_client_view_def)

lemma connection_outcome:
  assumes "well_formed_request rqst" "uuid_string (ss_client_id rqst)" "valid_uuid (ss_client_id rqst)" "server_ok srv"
    and "\<forall>view. client_views srv (ss_client_id rqst) = Some view \<longrightarrow> get_session view suuid = None"
  shows "\<exists>srv' view view' s'.
      handle_new_connection valid_uuid compiler_bin clock now suuid (Inr (CSessionStart rqst)) srv = Inr srv'
    \<and> view = (case client_views srv (ss_client_id rqst) of Some v \<Rightarrow> v
                | None \<Rightarrow> new_client_view (ss_client_id rqst) (path_append CLIENTS_WORKSPACE (ss_client_id rqst)) clock)
    \<and> client_views srv' = (client_views srv)(ss_client_id rqst \<mapsto> view')
    \<and> session_set_up now suuid rqst view (srv_backend srv) view' (srv_backend srv') s' \<and> server_ok srv'"
proof -
  let ?id = "ss_client_id rqst" and ?cwd = "path_append CLIENTS_WORKSPACE (ss_client_id rqst)"
  obtain view srv1 where a: "add_client_view valid_uuid clock ?id srv = (Inr view, srv1)"
    and v: "view = (case client_views srv ?id of Some v \<Rightarrow> v | None \<Rightarrow> new_client_view ?id ?cwd clock)"
    and s1: "files (srv_backend srv1) = files (srv_backend srv)"
      "\<forall>v. (client_views srv1)(?id \<mapsto> v) = (client_views srv)(?id \<mapsto> v)"
    using assms(3) by (cases "client_views srv ?id") (auto simp: add_client_view_def get_client_view_def Let_def)
  have view: "view_paths_ok view" "cv_working_dir view = ?cwd" "get_session view suuid = None"
    using assms(4,5) v new_view_ok by (auto simp: server_ok_def new_client_view_def get_session_def split: option.splits)
  have "workspace (cv_working_dir view)" using client_workspace [OF assms(2)] view by simp
  from add_session_outcome [where compiler_bin = compiler_bin and now = now and be = "srv_backend srv1",
      OF assms(1) view(1) this view(3)]
  obtain view' be' s' where r: "add_session compiler_bin now suuid rqst view (srv_backend srv1) = Inr (view', be')"
    "session_set_up now suuid rqst view (srv_backend srv1) view' be' s'" by blast
  let ?srv = "srv1\<lparr>client_views := (client_views srv)(?id \<mapsto> view'), srv_backend := be'\<rparr>"
  have "handle_new_connection valid_uuid compiler_bin clock now suuid (Inr (CSessionStart rqst)) srv = Inr ?srv"
    using a r s1 by (simp add: handle_new_connection_def)
  moreover have "session_set_up now suuid rqst view (srv_backend srv) view' (srv_backend ?srv) s'"
    using r(2) s1 by (simp add: session_set_up_def)
  moreover have "server_ok ?srv"
    using session_set_up_paths_ok [OF r(2) view(1)] r(2) view(2) assms(4) by (auto simp: server_ok_def session_set_up_def)
  ultimately show ?thesis using v by (intro exI [of _ ?srv] exI [of _ view] exI [of _ view'] exI [of _ s']) simp
qed


definition example_request :: session_start_request where
  "example_request = \<lparr>ss_client_id = ''c1'', ss_client_working_dir = ''/p'', ss_client_source_file = ''/p/a.c'',
     ss_client_compiler = ''g'', ss_client_cmd_line_args = [''-c'', ''/p/a.c''],
     ss_client_idirs = [''-I/p/inc''], ss_required_files_info =
       [\<lparr>fi_filename = ''/p/a.c'', fi_filesize = 6, fi_filehash = ''h''\<rparr>]\<rparr>"

definition example_server :: server where
  "example_server = \<lparr>client_views = Map.empty,
     srv_backend = \<lparr>manager = new_compiler_manager 1, files = Map.empty, made_dirs = []\<rparr>\<rparr>"

lemma example_request_ok: "well_formed_request example_request"
proof -
  have "ss_client_idirs example_request =
      cnvt_to_cmd_line_args \<lparr>dash_i = [''/p/inc''], dash_isystem = [], dash_iquote = [], dash_include = []\<rparr>"
    by (simp add: example_request_def cnvt_to_cmd_line_args_def)
  then show ?thesis
    by (auto simp: well_formed_request_def) (simp_all add: example_request_def plain_absolute_def is_absolute_def)
qed


end
