(* ===== verification/Build_Session.thy ===== *)
theory Build_Session
  imports Session_Transfer Server_Views
begin

text \<open>
  A session from its start request to the request of its compilation: the set-up of the session on
  the server (\<open>ClientView::add_session\<close>), the confirmation that tells the client which files are
  missing (\<open>ClientSession::start_client_session\<close>), and the rounds of uploads.
\<close>

section \<open>What a confirmed session can rely on\<close>

text \<open>The request is about files the client can read and send; what the server knows of them already
  has the same size and is not left over from an upload that was cut short.\<close>

definition request_readable :: "file_store \<Rightarrow> session_start_request \<Rightarrow> bool" where
  "request_readable cfs rqst \<longleftrightarrow>
     (\<forall>fi \<in> set (ss_required_files_info rqst). \<exists>content. cfs (fi_filename fi) = Some content
        \<and> sendable content \<and> length content < 2 ^ 64 \<and> fi_filesize fi = u64_size content)"

definition known_files_match :: "session_start_request \<Rightarrow> client_view \<Rightarrow> bool" where
  "known_files_match rqst view \<longleftrightarrow>
     (\<forall>fi \<in> set (ss_required_files_info rqst). \<forall>st. client_file_states view (fi_filename fi) = Some st \<longrightarrow>
        file_sz_bytes st = fi_filesize fi \<and> (wanted st \<or> file_status st = FILE_STATUS_AVAILABLE))"

lemma registered_matches:
  assumes "well_formed_request rqst" "known_files_match rqst view" "fi \<in> set (ss_required_files_info rqst)"
  obtains st where "registered (ss_required_files_info rqst) view (fi_filename fi) = Some st"
    "file_sz_bytes st = fi_filesize fi" "wanted st \<or> file_status st = FILE_STATUS_AVAILABLE"
proof (cases "client_file_states view (fi_filename fi)")
  case None
  have "distinct (map fst (map (\<lambda>fi. (fi_filename fi, state_of_info view fi)) (ss_required_files_info rqst)))"
    using assms(1) by (simp add: well_formed_request_def comp_def)
  then have "map_of (map (\<lambda>fi. (fi_filename fi, state_of_info view fi)) (ss_required_files_info rqst)) (fi_filename fi)
      = Some (state_of_info view fi)"
    using assms(3) by (intro map_of_is_SomeI) auto
  then show ?thesis
    using that [of "state_of_info view fi"] None
    by (simp add: registered_def state_of_info_def new_file_state_view_def wanted_def)
next
  case (Some st)
  then show ?thesis using that [of st] assms(2,3) by (auto simp: known_files_match_def registered_def)
qed

lemma after_request_fields [simp]:
  "file_sz_bytes (after_request now st) = file_sz_bytes st"
  "server_file_path (after_request now st) = server_file_path st"
  by (simp_all add: after_request_def)

lemma wanted_names_files:
  assumes "well_formed_request rqst"
  shows "distinct (wanted_names rqst view)" "set (wanted_names rqst view) \<subseteq> fi_filename ` set (ss_required_files_info rqst)"
  using assms by (auto simp: wanted_names_def well_formed_request_def)

lemma set_up_state:
  assumes "session_set_up now uuid rqst view be view' be' s" "well_formed_request rqst" "known_files_match rqst view"
    and "fi \<in> set (ss_required_files_info rqst)"
  obtains st where "registered (ss_required_files_info rqst) view (fi_filename fi) = Some st"
    "client_file_states view' (fi_filename fi) = Some (after_request now st)"
    "file_sz_bytes st = fi_filesize fi" "wanted st \<or> file_status st = FILE_STATUS_AVAILABLE"
proof -
  obtain st where st: "registered (ss_required_files_info rqst) view (fi_filename fi) = Some st"
    "file_sz_bytes st = fi_filesize fi" "wanted st \<or> file_status st = FILE_STATUS_AVAILABLE"
    by (rule registered_matches [OF assms(2-4)])
  moreover have "client_file_states view' (fi_filename fi) =
      map_option (after_request now) (registered (ss_required_files_info rqst) view (fi_filename fi))"
    using assms(1,4) by (simp add: session_set_up_def)
  ultimately show ?thesis using that by simp
qed

lemma set_up_paths_inj:
  assumes u: "session_set_up now uuid rqst view be view' be' s" and wf: "well_formed_request rqst"
    and ok: "view_paths_ok view" "workspace (cv_working_dir view)"
    and pq: "p \<in> set (wanted_names rqst view)" "q \<in> set (wanted_names rqst view)"
      "client_file_states view' p = Some c" "client_file_states view' q = Some d" "server_file_path c = server_file_path d"
  shows "p = q"
proof -
  have "plain_absolute p" "plain_absolute q"
    using pq(1,2) wanted_names_files(2) [OF wf, of view] wf by (auto simp: well_formed_request_def)
  moreover have "server_file_path c = cnvt_client_to_server_path (cv_working_dir view) p"
    "server_file_path d = cnvt_client_to_server_path (cv_working_dir view) q"
    using session_set_up_paths_ok [OF u ok(1)] pq(3,4) u by (simp_all add: view_paths_ok_def session_set_up_def)
  ultimately show ?thesis using server_path_inj [OF _ _ ok(2)] pq(5) by metis
qed

lemma set_up_uploadable:
  assumes u: "session_set_up now uuid rqst view be view' be' s" and wf: "well_formed_request rqst"
    and files: "request_readable cfs rqst" "known_files_match rqst view" "\<forall>p. openable p"
    and p: "p \<in> set (wanted_names rqst view)"
  shows "uploadable openable cfs view' s p"
proof -
  obtain fi where fi: "fi \<in> set (ss_required_files_info rqst)" "p = fi_filename fi"
    using wanted_names_files(2) [OF wf, of view] p by auto
  obtain st where st: "client_file_states view' p = Some (after_request now st)" "file_sz_bytes st = fi_filesize fi"
    using set_up_state [OF u wf files(2) fi(1)] fi(2) by metis
  obtain content where "cfs p = Some content" "sendable content" "length content < 2 ^ 64" "fi_filesize fi = u64_size content"
    using files(1) fi unfolding request_readable_def by blast
  then show ?thesis using st files(3) u by (simp add: uploadable_def session_set_up_def)
qed

lemma set_up_ready_to_upload:
  assumes u: "session_set_up now uuid rqst view be view' be' s" and wf: "well_formed_request rqst"
    and ok: "view_paths_ok view" "workspace (cv_working_dir view)"
    and files: "request_readable cfs rqst" "known_files_match rqst view" "\<forall>p. openable p"
  shows "ready_to_upload openable cfs view' s (wanted_names rqst view)"
    and "\<forall>p \<in> set (required_files_state s). p \<in> set (wanted_names rqst view) \<or> file_available view' p"
proof -
  show "ready_to_upload openable cfs view' s (wanted_names rqst view)"
    unfolding ready_to_upload_def
    using wanted_names_files(1) [OF wf] set_up_uploadable [OF u wf files] set_up_paths_inj [OF u wf ok] by blast
  show "\<forall>p \<in> set (required_files_state s). p \<in> set (wanted_names rqst view) \<or> file_available view' p"
  proof
    fix p assume "p \<in> set (required_files_state s)"
    then obtain fi where fi: "fi \<in> set (ss_required_files_info rqst)" "p = fi_filename fi"
      using u by (auto simp: session_set_up_def)
    obtain st where "registered (ss_required_files_info rqst) view p = Some st"
        "client_file_states view' p = Some (after_request now st)" "wanted st \<or> file_status st = FILE_STATUS_AVAILABLE"
      using set_up_state [OF u wf files(2) fi(1)] fi(2) by metis
    then show "p \<in> set (wanted_names rqst view) \<or> file_available view' p"
      using fi by (auto simp: wanted_names_def file_available_def after_request_def)
  qed
qed

section \<open>From the start request to the compilation\<close>

text \<open>The client's session once the confirmation has arrived and the start request is delivered.\<close>

definition confirmed :: "server_message \<Rightarrow> client_session \<Rightarrow> bool" where
  "confirmed msg s \<longleftrightarrow>
     (case msg of SSessionConfirmed sid required \<Rightarrow>
        cs_session_uuid s = sid \<and> cs_required_files s = required \<and> req_files_send_idx s = 0
        \<and> \<not> cs_terminated s \<and> cs_out_msgs s = []
      | _ \<Rightarrow> False)"

lemma start_client_session_confirmed:
  assumes "start_client_session openable wc True (Inr (SSessionConfirmed sid req)) rqst (new_client_session uuid call) fs = Inr (b, s, fs')"
  shows "b \<and> confirmed (SSessionConfirmed sid req) (s\<lparr>cs_out_msgs := []\<rparr>)"
  using assms
  by (auto simp: start_client_session_def cli_send_msg_def new_client_session_def confirmed_def Let_def split: prod.splits)

lemma build_session:
  assumes wf: "well_formed_request rqst" and ok: "view_paths_ok view" "workspace (cv_working_dir view)"
    and fresh: "get_session view uuid = None"
    and files: "request_readable cfs rqst" "known_files_match rqst view" "\<forall>p. openable p"
    and some: "wanted_names rqst view \<noteq> []"
    and c: "confirmed (SSessionConfirmed uuid (wanted_names rqst view)) s"
  shows "\<exists>view1 be1 ss. add_session compiler_bin epoch uuid rqst view be = Inr (view1, be1)
    \<and> get_session view1 uuid = Some ss \<and> out_msgs ss = [SSessionConfirmed uuid (wanted_names rqst view)]
    \<and> (\<exists>s' view' be' ss'.
        exchange (length (wanted_names rqst view)) openable sha now run (cs_out_msgs (send_required_file cfs s))
          (send_required_file cfs s) reg cfs view1 be1 = Inr ([], s', reg, cfs, view', be')
        \<and> (\<forall>p \<in> set (wanted_names rqst view). \<exists>cur. client_file_states view' p = Some cur
             \<and> file_status cur = FILE_STATUS_AVAILABLE
             \<and> server_file_path cur = cnvt_client_to_server_path (cv_working_dir view) p
             \<and> files be' (server_file_path cur) = cfs p)
        \<and> get_session view' uuid = Some ss' \<and> is_compiler_running ss')"
proof -
  obtain view1 be1 ss where a: "add_session compiler_bin epoch uuid rqst view be = Inr (view1, be1)"
    and u: "session_set_up epoch uuid rqst view be view1 be1 ss"
    using add_session_outcome [OF wf ok fresh] by blast
  note ready = set_up_ready_to_upload [where openable = openable, OF u wf ok files]
  have s: "cs_required_files s = wanted_names rqst view" "cs_session_uuid s = uuid" "req_files_send_idx s = 0"
    "\<not> cs_terminated s" "cs_out_msgs s = []" using c by (auto simp: confirmed_def)
  have u': "get_session view1 uuid = Some ss" "out_msgs ss = [SSessionConfirmed uuid (wanted_names rqst view)]" "are_args_ready ss"
    "cv_working_dir view1 = cv_working_dir view"
    using u by (simp_all add: session_set_up_def)
  obtain s' view' be' ss' where e: "exchange (length (cs_required_files s)) openable sha now run (cs_out_msgs (send_required_file cfs s))
        (send_required_file cfs s) reg cfs view1 be1 = Inr ([], s', reg, cfs, view', be')"
      "upload_outcome (cs_session_uuid s) cfs (cs_required_files s) view1 be1 ss view' be' ss'" "is_compiler_running ss'"
    using all_files_outcome [where openable = openable and cfs = cfs and view = view1 and ss = ss and s = s] ready s u' some
    by metis
  have path: "server_file_path cur = cnvt_client_to_server_path (cv_working_dir view) p"
    if "client_file_states view' p = Some cur" for p cur
  proof -
    have "map_option server_file_path (client_file_states view' p) = map_option server_file_path (client_file_states view1 p)"
      using e(2) by (simp add: upload_outcome_def)
    then show ?thesis
      using that session_set_up_paths_ok [OF u ok(1)] u'(4)
      by (cases "client_file_states view1 p") (auto simp: view_paths_ok_def)
  qed
  have "\<exists>cur. client_file_states view' p = Some cur \<and> file_status cur = FILE_STATUS_AVAILABLE
      \<and> server_file_path cur = cnvt_client_to_server_path (cv_working_dir view) p \<and> files be' (server_file_path cur) = cfs p"
    if "p \<in> set (wanted_names rqst view)" for p
    using e(2) that s(1) path [of p] by (auto simp: upload_outcome_def uploaded_def)
  moreover have "get_session view' uuid = Some ss'" using e(2) s(2) by (simp add: upload_outcome_def)
  ultimately show ?thesis using a u'(1,2) e(1,3) s(1) by auto
qed


definition start_view :: client_view where
  "start_view = new_client_view ''c1'' (path_append CLIENTS_WORKSPACE ''c1'') 0"

lemma start_view_ok:
  "view_paths_ok start_view" "workspace (cv_working_dir start_view)" "get_session start_view ''u'' = None"
  "known_files_match example_request start_view"
  using new_view_ok client_workspace [of "''c1''"]
  by (simp_all add: start_view_def uuid_string_def new_client_view_def get_session_def known_files_match_def)

lemma example_wanted: "wanted_names example_request start_view = [''/p/a.c'']"
  by (simp add: wanted_names_def example_request_def registered_def start_view_def new_client_view_def state_of_info_def
      new_file_state_view_def wanted_def)

definition example_files :: file_store where
  "example_files = [''/p/a.c'' \<mapsto> ex_content]"

lemma example_readable: "request_readable example_files example_request"
  using ex_sendable by (simp add: request_readable_def example_request_def example_files_def)
    (simp add: u64_size_def ex_content_def)

definition confirmed_client :: client_session where
  "confirmed_client = (new_client_session ''u'' (new_compiler_call (new_dep_files_state False False False)))
     \<lparr>cs_required_files := [''/p/a.c'']\<rparr>"


end
