(* ===== verification/Build_Result.thy ===== *)
theory Build_Result
  imports Build_Session
begin

text \<open>
  A compilation from the worker that took its request to the client: the rest of the body of
  \<open>CompilerManager::_worker_loop\<close> (\<open>src/src/compiler_manager.cpp\<close>), the messages
  \<open>ServerSession::send_compilation_result\<close> makes of the result, and what the client's session does
  with them.
\<close>

section \<open>The work on one request\<close>

text \<open>The body of the loop after the first critical section, without interruption: announce, compile,
  free the place, announce, publish. The compiler is two arguments: what it reports (\<open>run\<close>) and what
  it leaves in the file system (\<open>effect\<close>).\<close>

definition worker_job ::
    "(string \<Rightarrow> string list \<Rightarrow> string \<Rightarrow> i32 \<times> string \<times> string)
      \<Rightarrow> (string \<Rightarrow> string list \<Rightarrow> string \<Rightarrow> file_store \<Rightarrow> file_store) \<Rightarrow> i32 \<Rightarrow> nat \<Rightarrow> compilation_request
      \<Rightarrow> client_view \<Rightarrow> backend \<Rightarrow> (client_view \<times> backend) result" where
  "worker_job run effect secs i task view be =
     (let out = compile_src run secs task;
          be1 = be\<lparr>manager := worker_compiled i task out (worker_announce i task (manager be)),
            files := effect (cr_compiler_name task) (cr_cmd_line_args task) (cr_current_working_dir task) (files be)\<rparr>
      in bind_r (publish_compilation_results (requester_session task) out view be1)
           (\<lambda>view'. Inr (view', be1\<lparr>manager := worker_publish i (manager be1)\<rparr>)))"

section \<open>Publishing\<close>

lemma fold_send_msg: "fold send_msg ms s = s\<lparr>out_msgs := out_msgs s @ ms\<rparr>"
  by (induction ms arbitrary: s) (simp_all add: send_msg_def)

definition with_result :: "compilation_output \<Rightarrow> server_session \<Rightarrow> server_session" where
  "with_result out ss = ss\<lparr>ses_exit_code := exit_code out, ses_stdout := stdout_data out,
     ses_stderr := stderr_data out, compile_duration := compiling_duration out\<rparr>"

lemma with_result_simps [simp]:
  "session_uuid (with_result out ss) = session_uuid ss" "out_obj_file (with_result out ss) = out_obj_file ss"
  "out_msgs (with_result out ss) = out_msgs ss" "ses_exit_code (with_result out ss) = exit_code out"
  "ses_stdout (with_result out ss) = stdout_data out" "ses_stderr (with_result out ss) = stderr_data out"
  "compile_duration (with_result out ss) = compiling_duration out"
  by (simp_all add: with_result_def)

lemma publish_outcome:
  assumes "get_session view uuid = Some ss"
  obtains view' ss' where "publish_compilation_results uuid out view be = Inr view'"
    "get_session view' uuid = Some ss'"
    "out_msgs ss' = out_msgs ss @ compilation_result_msgs (files be) (with_result out ss)"
    "client_file_states view' = client_file_states view"
    "\<And>u. u \<noteq> uuid \<Longrightarrow> get_session view' u = get_session view u"
proof -
  let ?f = "\<lambda>s. send_compilation_result (files be) (with_result out s)"
  have "publish_compilation_results uuid out view be = Inr (upd_session uuid ?f view)"
    using assms by (simp add: publish_compilation_results_def with_result_def)
  moreover have "out_msgs (?f ss) = out_msgs ss @ compilation_result_msgs (files be) (with_result out ss)"
    by (simp add: send_compilation_result_def fold_send_msg)
  ultimately show ?thesis using that [of "upd_session uuid ?f view" "?f ss"] assms by (simp add: sessions.lookup_modify)
qed

text \<open>The manager after the job: the worker waits again and one place is free.\<close>

definition job_done :: "nat \<Rightarrow> compiler_manager \<Rightarrow> compiler_manager \<Rightarrow> bool" where
  "job_done i m m' \<longleftrightarrow> worker_threads m' = (worker_threads m)[i := WWaiting]
     \<and> active_compile_jobs m' = active_compile_jobs m - 1
     \<and> advertised_jobs m' = thread_pool_sz m - (active_compile_jobs m - 1)
     \<and> compile_task_queue m' = compile_task_queue m"

lemma worker_job_outcome:
  assumes "get_session view (requester_session task) = Some ss"
    and "run (cr_compiler_name task) (cr_cmd_line_args task) (cr_current_working_dir task) = (code, out, err)"
  obtains view' be' ss' where "worker_job run effect secs i task view be = Inr (view', be')"
    "job_done i (manager be) (manager be')"
    "files be' = effect (cr_compiler_name task) (cr_cmd_line_args task) (cr_current_working_dir task) (files be)"
    "get_session view' (requester_session task) = Some ss'"
    "out_msgs ss' = out_msgs ss @ compilation_result_msgs (files be')
       (with_result \<lparr>stdout_data = out, stderr_data = err, compiling_duration = secs, exit_code = code\<rparr> ss)"
    "client_file_states view' = client_file_states view"
    "\<And>u. u \<noteq> requester_session task \<Longrightarrow> get_session view' u = get_session view u"
proof -
  let ?out = "\<lparr>stdout_data = out, stderr_data = err, compiling_duration = secs, exit_code = code\<rparr>"
  let ?be = "be\<lparr>manager := worker_compiled i task ?out (worker_announce i task (manager be)),
    files := effect (cr_compiler_name task) (cr_cmd_line_args task) (cr_current_working_dir task) (files be)\<rparr>"
  from assms(1) obtain view' ss' where p: "publish_compilation_results (requester_session task) ?out view ?be = Inr view'"
    "get_session view' (requester_session task) = Some ss'"
    "out_msgs ss' = out_msgs ss @ compilation_result_msgs (files ?be) (with_result ?out ss)"
    "client_file_states view' = client_file_states view"
    "\<And>u. u \<noteq> requester_session task \<Longrightarrow> get_session view' u = get_session view u"
    by (rule publish_outcome [where out = ?out and be = ?be]) blast
  let ?be' = "?be\<lparr>manager := worker_publish i (manager ?be)\<rparr>"
  have "worker_job run effect secs i task view be = Inr (view', ?be')"
    using p(1) assms(2) by (simp add: worker_job_def compile_src_def Let_def)
  moreover have "job_done i (manager be) (manager ?be')" by (simp add: job_done_def cm_defs)
  ultimately show ?thesis using that [of view' ?be' ss'] p(2-5) by simp
qed

lemma failure_msg_received:
  assumes "awaiting_obj [] s fs" "session_uuid ss = cs_session_uuid s" "ses_exit_code ss \<noteq> 0"
  obtains msg s' where "compilation_result_msgs sfs ss = [msg]" "client_session_loop run [msg] s reg fs = (s', reg, fs)"
    "unix_ipc_channel s' = unix_ipc_channel s @ [mk_response (ses_exit_code ss) (ses_stderr ss) (ses_stdout ss)]"
    "cs_out_msgs s' = cs_out_msgs s"
proof -
  define msg where "msg = (build_msg ss)\<lparr>oc_filesize := 0, oc_is_last_chunk := True,
    oc_compiler_stdout := ses_stdout ss, oc_compiler_stderr := ses_stderr ss\<rparr>"
  have msg: "compilation_result_msgs sfs ss = [SObjFileChunk msg]"
    "oc_session_id msg = cs_session_uuid s" "oc_is_last_chunk msg" "oc_data msg = []" "oc_compiler_exit_code msg = ses_exit_code ss"
    "oc_compiler_stdout msg = ses_stdout ss" "oc_compiler_stderr msg = ses_stderr ss"
    using assms(2,3) by (simp_all add: compilation_result_msgs_def msg_def build_msg_def)
  obtain s' where s': "handle_server_message run (SObjFileChunk msg) s reg fs = (True, s', reg, fs(obj_path s \<mapsto> [] @ oc_data msg))"
    "unix_ipc_channel s' = unix_ipc_channel s
       @ [mk_response (oc_compiler_exit_code msg) (oc_compiler_stderr msg) (oc_compiler_stdout msg)]"
    "cs_out_msgs s' = cs_out_msgs s"
    by (rule obj_chunk_last [OF assms(1) msg(2,3)])
  have same: "fs(obj_path s \<mapsto> []) = fs"
    using assms(1) by (auto simp: awaiting_obj_def obj_path_def fun_upd_idem_iff)
  have "client_session_loop run [SObjFileChunk msg] s reg fs = (s', reg, fs)"
    using assms(1) s'(1) same msg(4) by (simp add: awaiting_obj_def)
  then show ?thesis using that msg(1,5-7) s'(2,3) by simp
qed

section \<open>Properties\<close>

text \<open>The result of a successful compilation reaches the client: the worker that runs the compiler
  for a session puts messages on that session which, handled by the client's session, leave in the
  client's object file exactly the bytes that the compiler wrote to the session's object file on the
  server, change no other file of the client, and hand the wrapper exactly one response, with exit code
  0; on the server the worker waits again with its place freed, and no other session is touched.\<close>

theorem compiled_object_reaches_client:
  assumes ss: "get_session view (requester_session task) = Some ss" "session_uuid ss = requester_session task"
    and run: "run (cr_compiler_name task) (cr_cmd_line_args task) (cr_current_working_dir task) = (0, out, err)"
    and content: "effect (cr_compiler_name task) (cr_cmd_line_args task) (cr_current_working_dir task) (files be)
        (out_obj_file ss) = Some content" "content \<noteq> []" "\<not> CHUNK_SIZE dvd length content"
    and client: "awaiting_obj [] s cfs" "cs_session_uuid s = requester_session task"
  shows "\<exists>view' be' ss' msgs s' r. worker_job run effect secs i task view be = Inr (view', be')
    \<and> get_session view' (requester_session task) = Some ss' \<and> out_msgs ss' = out_msgs ss @ msgs
    \<and> client_session_loop lrun msgs s reg cfs = (s', reg, cfs(obj_path s \<mapsto> content))
    \<and> unix_ipc_channel s' = unix_ipc_channel s @ [r] \<and> compiler_exit_code r = 0
    \<and> job_done i (manager be) (manager be')
    \<and> (\<forall>u. u \<noteq> requester_session task \<longrightarrow> get_session view' u = get_session view u)"
proof -
  let ?out = "\<lparr>stdout_data = out, stderr_data = err, compiling_duration = secs, exit_code = 0\<rparr>"
  obtain view' be' ss' where w: "worker_job run effect secs i task view be = Inr (view', be')"
    "job_done i (manager be) (manager be')"
    "files be' = effect (cr_compiler_name task) (cr_cmd_line_args task) (cr_current_working_dir task) (files be)"
    "get_session view' (requester_session task) = Some ss'"
    "out_msgs ss' = out_msgs ss @ compilation_result_msgs (files be') (with_result ?out ss)"
    "client_file_states view' = client_file_states view"
    "\<And>u. u \<noteq> requester_session task \<Longrightarrow> get_session view' u = get_session view u"
    by (rule worker_job_outcome [where run = run and effect = effect and secs = secs and i = i and be = be, OF ss(1) run]) blast
  obtain s' r where "client_session_loop lrun (compilation_result_msgs (files be') (with_result ?out ss)) s reg cfs
      = (s', reg, cfs(obj_path s \<mapsto> content))" "unix_ipc_channel s' = unix_ipc_channel s @ [r]" "compiler_exit_code r = 0"
    by (rule result_msgs_received [where ss = "with_result ?out ss" and sfs = "files be'" and run = lrun and reg = reg,
          OF client(1)]) (use ss client(2) content w(3) in simp_all)
  with w show ?thesis by blast
qed

text \<open>The result of a failed compilation reaches the client too: the session gets exactly one
  message; handled by the client's session it changes no file of the client and hands the wrapper's
  request exactly one response, with the exit code of the compiler.\<close>

theorem failed_compilation_reaches_client:
  assumes ss: "get_session view (requester_session task) = Some ss" "session_uuid ss = requester_session task"
    and run: "run (cr_compiler_name task) (cr_cmd_line_args task) (cr_current_working_dir task) = (code, out, err)" "code \<noteq> 0"
    and client: "awaiting_obj [] s cfs" "cs_session_uuid s = requester_session task"
  shows "\<exists>view' be' ss' msg s' r. worker_job run effect secs i task view be = Inr (view', be')
    \<and> get_session view' (requester_session task) = Some ss' \<and> out_msgs ss' = out_msgs ss @ [msg]
    \<and> client_session_loop lrun [msg] s reg cfs = (s', reg, cfs)
    \<and> unix_ipc_channel s' = unix_ipc_channel s @ [r] \<and> compiler_exit_code r = code
    \<and> job_done i (manager be) (manager be')"
proof -
  let ?out = "\<lparr>stdout_data = out, stderr_data = err, compiling_duration = secs, exit_code = code\<rparr>"
  obtain view' be' ss' where w: "worker_job run effect secs i task view be = Inr (view', be')"
    "job_done i (manager be) (manager be')"
    "files be' = effect (cr_compiler_name task) (cr_cmd_line_args task) (cr_current_working_dir task) (files be)"
    "get_session view' (requester_session task) = Some ss'"
    "out_msgs ss' = out_msgs ss @ compilation_result_msgs (files be') (with_result ?out ss)"
    "client_file_states view' = client_file_states view"
    "\<And>u. u \<noteq> requester_session task \<Longrightarrow> get_session view' u = get_session view u"
    by (rule worker_job_outcome [where run = run and effect = effect and secs = secs and i = i and be = be, OF ss(1) run(1)]) blast
  obtain msg s' where m: "compilation_result_msgs (files be') (with_result ?out ss) = [msg]"
    "client_session_loop lrun [msg] s reg cfs = (s', reg, cfs)"
    "unix_ipc_channel s' = unix_ipc_channel s @ [mk_response code err out]"
    by (rule failure_msg_received [where ss = "with_result ?out ss" and sfs = "files be'" and run = lrun and reg = reg, OF client(1)])
      (use ss(2) client(2) run(2) in simp_all)
  show ?thesis
    using w m by (intro exI [of _ view'] exI [of _ be'] exI [of _ ss'] exI [of _ msg] exI [of _ s'] exI [of _ "mk_response code err out"])
      (simp add: mk_response_def)
qed

section \<open>A small build\<close>

definition ex_task :: compilation_request where
  "ex_task = \<lparr>invalidated = False, requester_session = ''u'', cr_compiler_name = ''g'',
     cr_cmd_line_args = [''-c'', ''/w/a.c'', ''-o'', ''/o''], cr_current_working_dir = ''/w''\<rparr>"

theorem compiled_object_reaches_client_witness:
  "\<exists>view' be' ss' msgs s' r. worker_job (\<lambda>c as d. (0, [], [])) (\<lambda>c as d fs. fs(''/o'' \<mapsto> ex_content)) 2 0 ex_task ex_view ex_be
      = Inr (view', be')
    \<and> get_session view' (requester_session ex_task) = Some ss' \<and> out_msgs ss' = out_msgs ex_ss @ msgs
    \<and> client_session_loop (\<lambda>c as d. (0, [], [])) msgs ex_waiting
        \<lparr>reg_client_uuid = ''c'', client_sessions = {}, client_compiler_calls = {}\<rparr> [''/a.o'' \<mapsto> []]
      = (s', \<lparr>reg_client_uuid = ''c'', client_sessions = {}, client_compiler_calls = {}\<rparr>,
         [''/a.o'' \<mapsto> []](obj_path ex_waiting \<mapsto> ex_content))
    \<and> unix_ipc_channel s' = unix_ipc_channel ex_waiting @ [r] \<and> compiler_exit_code r = 0
    \<and> job_done 0 (manager ex_be) (manager be')
    \<and> (\<forall>u. u \<noteq> requester_session ex_task \<longrightarrow> get_session view' u = get_session ex_view u)"
proof (rule compiled_object_reaches_client)
  show "get_session ex_view (requester_session ex_task) = Some ex_ss" by (simp add: ex_task_def ex_session)
  show "\<not> CHUNK_SIZE dvd length ex_content" by (simp add: ex_content_def CHUNK_SIZE_def nat_dvd_not_less)
qed (simp_all add: ex_task_def ex_awaiting, simp_all add: ex_defs ex_waiting_def)

theorem failed_compilation_reaches_client_witness:
  "\<exists>view' be' ss' msg s' r. worker_job (\<lambda>c as d. (1, [], ''error'')) (\<lambda>c as d fs. fs) 2 0 ex_task ex_view ex_be
      = Inr (view', be')
    \<and> get_session view' (requester_session ex_task) = Some ss' \<and> out_msgs ss' = out_msgs ex_ss @ [msg]
    \<and> client_session_loop (\<lambda>c as d. (0, [], [])) [msg] ex_waiting
        \<lparr>reg_client_uuid = ''c'', client_sessions = {}, client_compiler_calls = {}\<rparr> [''/a.o'' \<mapsto> []]
      = (s', \<lparr>reg_client_uuid = ''c'', client_sessions = {}, client_compiler_calls = {}\<rparr>, [''/a.o'' \<mapsto> []])
    \<and> unix_ipc_channel s' = unix_ipc_channel ex_waiting @ [r] \<and> compiler_exit_code r = 1
    \<and> job_done 0 (manager ex_be) (manager be')"
proof (rule failed_compilation_reaches_client)
  show "get_session ex_view (requester_session ex_task) = Some ex_ss" by (simp add: ex_task_def ex_session)
qed (simp_all add: ex_task_def ex_awaiting, simp_all add: ex_defs ex_waiting_def)

end
