(* ===== verification/Server_Machine.thy ===== *)
theory Server_Machine
  imports Server_Views
begin

text \<open>
  The whole server as a state machine: new connections, messages of the clients, and the steps of
  the worker threads, in any order. A step is one handler or one critical section of a worker; the
  compiler that a worker runs may change any file. What holds in every reachable state is proved by
  induction over the steps: the tables of the views are consistent, and no session's compilation is
  requested twice.
\<close>

section \<open>Steps\<close>

text \<open>A uuid no session and no request has: what the random generator yields.\<close>

definition fresh_session :: "string \<Rightarrow> server \<Rightarrow> bool" where
  "fresh_session uuid srv \<longleftrightarrow>
     (\<forall>view \<in> ran (client_views srv). get_session view uuid = None)
     \<and> (\<forall>r \<in> set (compile_task_queue (manager (srv_backend srv))). requester_session r \<noteq> uuid)
     \<and> (\<forall>wk \<in> set (worker_threads (manager (srv_backend srv))). \<not> holds_session uuid wk)"

definition new_server :: "u64 \<Rightarrow> file_store \<Rightarrow> server" where
  "new_server threads fs =
     \<lparr>client_views = Map.empty, srv_backend = \<lparr>manager = new_compiler_manager threads, files = fs, made_dirs = []\<rparr>\<rparr>"

definition with_view :: "string \<Rightarrow> client_view \<Rightarrow> backend \<Rightarrow> server \<Rightarrow> server" where
  "with_view c view be srv = srv\<lparr>client_views := (client_views srv)(c \<mapsto> view), srv_backend := be\<rparr>"

text \<open>The first message of a connection, if it is a start request, has the paths and the include
  options that a client makes.\<close>

definition acceptable_first :: "client_message result \<Rightarrow> bool" where
  "acceptable_first first \<longleftrightarrow>
     (case first of Inr (CSessionStart rqst) \<Rightarrow> well_formed_request rqst \<and> uuid_string (ss_client_id rqst) | _ \<Rightarrow> True)"

inductive server_step :: "(string \<Rightarrow> bool) \<Rightarrow> (string \<Rightarrow> string) \<Rightarrow> (string \<Rightarrow> bool) \<Rightarrow> string \<Rightarrow> server \<Rightarrow> server \<Rightarrow> bool"
  for openable sha valid_uuid compiler_bin where
  srv_connect: "handle_new_connection valid_uuid compiler_bin clock now suuid first srv = Inr srv' \<Longrightarrow>
     acceptable_first first \<Longrightarrow> fresh_session suuid srv \<Longrightarrow> server_step openable sha valid_uuid compiler_bin srv srv'"
| srv_message: "client_views srv c = Some view \<Longrightarrow> get_session view uuid = Some s \<Longrightarrow>
     handle_client_message openable sha now uuid msg view (srv_backend srv) = Inr (go_on, view', be') \<Longrightarrow>
     server_step openable sha valid_uuid compiler_bin srv (with_view c view' be' srv)"
| srv_take: "i < length (worker_threads (manager be)) \<Longrightarrow> worker_threads (manager be) ! i = WWaiting \<Longrightarrow>
     wait_condition (manager be) \<Longrightarrow> be = srv_backend srv \<Longrightarrow>
     server_step openable sha valid_uuid compiler_bin srv (srv\<lparr>srv_backend := be\<lparr>manager := worker_take i (manager be)\<rparr>\<rparr>)"
| srv_announce: "i < length (worker_threads (manager be)) \<Longrightarrow> worker_threads (manager be) ! i = WTaken task \<Longrightarrow>
     be = srv_backend srv \<Longrightarrow>
     server_step openable sha valid_uuid compiler_bin srv (srv\<lparr>srv_backend := be\<lparr>manager := worker_announce i task (manager be)\<rparr>\<rparr>)"
| srv_compiled: "i < length (worker_threads (manager be)) \<Longrightarrow> worker_threads (manager be) ! i = WCompiling task \<Longrightarrow>
     be = srv_backend srv \<Longrightarrow>
     server_step openable sha valid_uuid compiler_bin srv
       (srv\<lparr>srv_backend := be\<lparr>manager := worker_compiled i task out (manager be), files := fs\<rparr>\<rparr>)"
| srv_publish: "i < length (worker_threads (manager be)) \<Longrightarrow> worker_threads (manager be) ! i = WCompiled task out \<Longrightarrow>
     be = srv_backend srv \<Longrightarrow> client_views srv c = Some view \<Longrightarrow>
     publish_compilation_results (requester_session task) out view be = Inr view' \<Longrightarrow>
     server_step openable sha valid_uuid compiler_bin srv (with_view c view' (be\<lparr>manager := worker_publish i (manager be)\<rparr>) srv)"

inductive server_reachable :: "(string \<Rightarrow> bool) \<Rightarrow> (string \<Rightarrow> string) \<Rightarrow> (string \<Rightarrow> bool) \<Rightarrow> string \<Rightarrow> server \<Rightarrow> bool"
  for openable sha valid_uuid compiler_bin where
  server_start: "server_reachable openable sha valid_uuid compiler_bin (new_server threads fs)"
| server_next: "server_reachable openable sha valid_uuid compiler_bin srv \<Longrightarrow> server_step openable sha valid_uuid compiler_bin srv srv' \<Longrightarrow>
     server_reachable openable sha valid_uuid compiler_bin srv'"

section \<open>Consistent views\<close>

text \<open>Every transfer of a session belongs to it and writes to the file it is filed under, and the
  compiler arguments of a session end with the file that is sent back.\<close>

definition session_ok :: "string \<Rightarrow> server_session \<Rightarrow> bool" where
  "session_ok uuid s \<longleftrightarrow> session_uuid s = uuid \<and> (are_args_ready s \<longrightarrow> obj_arg_ok s) \<and>
     (\<forall>n ts. file_transfer_states s n = Some ts \<longrightarrow> stream_path (file_out_stream ts) = n \<and> ft_session_id ts = uuid)"

definition view_ok :: "client_view \<Rightarrow> bool" where
  "view_ok view \<longleftrightarrow> view_paths_ok view \<and> distinct (session_keys view)
     \<and> (\<forall>uuid s. get_session view uuid = Some s \<longrightarrow> session_ok uuid s)"

lemma view_ok_upd_session:
  assumes "view_ok view" "\<And>s. get_session view u = Some s \<Longrightarrow> session_ok u s \<Longrightarrow> session_ok u (f s)"
  shows "view_ok (upd_session u f view)"
  using assms by (auto simp: view_ok_def view_paths_ok_def sessions.lookup_modify split: if_splits)

lemma session_ok_send [simp]: "session_ok u (send_msg m s) = session_ok u s"
  by (simp add: session_ok_def)

lemma session_ok_mark [simp]: "session_ok u (mark_running v s) = session_ok u s"
  by (simp add: session_ok_def)

lemma session_ok_with_transfer:
  "session_ok u s \<Longrightarrow> stream_path (file_out_stream ts) = n \<Longrightarrow> ft_session_id ts = u \<Longrightarrow> session_ok u (with_transfer n ts s)"
  by (simp add: session_ok_def)

lemma session_keys_status [simp]: "session_keys (set_file_status p st view) = session_keys view"
  by (simp add: session_keys_def)

lemma session_keys_transfer [simp]: "session_keys (set_transfer u n ts view) = session_keys view"
  by (simp add: set_transfer_def)

lemma session_keys_ts [simp]: "session_keys (update_last_active_ts now view) = session_keys view"
  by (simp add: session_keys_def)

lemma view_paths_ok_status [simp]: "view_paths_ok (set_file_status p st view) = view_paths_ok view"
  by (auto simp: view_paths_ok_def client_file_states_set_status split: if_splits)

lemma view_ok_status [simp]: "view_ok (set_file_status p st view) = view_ok view"
  by (simp add: view_ok_def)

lemma view_ok_ts [simp]: "view_ok (update_last_active_ts now view) = view_ok view"
  by (simp add: view_ok_def view_paths_ok_def)

lemma view_ok_transfer:
  "view_ok view \<Longrightarrow> stream_path (file_out_stream ts) = n \<Longrightarrow> ft_session_id ts = u \<Longrightarrow> view_ok (set_transfer u n ts view)"
  by (auto simp: view_ok_def view_paths_ok_def session_ok_with_transfer split: if_splits)

lemma view_ok_try_compile:
  assumes "try_compile_for_active_sessions view be = (view', be')" "view_ok view"
  shows "view_ok view'"
  using try_compile_frame [OF assms(1)] session_keys_try_compile [OF assms(1)] assms(2)
  by (auto simp: view_ok_def view_paths_ok_def)

section \<open>Requests of a session\<close>

definition reqs :: "compiler_manager \<Rightarrow> string \<Rightarrow> nat" where
  "reqs m u = length (filter (\<lambda>r. requester_session r = u) (compile_task_queue m))
     + length (filter (holds_session u) (worker_threads m))"

text \<open>A session has asked for its compilation at most once, and not at all before it is marked.\<close>

definition once :: "client_view \<Rightarrow> compiler_manager \<Rightarrow> bool" where
  "once view m \<longleftrightarrow> (\<forall>u s. get_session view u = Some s \<longrightarrow> reqs m u \<le> (if is_compiler_running s then 1 else 0))"

lemma newly_ready_Cons:
  "newly_ready view ((k, s) # ss) = (if all_there view s \<and> \<not> is_compiler_running s then [s] else []) @ newly_ready view ss"
  by (simp add: newly_ready_def)

lemma newly_ready_count:
  assumes "distinct (map fst ss)" "\<forall>u s. map_of ss u = Some s \<longrightarrow> session_uuid s = u"
  shows "length (filter (\<lambda>r. requester_session r = u) (map request_of (newly_ready view ss))) =
    (case map_of ss u of None \<Rightarrow> 0 | Some s \<Rightarrow> if all_there view s \<and> \<not> is_compiler_running s then 1 else 0)"
  using assms
proof (induction ss)
  case (Cons x ss)
  obtain k s where x: "x = (k, s)" by (cases x)
  have k: "k \<notin> fst ` set ss" and uuid: "session_uuid s = k" using Cons.prems x by auto
  have rest: "\<forall>u s. map_of ss u = Some s \<longrightarrow> session_uuid s = u"
    using Cons.prems(2) x k by (metis domI dom_map_of_conv_image_fst map_of_Cons_code(2))
  then have "length (filter (\<lambda>r. requester_session r = u) (map request_of (newly_ready view ss))) =
    (case map_of ss u of None \<Rightarrow> 0 | Some s \<Rightarrow> if all_there view s \<and> \<not> is_compiler_running s then 1 else 0)"
    using Cons.IH Cons.prems(1) by simp
  moreover have "map_of ss k = None" using k by (simp add: map_of_eq_None_iff)
  ultimately show ?case using x uuid by (auto simp: newly_ready_Cons request_of_def [of s])
qed (simp add: newly_ready_def)

lemma reqs_append: "reqs (m\<lparr>compile_task_queue := compile_task_queue m @ rs\<rparr>) u =
    reqs m u + length (filter (\<lambda>r. requester_session r = u) rs)"
  by (simp add: reqs_def)

lemma reqs_try_compile:
  assumes "try_compile_for_active_sessions view be = (view', be')" "view_ok view"
  shows "reqs (manager be') u = reqs (manager be) u +
    (case get_session view u of None \<Rightarrow> 0 | Some s \<Rightarrow> if all_there view s \<and> \<not> is_compiler_running s then 1 else 0)"
proof -
  have "distinct (map fst (associated_sessions view))" "\<forall>u s. map_of (associated_sessions view) u = Some s \<longrightarrow> session_uuid s = u"
    using assms(2) by (auto simp: view_ok_def session_keys_def session_ok_def get_session_def)
  from newly_ready_count [OF this] show ?thesis
    using assms(1) by (auto simp: try_compile_eq reqs_append get_session_def)
qed

text \<open>A session that is marked as compiling has its request in the queue.\<close>

definition queued :: "string \<Rightarrow> client_view \<Rightarrow> compiler_manager \<Rightarrow> bool" where
  "queued u view m \<longleftrightarrow> (\<forall>s. get_session view u = Some s \<longrightarrow> is_compiler_running s \<longrightarrow> request_of s \<in> set (compile_task_queue m))"

lemma queued_try_compile:
  assumes "try_compile_for_active_sessions view be = (view', be')" "queued u view (manager be)"
  shows "queued u view' (manager be')"
  unfolding queued_def
proof (intro allI impI)
  fix s' assume s': "get_session view' u = Some s'" "is_compiler_running s'"
  then obtain s where s: "get_session view u = Some s" "s' = mark_running view' s"
    using try_compile_frame(5) [OF assms(1), of u] by auto
  have "(u, s) \<in> set (associated_sessions view)" using s(1) by (auto simp: get_session_def dest: map_of_SomeD)
  moreover have "is_compiler_running s \<or> all_there view s"
    using s'(2) s(2) try_compile_frame(4) [OF assms(1)] by (auto simp: mark_running_def)
  ultimately have "request_of s \<in> set (compile_task_queue (manager be)) \<or> s \<in> set (newly_ready view (associated_sessions view))"
    using assms(2) s(1) by (force simp: queued_def newly_ready_def)
  then show "request_of s' \<in> set (compile_task_queue (manager be'))"
    using assms(1) s(2) by (auto simp: try_compile_eq)
qed

text \<open>What the handlers do to a view and the queue: the two stay consistent, the sessions and the
  workspace stay, and nothing is asked for sessions of other views.\<close>

definition advances :: "client_view \<Rightarrow> backend \<Rightarrow> client_view \<Rightarrow> backend \<Rightarrow> bool" where
  "advances view be view' be' \<longleftrightarrow>
     (view_ok view \<longrightarrow> view_ok view') \<and> (view_ok view \<longrightarrow> once view (manager be) \<longrightarrow> once view' (manager be'))
     \<and> session_keys view' = session_keys view \<and> cv_working_dir view' = cv_working_dir view
     \<and> (view_ok view \<longrightarrow> (\<forall>u. u \<notin> set (session_keys view) \<longrightarrow> reqs (manager be') u = reqs (manager be) u))
     \<and> (\<forall>u. queued u view (manager be) \<longrightarrow> queued u view' (manager be'))
     \<and> (\<forall>u. map_option request_of (get_session view' u) = map_option request_of (get_session view u))"

lemma get_session_keys: "get_session view u = None \<longleftrightarrow> u \<notin> set (session_keys view)"
  by (simp add: get_session_def session_keys_def map_of_eq_None_iff)

lemma advances_refl [simp]: "advances view be view be"
  by (simp add: advances_def)

lemma advances_trans [trans]: "advances v b v1 b1 \<Longrightarrow> advances v1 b1 v2 b2 \<Longrightarrow> advances v b v2 b2"
  by (auto simp: advances_def)

lemma advances_files [simp]: "advances view be view (be\<lparr>files := fs\<rparr>)"
  by (simp add: advances_def)

lemma advances_status: "advances view be (set_file_status p st view) be"
  by (simp add: advances_def once_def queued_def)

lemma advances_ts: "advances view be (update_last_active_ts now view) be"
  by (simp add: advances_def once_def queued_def)

lemma advances_upd_session:
  assumes "\<And>s. session_ok u s \<Longrightarrow> session_ok u (f s)" "\<And>s. is_compiler_running (f s) = is_compiler_running s"
    and "\<And>s. request_of (f s) = request_of s"
  shows "advances view be (upd_session u f view) be"
  using assms view_ok_upd_session [of view u f]
  by (auto simp: advances_def once_def queued_def sessions.lookup_modify option.map_comp comp_def split: if_splits)

lemma advances_transfer:
  assumes "stream_path (file_out_stream ts) = n" "ft_session_id ts = u"
  shows "advances view be (set_transfer u n ts view) be"
  unfolding set_transfer_def
  by (rule advances_upd_session) (use assms in \<open>auto simp: session_ok_def obj_arg_ok_def request_of_def\<close>)

lemma advances_send: "advances view be (upd_session u (send_msg m) view) be"
  by (rule advances_upd_session) simp_all

lemma advances_try_compile:
  assumes "try_compile_for_active_sessions view be = (view', be')"
  shows "advances view be view' be'"
  unfolding advances_def
proof (intro conjI impI)
  assume ok: "view_ok view" and o: "once view (manager be)"
  show "once view' (manager be')"
    unfolding once_def
  proof (intro allI impI)
    fix u s' assume "get_session view' u = Some s'"
    then obtain s where s: "get_session view u = Some s" "s' = mark_running view' s"
      using try_compile_frame(5) [OF assms, of u] by auto
    have "reqs (manager be) u \<le> (if is_compiler_running s then 1 else 0)" using o s by (simp add: once_def)
    moreover have "all_there view' s = all_there view s" using try_compile_frame(4) [OF assms] by simp
    ultimately show "reqs (manager be') u \<le> (if is_compiler_running s' then 1 else 0)"
      using reqs_try_compile [OF assms ok, of u] s by (auto simp: mark_running_def split: if_splits)
  qed
next
  assume ok: "view_ok view"
  show "view_ok view'" by (rule view_ok_try_compile [OF assms ok])
  show "\<forall>u. u \<notin> set (session_keys view) \<longrightarrow> reqs (manager be') u = reqs (manager be) u"
    using reqs_try_compile [OF assms ok] by (auto simp: get_session_keys [symmetric])
next
  show "\<forall>u. queued u view (manager be) \<longrightarrow> queued u view' (manager be')" using queued_try_compile [OF assms] by blast
next
  show "\<forall>u. map_option request_of (get_session view' u) = map_option request_of (get_session view u)"
    by (simp add: try_compile_frame(5) [OF assms] option.map_comp comp_def)
qed (use session_keys_try_compile [OF assms] try_compile_frame(2) [OF assms] in simp_all)

lemma advances_finish:
  assumes "finish_upload sha uuid p cur view be = (r, view', be')"
  shows "advances view be view' be' \<and> files be' = files be"
proof (cases "file_size (files be) (server_file_path cur)")
  case (Inr sz)
  show ?thesis
  proof (cases "file_sz_bytes cur = sz")
    case True
    define v1 where "v1 = set_file_status p FILE_STATUS_AVAILABLE
      (if file_sha1 cur \<noteq> sha (case files be (server_file_path cur) of None \<Rightarrow> [] | Some c \<Rightarrow> c)
       then set_file_status p FILE_STATUS_FAULT view else view)"
    obtain v2 b2 where t: "try_compile_for_active_sessions v1 be = (v2, b2)" by fastforce
    have "view' = upd_session uuid (send_msg (SFileUpComplete uuid p True)) v2" "be' = b2"
      using assms Inr True t by (auto simp: finish_upload_def v1_def Let_def)
    moreover have "advances view be v1 be"
      unfolding v1_def by (auto intro: advances_trans [OF advances_status advances_status] advances_status)
    ultimately show ?thesis
      using advances_try_compile [OF t] advances_send advances_trans try_compile_frame(3) [OF t] by metis
  qed (use assms Inr advances_status in \<open>auto simp: finish_upload_def\<close>)
qed (use assms in \<open>auto simp: finish_upload_def\<close>)

section \<open>Handlers\<close>

lemma stream_path_frame [simp]:
  "stream_path (fst (open_out openable p fs)) = p"
  "stream_path (fst (stream_write st d fs)) = stream_path st"
  "stream_path (stream_close st) = stream_path st"
  by (simp_all add: open_out_def stream_write_def stream_close_def)

lemma open_out_other: "q \<noteq> p \<Longrightarrow> snd (open_out openable p fs) q = fs q"
  by (simp add: open_out_def)

text \<open>The transfer a chunk goes to: the one on file, or a new one.\<close>

definition transfer_of ::
    "(string \<Rightarrow> bool) \<Rightarrow> string \<Rightarrow> string \<Rightarrow> server_session \<Rightarrow> file_store \<Rightarrow> file_transfer_state \<times> file_store" where
  "transfer_of openable uuid n s fs =
     (case file_transfer_states s n of Some ts \<Rightarrow> (ts, fs) | None \<Rightarrow> new_file_transfer_state openable uuid n fs)"

lemma transfer_of_ok:
  assumes "transfer_of openable uuid n s fs = (ts, fs')" "session_ok uuid s"
  shows "stream_path (file_out_stream ts) = n" "ft_session_id ts = uuid" "\<forall>q. q \<noteq> n \<longrightarrow> fs' q = fs q"
  using assms open_out_other [of _ n openable fs]
  by (auto simp: transfer_of_def new_file_transfer_state_def session_ok_def split: option.splits prod.splits)
    (metis fst_conv stream_path_frame(1))+

lemma process_chunk_advances:
  assumes "process_file_chunk openable sha uuid chunk s view be = (r, view', be')"
    and "get_session view uuid = Some s" "view_ok view"
  shows "advances view be view' be' \<and>
    (\<forall>q. files be' q \<noteq> files be q \<longrightarrow> (\<exists>cur. client_file_states view (fc_filename chunk) = Some cur \<and> q = server_file_path cur))"
proof (cases "client_file_states view (fc_filename chunk)")
  case (Some cur)
  let ?n = "server_file_path cur" and ?p = "fc_filename chunk"
  have sok: "session_ok uuid s" using assms(2,3) by (simp add: view_ok_def)
  obtain ts fs where t: "transfer_of openable uuid ?n s (files be) = (ts, fs)" by fastforce
  note tok = transfer_of_ok [OF t sok]
  obtain st fs1 where w: "stream_write (file_out_stream ts) (fc_data chunk) fs = (st, fs1)" by fastforce
  have st: "stream_path st = ?n" "\<forall>q. q \<noteq> ?n \<longrightarrow> fs1 q = files be q"
    using w tok stream_path_frame(2) [of "file_out_stream ts" "fc_data chunk" fs]
      stream_write_other [of _ "file_out_stream ts" "fc_data chunk" fs] by auto
  have adv: "advances view be (set_transfer uuid ?n ts' view) (be\<lparr>files := fs'\<rparr>)"
    if "stream_path (file_out_stream ts') = ?n" "ft_session_id ts' = uuid" for ts' fs'
    by (rule advances_trans [OF advances_files advances_transfer [OF that]])
  define ts1 where "ts1 = ts\<lparr>last_offset := fc_offset chunk, last_seq_no := fc_sequence_no chunk, file_out_stream := st\<rparr>"
  define fin where "fin = finish_upload sha uuid ?p cur
    (set_transfer uuid ?n (ts1\<lparr>is_finished := True, file_out_stream := stream_close st\<rparr>) view) (be\<lparr>files := fs1\<rparr>)"
  have "(r, view', be') =
    (if fc_session_id chunk \<noteq> uuid then (Inr False, set_file_status ?p FILE_STATUS_FAULT view, be)
     else if is_finished ts then (Inr True, set_transfer uuid ?n ts view, be\<lparr>files := fs\<rparr>)
     else if ft_session_id ts \<noteq> uuid \<or> fc_sequence_no chunk \<noteq> last_seq_no ts + 1 \<or> fc_offset chunk < last_offset ts
     then (Inr False, set_file_status ?p FILE_STATUS_FAULT
       (set_transfer uuid ?n (ts\<lparr>is_finished := True, file_out_stream := stream_close (file_out_stream ts)\<rparr>) view), be\<lparr>files := fs\<rparr>)
     else if \<not> fc_is_last_chunk chunk then (Inr True, set_transfer uuid ?n ts1 view, be\<lparr>files := fs1\<rparr>) else fin)"
    unfolding assms(1) [symmetric] fin_def ts1_def using Some t w
    by (simp add: process_file_chunk_def get_file_state_def transfer_of_def [symmetric] Let_def)
  moreover have "advances view be v b \<and> files b = fs1" if "fin = (r', v, b)" for r' v b
    using advances_finish [OF that [unfolded fin_def]] adv [of "ts1\<lparr>is_finished := True, file_out_stream := stream_close st\<rparr>" fs1]
      st(1) tok(2) advances_trans by (fastforce simp: ts1_def)
  moreover have "advances view be (set_file_status ?p FILE_STATUS_FAULT v) b" if "advances view be v b" for v b
    by (rule advances_trans [OF that advances_status])
  ultimately show ?thesis
    using adv tok st Some advances_status by (auto simp: ts1_def split: if_splits)
qed (use assms(1) in \<open>simp_all add: process_file_chunk_def get_file_state_def\<close>)

section \<open>The invariant of the server\<close>

definition server_inv :: "server \<Rightarrow> bool" where
  "server_inv srv \<longleftrightarrow>
     (\<forall>c view. client_views srv c = Some view \<longrightarrow>
        view_ok view \<and> once view (manager (srv_backend srv)) \<and> cv_working_dir view = path_append CLIENTS_WORKSPACE c)
     \<and> (\<forall>c d v w u. client_views srv c = Some v \<longrightarrow> client_views srv d = Some w \<longrightarrow>
        u \<in> set (session_keys v) \<longrightarrow> u \<in> set (session_keys w) \<longrightarrow> c = d)
     \<and> (\<forall>u. reqs (manager (srv_backend srv)) u \<le> 1)"

lemma server_invD:
  assumes "server_inv srv" "client_views srv c = Some view"
  shows "view_ok view" "once view (manager (srv_backend srv))" "cv_working_dir view = path_append CLIENTS_WORKSPACE c"
  using assms by (auto simp: server_inv_def)

lemma once_mono: "once view m \<Longrightarrow> \<forall>u \<in> set (session_keys view). reqs m' u \<le> reqs m u \<Longrightarrow> once view m'"
  by (metis (no_types, lifting) get_session_keys le_trans once_def option.distinct(1))

lemma server_inv_update:
  assumes inv: "server_inv srv"
    and new: "view_ok view'" "once view' (manager be')" "cv_working_dir view' = path_append CLIENTS_WORKSPACE c"
    and keys: "\<forall>u \<in> set (session_keys view'). \<forall>d w. client_views srv d = Some w \<longrightarrow> u \<in> set (session_keys w) \<longrightarrow> d = c"
    and rest: "\<forall>u. u \<notin> set (session_keys view') \<longrightarrow> reqs (manager be') u \<le> 1"
    and others: "\<forall>d w u. d \<noteq> c \<longrightarrow> client_views srv d = Some w \<longrightarrow> u \<in> set (session_keys w) \<longrightarrow>
      reqs (manager be') u \<le> reqs (manager (srv_backend srv)) u"
  shows "server_inv (with_view c view' be' srv)"
proof -
  have "reqs (manager be') u \<le> 1" for u
  proof (cases "get_session view' u")
    case None
    then show ?thesis using rest by (simp add: get_session_keys)
  next
    case (Some s)
    then have "reqs (manager be') u \<le> (if is_compiler_running s then 1 else 0)" using new(2) by (simp add: once_def)
    then show ?thesis by (simp split: if_splits)
  qed
  moreover have "once w (manager be')" if "d \<noteq> c" "client_views srv d = Some w" for d w
    using once_mono [of w "manager (srv_backend srv)"] server_invD [OF inv that(2)] others that by blast
  moreover have "c = d" if "client_views srv d = Some w" "u \<in> set (session_keys view')" "u \<in> set (session_keys w)" for d w u
    using keys that by blast
  ultimately show ?thesis
    using inv new unfolding server_inv_def with_view_def by auto
qed

text \<open>The three ways a step changes the server: through the handlers of one view, by ending a session,
  and by a worker.\<close>

lemma server_inv_advances:
  assumes "server_inv srv" "client_views srv c = Some view" "advances view (srv_backend srv) view' be'"
  shows "server_inv (with_view c view' be' srv)"
proof (rule server_inv_update [OF assms(1)])
  note v = server_invD [OF assms(1,2)] and adv = assms(3) [unfolded advances_def]
  show "view_ok view'" "once view' (manager be')" "cv_working_dir view' = path_append CLIENTS_WORKSPACE c" using v adv by auto
  show "\<forall>u \<in> set (session_keys view'). \<forall>d w. client_views srv d = Some w \<longrightarrow> u \<in> set (session_keys w) \<longrightarrow> d = c"
    using assms(1,2) adv unfolding server_inv_def by (metis (no_types, lifting))
  have r: "\<forall>u. u \<notin> set (session_keys view) \<longrightarrow> reqs (manager be') u = reqs (manager (srv_backend srv)) u" using adv v(1) by blast
  then show "\<forall>u. u \<notin> set (session_keys view') \<longrightarrow> reqs (manager be') u \<le> 1"
    using adv assms(1) by (simp add: server_inv_def)
  show "\<forall>d w u. d \<noteq> c \<longrightarrow> client_views srv d = Some w \<longrightarrow> u \<in> set (session_keys w) \<longrightarrow>
      reqs (manager be') u \<le> reqs (manager (srv_backend srv)) u"
    using r assms(1,2) unfolding server_inv_def by (metis (no_types, lifting) order_refl)
qed

lemma reqs_invalidate [simp]: "reqs (invalidate_requests_for_session sess m) u = reqs m u"
  by (simp add: reqs_def invalidate_requests_for_session_def filter_map comp_def if_distrib [of requester_session] cong: if_cong)

lemma get_session_remove: "get_session (remove_session uuid view) u = (if u = uuid then None else get_session view u)"
  by (simp add: get_session_def remove_session_def map_of_filter_key)

lemma session_keys_remove: "session_keys (remove_session uuid view) = filter (\<lambda>k. k \<noteq> uuid) (session_keys view)"
  by (auto simp: session_keys_def remove_session_def filter_map comp_def intro!: arg_cong [of _ _ "map fst"] filter_cong)

lemma remove_session_frame [simp]:
  "client_file_states (remove_session uuid view) = client_file_states view"
  "cv_working_dir (remove_session uuid view) = cv_working_dir view"
  by (simp_all add: remove_session_def)

lemma server_inv_terminate:
  assumes "server_inv srv" "client_views srv c = Some view"
    and "terminate_server_session uuid view (srv_backend srv) = (view', be')"
  shows "server_inv (with_view c view' be' srv)"
proof (rule server_inv_update [OF assms(1)])
  note v = server_invD [OF assms(1,2)]
  have g: "get_session view' u = (if u = uuid then None else get_session view u)" for u
    using assms(3) by (auto simp: terminate_server_session_def get_session_remove sessions.lookup_modify)
  have k: "session_keys view' = filter (\<lambda>k. k \<noteq> uuid) (session_keys view)"
    and w: "client_file_states view' = client_file_states view" "cv_working_dir view' = cv_working_dir view"
    and m: "\<forall>u. reqs (manager be') u = reqs (manager (srv_backend srv)) u"
    using assms(3) by (auto simp: terminate_server_session_def session_keys_remove)
  show "view_ok view'" using v(1) g k w by (auto simp: view_ok_def view_paths_ok_def split: if_splits)
  show "once view' (manager be')" using v(2) g m by (auto simp: once_def split: if_splits)
  show "cv_working_dir view' = path_append CLIENTS_WORKSPACE c" using v w by simp
  show "\<forall>u \<in> set (session_keys view'). \<forall>d w. client_views srv d = Some w \<longrightarrow> u \<in> set (session_keys w) \<longrightarrow> d = c"
    using assms(1,2) k by (auto simp: server_inv_def)
qed (use assms(1) assms(3) in \<open>auto simp: terminate_server_session_def server_inv_def\<close>)

lemma chunk_message_advances:
  assumes "get_session view uuid = Some s" "view_ok view"
    and "handle_client_message openable sha now uuid (CFileChunkUpload chunk) view be = Inr (go_on, view', be')"
  shows "advances view be view' be'"
proof -
  let ?v = "update_last_active_ts now view"
  obtain r v1 b1 where p: "process_file_chunk openable sha uuid chunk s ?v be = (r, v1, b1)"
    by (metis prod_cases3)
  have "advances ?v be v1 b1"
    using process_chunk_advances [OF p] assms(1,2) by simp
  with advances_ts have a: "advances view be v1 b1" by (rule advances_trans)
  have "(view' = v1 \<or> view' = upd_session uuid (send_msg (SSessionAbort uuid [])) v1) \<and> be' = b1"
    using assms(1,3) p
    by (auto simp: handle_client_message_def split: sum.splits cpp_error.splits bool.splits)
  then show ?thesis using a advances_trans [OF a advances_send] by auto
qed

lemma server_inv_message:
  assumes "server_inv srv" "client_views srv c = Some view" "get_session view uuid = Some s"
    and "handle_client_message openable sha now uuid msg view (srv_backend srv) = Inr (go_on, view', be')"
  shows "server_inv (with_view c view' be' srv)"
proof (cases msg)
  case (CSessionStart x)
  then have "advances view (srv_backend srv) view' be'" using assms(4) advances_ts by (auto simp: handle_client_message_def)
  then show ?thesis by (rule server_inv_advances [OF assms(1,2)])
next
  case (CFileChunkUpload chunk)
  then have "advances view (srv_backend srv) view' be'"
    using chunk_message_advances [OF assms(3) server_invD(1) [OF assms(1,2)]] assms(4) by simp
  then show ?thesis by (rule server_inv_advances [OF assms(1,2)])
qed (use assms(4) server_inv_terminate [OF assms(1,2)] in \<open>auto simp: handle_client_message_def split: prod.splits\<close>)

lemma filter_update_length:
  assumes "i < length xs"
  shows "length (filter P (xs[i := x])) + (if P (xs ! i) then 1 else 0) = length (filter P xs) + (if P x then 1 else 0)"
  using assms
proof (induction xs arbitrary: i)
  case (Cons y ys)
  then show ?case by (cases i) auto
qed simp

lemma reqs_set_worker:
  assumes "i < length (worker_threads m)"
  shows "reqs (set_worker i wk m) u + (if holds_session u (worker_threads m ! i) then 1 else 0)
    = reqs m u + (if holds_session u wk then 1 else 0)"
  using filter_update_length [OF assms, of "holds_session u" wk] by (simp add: reqs_def set_worker_def)

lemma holds_simps [simp]:
  "\<not> holds_session u WWaiting" "\<not> holds_session u WExited"
  "holds_session u (WTaken r) \<longleftrightarrow> requester_session r = u"
  "holds_session u (WCompiling r) \<longleftrightarrow> requester_session r = u"
  "holds_session u (WCompiled r out) \<longleftrightarrow> requester_session r = u"
  by (simp_all add: holds_session_def)

lemma reqs_frame [simp]:
  "reqs (m\<lparr>active_compile_jobs := a\<rparr>) u = reqs m u" "reqs (m\<lparr>advertised_jobs := n\<rparr>) u = reqs m u"
  by (simp_all add: reqs_def)

lemma reqs_take:
  assumes "i < length (worker_threads m)" "worker_threads m ! i = WWaiting"
  shows "reqs (worker_take i m) u \<le> reqs m u"
proof (cases "compile_task_queue m")
  case (Cons task queue)
  let ?m = "m\<lparr>compile_task_queue := queue, active_compile_jobs := active_compile_jobs m + 1\<rparr>"
  have "reqs m u = reqs ?m u + (if requester_session task = u then 1 else 0)"
    using Cons by (simp add: reqs_def)
  moreover have "reqs (set_worker i (WTaken task) ?m) u = reqs ?m u + (if requester_session task = u then 1 else 0)"
    using reqs_set_worker [of i ?m "WTaken task" u] assms by simp
  moreover have "reqs (m\<lparr>compile_task_queue := queue\<rparr>) u \<le> reqs m u"
    using Cons by (simp add: reqs_def)
  ultimately show ?thesis using Cons by (simp add: worker_take_def Let_def)
next
  case Nil
  then show ?thesis using reqs_set_worker [OF assms(1), of WExited u] assms by (simp add: worker_take_def)
qed

lemma reqs_worker_move:
  assumes "i < length (worker_threads m)" "worker_threads m' = worker_threads m" "compile_task_queue m' = compile_task_queue m"
    and "holds_session u wk \<longrightarrow> holds_session u (worker_threads m ! i)"
  shows "reqs (set_worker i wk m') u \<le> reqs m u"
proof -
  have "reqs m' u = reqs m u" using assms(2,3) by (simp add: reqs_def)
  then show ?thesis using reqs_set_worker [of i m' wk u] assms by (simp split: if_splits)
qed

lemma reqs_worker_step:
  assumes "i < length (worker_threads m)"
  shows "worker_threads m ! i = WTaken task \<Longrightarrow> reqs (worker_announce i task m) u \<le> reqs m u"
    and "worker_threads m ! i = WCompiling task \<Longrightarrow> reqs (worker_compiled i task out m) u \<le> reqs m u"
    and "worker_threads m ! i = WCompiled task out \<Longrightarrow> reqs (worker_publish i m) u \<le> reqs m u"
  unfolding worker_announce_def worker_compiled_def worker_publish_def
  by (intro reqs_worker_move; simp add: assms set_available_jobs_def)+

lemma server_inv_backend:
  assumes "server_inv srv" "\<forall>u. reqs (manager be) u \<le> reqs (manager (srv_backend srv)) u"
  shows "server_inv (srv\<lparr>srv_backend := be\<rparr>)"
proof -
  have "once view (manager be)" if "client_views srv c = Some view" for c view
    using once_mono server_invD(2) [OF assms(1) that] assms(2) by blast
  moreover have "reqs (manager be) u \<le> 1" for u
    using assms le_trans unfolding server_inv_def by blast
  ultimately show ?thesis using assms(1) unfolding server_inv_def by simp
qed

lemma server_inv_publish:
  assumes "server_inv srv" "client_views srv c = Some view"
    and "publish_compilation_results uuid out view be = Inr view'"
  shows "server_inv (with_view c view' (srv_backend srv) srv)"
proof (rule server_inv_advances [OF assms(1,2)])
  let ?f = "\<lambda>s. send_compilation_result (files be)
    (s\<lparr>ses_exit_code := exit_code out, ses_stdout := stdout_data out,
       ses_stderr := stderr_data out, compile_duration := compiling_duration out\<rparr>)"
  have send: "session_ok u (fold send_msg ms s) = session_ok u s"
      "is_compiler_running (fold send_msg ms s) = is_compiler_running s" "request_of (fold send_msg ms s) = request_of s" for u ms s
    by (induction ms arbitrary: s) simp_all
  have "view' = upd_session uuid ?f view"
    using assms(3) by (auto simp: publish_compilation_results_def split: option.splits)
  then show "advances view (srv_backend srv) view' (srv_backend srv)"
    by (simp only:) (rule advances_upd_session, simp_all add: send_compilation_result_def send,
      simp_all add: session_ok_def obj_arg_ok_def request_of_def)
qed

lemma prepared_ok:
  assumes "session_prepared compiler_bin now uuid rqst view be v b s" "view_ok view" "uuid \<notin> set (session_keys view)"
    and "once view (manager be)" "reqs (manager be) uuid = 0"
  shows "view_ok v" "once v (manager b)"
proof -
  note p = assms(1) [unfolded session_prepared_def]
  have "view_paths_ok v"
    unfolding view_paths_ok_def
  proof (intro allI impI)
    fix q st assume "client_file_states v q = Some st"
    then obtain st0 where "registered (ss_required_files_info rqst) view q = Some st0" "server_file_path st = server_file_path st0"
      using p registered_same [of q "ss_required_files_info rqst" view] by (auto simp: after_request_def split: if_splits)
    then show "server_file_path st = cnvt_client_to_server_path (cv_working_dir v) q"
      using registered_paths_ok assms(2) p by (simp add: view_ok_def)
  qed
  then show "view_ok v" using p assms(2,3) by (auto simp: view_ok_def session_ok_def split: if_splits)
  show "once v (manager b)" using p assms(4,5) by (auto simp: once_def split: if_splits)
qed

lemma fresh_reqs: "fresh_session uuid srv \<Longrightarrow> reqs (manager (srv_backend srv)) uuid = 0"
  by (auto simp: fresh_session_def reqs_def filter_empty_conv)

lemma new_view_consistent: "view_ok (new_client_view c cwd clock) \<and> once (new_client_view c cwd clock) m"
  using new_view_ok [of c cwd clock]
  by (simp add: view_ok_def once_def new_client_view_def get_session_def session_keys_def)

lemma server_inv_new_view:
  assumes inv: "server_inv srv" and rq: "well_formed_request rqst" "uuid_string c" and fresh: "fresh_session suuid srv"
    and view: "client_views srv c = Some view \<or> client_views srv c = None \<and> view = new_client_view c (path_append CLIENTS_WORKSPACE c) clock"
    and be: "manager be = manager (srv_backend srv)"
    and add: "add_session compiler_bin now suuid rqst view be = Inr (view', be')"
  shows "server_inv (with_view c view' be' srv)"
proof -
  have v: "view_ok view" "once view (manager be)" "cv_working_dir view = path_append CLIENTS_WORKSPACE c"
    using view server_invD [OF inv] be new_view_consistent
    by (auto simp: new_client_view_def [of c "path_append CLIENTS_WORKSPACE c" clock, THEN arg_cong, of cv_working_dir])
  have f: "get_session view suuid = None"
    using view fresh by (auto simp: fresh_session_def ran_def new_client_view_def get_session_def)
  obtain w b s where a: "add_session compiler_bin now suuid rqst view be = Inr (try_compile_for_active_sessions w b)"
    and p: "session_prepared compiler_bin now suuid rqst view be w b s"
    by (rule add_session_prepared [OF rq(1) _ _ f]) (use v client_workspace [OF rq(2)] in \<open>simp_all add: view_ok_def\<close>)
  have t: "try_compile_for_active_sessions w b = (view', be')" using a add by simp
  have w: "view_ok w" "once w (manager b)" "manager b = manager (srv_backend srv)" "session_keys w = session_keys view @ [suuid]"
      "cv_working_dir w = cv_working_dir view"
    using prepared_ok [OF p v(1) _ v(2)] f fresh_reqs [OF fresh] be p by (simp_all add: get_session_keys session_prepared_def)
  note adv = advances_try_compile [OF t, unfolded advances_def] 
  have r: "reqs (manager be') u = reqs (manager (srv_backend srv)) u" if "u \<notin> set (session_keys w)" for u
    using adv w that by simp
  show ?thesis
  proof (rule server_inv_update [OF inv])
    show "view_ok view'" "once view' (manager be')" "cv_working_dir view' = path_append CLIENTS_WORKSPACE c"
      using adv w v by auto
    have own: "d = c" if "client_views srv d = Some x" "u \<in> set (session_keys x)" "u \<in> set (session_keys w)" for u d x
    proof -
      have "u \<noteq> suuid" using that(1,2) fresh by (auto simp: fresh_session_def ran_def get_session_keys)
      then have "u \<in> set (session_keys view)" using that(3) w(4) by simp
      moreover from this have "client_views srv c = Some view"
        using view by (auto simp: new_client_view_def session_keys_def)
      ultimately show ?thesis using inv that(1,2) unfolding server_inv_def by blast
    qed
    then show "\<forall>u \<in> set (session_keys view'). \<forall>d x. client_views srv d = Some x \<longrightarrow> u \<in> set (session_keys x) \<longrightarrow> d = c"
      using adv by metis
    show "\<forall>u. u \<notin> set (session_keys view') \<longrightarrow> reqs (manager be') u \<le> 1"
      using r adv inv by (simp add: server_inv_def)
    show "\<forall>d x u. d \<noteq> c \<longrightarrow> client_views srv d = Some x \<longrightarrow> u \<in> set (session_keys x) \<longrightarrow>
        reqs (manager be') u \<le> reqs (manager (srv_backend srv)) u"
      using r own by (metis order_refl)
  qed
qed

lemma server_inv_connect:
  assumes inv: "server_inv srv" and fresh: "fresh_session suuid srv" and first: "acceptable_first first"
    and c: "handle_new_connection valid_uuid compiler_bin clock now suuid first srv = Inr srv'"
  shows "server_inv srv'"
proof (cases "\<exists>rqst. first = Inr (CSessionStart rqst)")
  case True
  then obtain rqst where rqst: "first = Inr (CSessionStart rqst)" by blast
  let ?id = "ss_client_id rqst" and ?cwd = "path_append CLIENTS_WORKSPACE (ss_client_id rqst)"
  have rq: "well_formed_request rqst" "uuid_string ?id" using first rqst by (simp_all add: acceptable_first_def)
  obtain res srv1 where a: "add_client_view valid_uuid clock ?id srv = (res, srv1)" by fastforce
  have s1: "manager (srv_backend srv1) = manager (srv_backend srv)"
    using a by (auto simp: add_client_view_def get_client_view_def Let_def split: option.splits if_splits)
  show ?thesis
  proof (cases res)
    case (Inl e)
    then have "srv1 = srv\<lparr>srv_backend := srv_backend srv1\<rparr>" "srv' = srv1"
      using a c rqst by (auto simp: add_client_view_def get_client_view_def handle_new_connection_def Let_def
          split: option.splits if_splits)
    then show ?thesis using server_inv_backend [OF inv, of "srv_backend srv1"] s1 by simp
  next
    case (Inr view)
    have v: "client_views srv ?id = Some view \<or> client_views srv ?id = None \<and> view = new_client_view ?id ?cwd clock"
      "(client_views srv1)(?id \<mapsto> x) = (client_views srv)(?id \<mapsto> x)" for x
      using a Inr by (auto simp: add_client_view_def get_client_view_def Let_def split: option.splits if_splits)
    obtain view' be' where ad: "add_session compiler_bin now suuid rqst view (srv_backend srv1) = Inr (view', be')"
      using c a Inr rqst by (auto simp: handle_new_connection_def bind_r_Inr_iff)
    then have "srv' = with_view ?id view' be' srv"
      using c a Inr rqst v(2) by (auto simp: handle_new_connection_def with_view_def intro!: server.equality)
    then show ?thesis using server_inv_new_view [OF inv rq fresh v(1) s1 ad] by simp
  qed
next
  case False
  then have "srv' = srv"
    using c by (auto simp: handle_new_connection_def split: sum.splits cpp_error.splits client_message.splits)
  then show ?thesis using inv by simp
qed

lemma server_inv_step:
  assumes "server_step openable sha valid_uuid compiler_bin srv srv'" "server_inv srv"
  shows "server_inv srv'"
  using assms
proof (cases rule: server_step.cases)
  case (srv_connect clock now suuid first)
  then show ?thesis using server_inv_connect [OF assms(2)] by blast
next
  case (srv_message c view uuid s now msg go_on view' be')
  then show ?thesis using server_inv_message [OF assms(2)] by blast
next
  case (srv_take i be)
  then show ?thesis using server_inv_backend [OF assms(2)] reqs_take by simp
next
  case (srv_announce i be task)
  then show ?thesis using server_inv_backend [OF assms(2)] reqs_worker_step(1) by simp
next
  case (srv_compiled i be task out fs)
  then show ?thesis using server_inv_backend [OF assms(2)] reqs_worker_step(2) by simp
next
  case (srv_publish i be task out c view view')
  then have "server_inv (with_view c view' be srv)" using server_inv_publish [OF assms(2)] by blast
  from server_inv_backend [OF this, of "be\<lparr>manager := worker_publish i (manager be)\<rparr>"] show ?thesis
    using srv_publish reqs_worker_step(3) by (simp add: with_view_def)
qed

lemma server_inv_new: "server_inv (new_server threads fs)"
  by (simp add: server_inv_def new_server_def reqs_def new_compiler_manager_def filter_empty_conv)

lemma server_inv_reachable: "server_reachable openable sha valid_uuid compiler_bin srv \<Longrightarrow> server_inv srv"
  by (induction rule: server_reachable.induct) (auto intro: server_inv_new server_inv_step)

section \<open>No session is forgotten\<close>

text \<open>A session that has everything it needs has asked for its compilation.\<close>

definition none_waits :: "client_view \<Rightarrow> bool" where
  "none_waits view \<longleftrightarrow> (\<forall>u s. get_session view u = Some s \<longrightarrow> all_there view s \<longrightarrow> is_compiler_running s)"

lemma none_waits_fault: "none_waits view \<Longrightarrow> none_waits (set_file_status p FILE_STATUS_FAULT view)"
  by (auto simp: none_waits_def all_there_def file_available_def client_file_states_set_status split: option.splits if_splits)

lemma none_waits_upd_session:
  assumes "none_waits view" "\<And>s. required_files_state (f s) = required_files_state s"
    and "\<And>s. are_args_ready (f s) = are_args_ready s" "\<And>s. is_compiler_running (f s) = is_compiler_running s"
  shows "none_waits (upd_session u f view)"
  using assms by (auto simp: none_waits_def all_there_def file_available_def sessions.lookup_modify split: if_splits)

lemma none_waits_send: "none_waits view \<Longrightarrow> none_waits (upd_session u (send_msg m) view)"
  by (rule none_waits_upd_session) simp_all

lemma none_waits_transfer: "none_waits view \<Longrightarrow> none_waits (set_transfer u n ts view)"
  unfolding set_transfer_def by (rule none_waits_upd_session) simp_all

lemma none_waits_ts: "none_waits view \<Longrightarrow> none_waits (update_last_active_ts now view)"
  by (simp add: none_waits_def all_there_def file_available_def)

lemma none_waits_try_compile: "try_compile_for_active_sessions view be = (view', be') \<Longrightarrow> none_waits view'"
  using try_compile_frame by (auto simp: none_waits_def mark_running_def all_there_def)

lemma none_waits_finish:
  assumes "finish_upload sha uuid p cur view be = (r, view', be')" "none_waits view"
  shows "none_waits view'"
  using assms none_waits_fault none_waits_send none_waits_try_compile
  by (auto simp: finish_upload_def Let_def split: sum.splits if_splits prod.splits)

lemma none_waits_chunk:
  assumes "process_file_chunk openable sha uuid chunk s view be = (r, view', be')" "none_waits view"
  shows "none_waits view'"
  using assms
  by (auto simp: process_file_chunk_def Let_def intro: none_waits_fault none_waits_transfer none_waits_finish
      split: option.splits if_splits prod.splits)

lemma none_waits_terminate:
  "none_waits view \<Longrightarrow> terminate_server_session uuid view be = (view', be') \<Longrightarrow> none_waits view'"
  by (auto simp: none_waits_def terminate_server_session_def get_session_remove sessions.lookup_modify all_there_def
      file_available_def split: if_splits)

lemma none_waits_message:
  assumes "handle_client_message openable sha now uuid msg view be = Inr (go_on, view', be')" "none_waits view"
  shows "none_waits view'"
proof (cases msg)
  case (CFileChunkUpload chunk)
  let ?v = "update_last_active_ts now view"
  obtain s where s: "get_session view uuid = Some s"
    using assms(1) CFileChunkUpload by (auto simp: handle_client_message_def split: option.splits)
  obtain r v1 b1 where p: "process_file_chunk openable sha uuid chunk s ?v be = (r, v1, b1)"
    by (metis prod_cases3)
  have "view' = v1 \<or> view' = upd_session uuid (send_msg (SSessionAbort uuid [])) v1"
    using assms(1) CFileChunkUpload p s
    by (auto simp: handle_client_message_def split: sum.splits cpp_error.splits bool.splits)
  then show ?thesis using none_waits_chunk [OF p none_waits_ts [OF assms(2)]] none_waits_send by auto
qed (use assms none_waits_ts none_waits_terminate in \<open>auto simp: handle_client_message_def split: prod.splits\<close>)

lemma none_waits_publish:
  assumes "publish_compilation_results uuid out view be = Inr view'" "none_waits view"
  shows "none_waits view'"
proof -
  have "required_files_state (fold send_msg ms s) = required_files_state s" "are_args_ready (fold send_msg ms s) = are_args_ready s"
      "is_compiler_running (fold send_msg ms s) = is_compiler_running s" for ms s
    by (induction ms arbitrary: s) simp_all
  then show ?thesis
    using assms by (auto simp: publish_compilation_results_def send_compilation_result_def split: option.splits
        intro!: none_waits_upd_session)
qed

lemma none_waits_add_session:
  assumes "add_session compiler_bin now uuid rqst view be = Inr (view', be')"
  shows "none_waits view'"
proof -
  have "\<exists>v b. try_compile_for_active_sessions v b = (view', be')"
    using assms by (auto simp: add_session_def Let_def bind_r_Inr_iff case_prod_beta split: option.splits)
  then show ?thesis using none_waits_try_compile by blast
qed

lemma none_waits_connect:
  assumes "handle_new_connection valid_uuid compiler_bin clock now suuid first srv = Inr srv'"
    and "client_views srv' c = Some view"
  shows "client_views srv c = Some view \<or> none_waits view"
  using assms
  by (auto simp: handle_new_connection_def add_client_view_def get_client_view_def bind_r_Inr_iff Let_def
      split: sum.splits cpp_error.splits client_message.splits option.splits if_splits
      dest: none_waits_add_session)

lemma none_waits_step:
  assumes "server_step openable sha valid_uuid compiler_bin srv srv'" "\<forall>view \<in> ran (client_views srv). none_waits view"
  shows "\<forall>view \<in> ran (client_views srv'). none_waits view"
  using assms
proof (cases rule: server_step.cases)
  case (srv_connect clock now suuid first)
  then show ?thesis using none_waits_connect assms(2) unfolding ran_def by blast
next
  case (srv_message c view uuid s now msg go_on view' be')
  then show ?thesis using assms(2) none_waits_message by (auto simp: with_view_def ran_def)
next
  case (srv_publish i be task out c view view')
  then show ?thesis using assms(2) none_waits_publish by (auto simp: with_view_def ran_def)
qed simp_all

lemma none_waits_reachable:
  "server_reachable openable sha valid_uuid compiler_bin srv \<Longrightarrow> \<forall>view \<in> ran (client_views srv). none_waits view"
  by (induction rule: server_reachable.induct) (simp add: new_server_def, rule none_waits_step)

section \<open>Properties\<close>

text \<open>C19. The tables of the server are well formed in every reachable state: a client's view has the
  client's workspace; every file on record lies where the path translation puts it in that workspace;
  each session is on file once, under its own uuid and with one client only; and each transfer of a
  session belongs to it and writes to the file it is filed under.\<close>

theorem server_views_consistent:
  assumes "server_reachable openable sha valid_uuid compiler_bin srv" "client_views srv c = Some view"
  shows "cv_working_dir view = path_append CLIENTS_WORKSPACE c \<and> distinct (session_keys view)
    \<and> (\<forall>p st. client_file_states view p = Some st \<longrightarrow>
          server_file_path st = cnvt_client_to_server_path (path_append CLIENTS_WORKSPACE c) p)
    \<and> (\<forall>u s. get_session view u = Some s \<longrightarrow> session_uuid s = u
          \<and> (\<forall>n ts. file_transfer_states s n = Some ts \<longrightarrow> stream_path (file_out_stream ts) = n \<and> ft_session_id ts = u)
          \<and> (\<forall>d w. client_views srv d = Some w \<longrightarrow> get_session w u \<noteq> None \<longrightarrow> d = c))"
proof -
  note inv = server_inv_reachable [OF assms(1)]
  note v = server_invD [OF inv assms(2)]
  have "d = c" if "get_session view u = Some s" "client_views srv d = Some w" "get_session w u \<noteq> None" for u s d w
    using that assms(2) inv get_session_keys [of view u] get_session_keys [of w u] unfolding server_inv_def by auto
  with v show ?thesis unfolding view_ok_def view_paths_ok_def session_ok_def by auto
qed

text \<open>C16. In every reachable state each session has at most one compilation request in the queue or
  with a worker, and none before it has been marked as compiling.\<close>

theorem compilation_requested_once:
  assumes "server_reachable openable sha valid_uuid compiler_bin srv" "client_views srv c = Some view"
    and "get_session view u = Some s"
  shows "reqs (manager (srv_backend srv)) u \<le> (if is_compiler_running s then 1 else 0)"
  using server_invD(2) [OF server_inv_reachable [OF assms(1)] assms(2)] assms(3) by (simp add: once_def)

text \<open>C17. No session is forgotten: in every reachable state a session whose compiler arguments are
  ready and whose required files are all available has been marked as compiling, whichever session
  uploaded the files, and also when there was nothing to upload.\<close>

theorem no_session_waits_in_vain:
  assumes "server_reachable openable sha valid_uuid compiler_bin srv" "client_views srv c = Some view"
    and "get_session view u = Some s" "are_args_ready s" "\<forall>p \<in> set (required_files_state s). file_available view p"
  shows "is_compiler_running s"
  using none_waits_reachable [OF assms(1)] assms(2-5) by (auto simp: none_waits_def all_there_def ran_def)

text \<open>C18. In a reachable state a message of a client changes at most one file of the server: the one
  that the path translation assigns, in that client's workspace, to the file the chunk is for.\<close>

theorem message_writes_confined:
  assumes "server_reachable openable sha valid_uuid compiler_bin srv" "client_views srv c = Some view"
    and "get_session view u = Some s"
    and "handle_client_message openable sha now u msg view (srv_backend srv) = Inr (go_on, view', be')"
    and "files be' q \<noteq> files (srv_backend srv) q"
  shows "\<exists>chunk. msg = CFileChunkUpload chunk
    \<and> q = cnvt_client_to_server_path (path_append CLIENTS_WORKSPACE c) (fc_filename chunk)"
proof -
  note v = server_invD [OF server_inv_reachable [OF assms(1)] assms(2)]
  obtain chunk where msg: "msg = CFileChunkUpload chunk"
    using assms(4,5) by (cases msg) (auto simp: handle_client_message_def terminate_server_session_def)
  let ?v = "update_last_active_ts now view"
  obtain r v1 b1 where p: "process_file_chunk openable sha u chunk s ?v (srv_backend srv) = (r, v1, b1)"
    by (metis prod_cases3)
  have "be' = b1"
    using assms(3,4) msg p by (auto simp: handle_client_message_def split: sum.splits cpp_error.splits bool.splits)
  then obtain cur where "client_file_states ?v (fc_filename chunk) = Some cur" "q = server_file_path cur"
    using process_chunk_advances [OF p] assms(3,5) v(1) by auto
  then show ?thesis using v msg by (auto simp: view_ok_def view_paths_ok_def)
qed

section \<open>A run\<close>

definition first_view :: "session_start_request \<Rightarrow> client_view" where
  "first_view rqst = new_client_view (ss_client_id rqst) (path_append CLIENTS_WORKSPACE (ss_client_id rqst)) 0"

lemma new_server_run:
  assumes "well_formed_request rqst" "uuid_string (ss_client_id rqst)"
  shows "\<exists>srv view s. server_reachable openable sha (\<lambda>_. True) compiler_bin srv
    \<and> client_views srv (ss_client_id rqst) = Some view
    \<and> session_set_up 0 ''s1'' rqst (first_view rqst) (srv_backend (new_server 1 Map.empty)) view (srv_backend srv) s"
proof -
  let ?srv = "new_server 1 Map.empty"
  have "server_ok ?srv" "\<forall>view. client_views ?srv (ss_client_id rqst) = Some view \<longrightarrow> get_session view ''s1'' = None"
    by (simp_all add: server_ok_def new_server_def)
  from connection_outcome [where valid_uuid = "\<lambda>_. True" and clock = 0 and now = 0 and compiler_bin = compiler_bin,
      OF assms TrueI this]
  obtain srv view s where h: "handle_new_connection (\<lambda>_. True) compiler_bin 0 0 ''s1'' (Inr (CSessionStart rqst)) ?srv = Inr srv"
    and v: "client_views srv = (client_views ?srv)(ss_client_id rqst \<mapsto> view)"
    and u: "session_set_up 0 ''s1'' rqst (first_view rqst) (srv_backend ?srv) view (srv_backend srv) s"
    by (auto simp: new_server_def first_view_def)
  have "fresh_session ''s1'' ?srv"
    by (simp add: fresh_session_def new_server_def new_compiler_manager_def holds_session_def)
  then have "server_step openable sha (\<lambda>_. True) compiler_bin ?srv srv"
    using srv_connect [OF h] assms by (simp add: acceptable_first_def)
  then have "server_reachable openable sha (\<lambda>_. True) compiler_bin srv" by (rule server_next [OF server_start])
  moreover have "client_views srv (ss_client_id rqst) = Some view" using v by simp
  ultimately show ?thesis using u by blast
qed

lemma example_uuid: "uuid_string (ss_client_id example_request)" "ss_client_id example_request = ''c1''"
  by (simp_all add: uuid_string_def example_request_def)

theorem server_views_consistent_witness:
  "\<exists>srv view s. server_reachable (\<lambda>_. True) id (\<lambda>_. True) ''g++'' srv \<and> client_views srv ''c1'' = Some view
    \<and> cv_working_dir view = path_append CLIENTS_WORKSPACE ''c1'' \<and> distinct (session_keys view)
    \<and> get_session view ''s1'' = Some s \<and> session_uuid s = ''s1''"
proof -
  obtain srv view s where r: "server_reachable (\<lambda>_. True) id (\<lambda>_. True) ''g++'' srv" "client_views srv ''c1'' = Some view"
    and u: "get_session view ''s1'' = Some s"
    using new_server_run [OF example_request_ok example_uuid(1)] unfolding example_uuid(2) session_set_up_def by blast
  from server_views_consistent [OF r] r u show ?thesis by blast
qed

theorem compilation_requested_once_witness:
  "\<exists>srv view s. server_reachable (\<lambda>_. True) id (\<lambda>_. True) ''g++'' srv \<and> client_views srv ''c1'' = Some view
    \<and> get_session view ''s1'' = Some s
    \<and> reqs (manager (srv_backend srv)) ''s1'' \<le> (if is_compiler_running s then 1 else 0)"
proof -
  obtain srv view s where r: "server_reachable (\<lambda>_. True) id (\<lambda>_. True) ''g++'' srv" "client_views srv ''c1'' = Some view"
      "get_session view ''s1'' = Some s"
    using new_server_run [OF example_request_ok example_uuid(1)] unfolding example_uuid(2) session_set_up_def by blast
  from compilation_requested_once [OF r] r show ?thesis by blast
qed

text \<open>A request for a file the compiler finds by itself: there is nothing to upload.\<close>

lemma empty_request_ok: "well_formed_request (example_request\<lparr>ss_required_files_info := []\<rparr>)"
  using example_request_ok by (simp add: well_formed_request_def)

theorem no_session_waits_in_vain_witness:
  "\<exists>srv view s. server_reachable (\<lambda>_. True) id (\<lambda>_. True) ''g++'' srv \<and> client_views srv ''c1'' = Some view
    \<and> get_session view ''s1'' = Some s \<and> is_compiler_running s"
proof -
  let ?rqst = "example_request\<lparr>ss_required_files_info := []\<rparr>"
  have id: "uuid_string (ss_client_id ?rqst)" "ss_client_id ?rqst = ''c1''" using example_uuid by simp_all
  obtain srv view s where r: "server_reachable (\<lambda>_. True) id (\<lambda>_. True) ''g++'' srv" "client_views srv ''c1'' = Some view"
      and u: "session_set_up 0 ''s1'' ?rqst (first_view ?rqst) (srv_backend (new_server 1 Map.empty)) view (srv_backend srv) s"
    using new_server_run [OF empty_request_ok id(1)] unfolding id(2) by blast
  have s: "get_session view ''s1'' = Some s" "are_args_ready s" "\<forall>p \<in> set (required_files_state s). file_available view p"
    using u by (simp_all add: session_set_up_def)
  from no_session_waits_in_vain [OF r s] r s show ?thesis by blast
qed

lemma example_upload:
  "\<exists>srv view s view' be'. server_reachable (\<lambda>_. True) id (\<lambda>_. True) ''g++'' srv \<and> client_views srv ''c1'' = Some view
    \<and> get_session view ''s1'' = Some s
    \<and> handle_client_message (\<lambda>_. True) id 0 ''s1'' (CFileChunkUpload (mk_chunk ''s1'' ''/p/a.c'' 1 0 ''int x;'' True)) view (srv_backend srv)
        = Inr (True, view', be')
    \<and> files be' (path_append CLIENTS_WORKSPACE ''c1'' @ ''/p/a.c'') \<noteq> files (srv_backend srv) (path_append CLIENTS_WORKSPACE ''c1'' @ ''/p/a.c'')"
proof -
  let ?q = "path_append CLIENTS_WORKSPACE ''c1'' @ ''/p/a.c''"
  obtain srv view s where r: "server_reachable (\<lambda>_. True) id (\<lambda>_. True) ''g++'' srv" "client_views srv ''c1'' = Some view"
    and u: "session_set_up 0 ''s1'' example_request (first_view example_request) (srv_backend (new_server 1 Map.empty)) view (srv_backend srv) s"
    using new_server_run [OF example_request_ok example_uuid(1)] unfolding example_uuid(2) by blast
  have s: "get_session view ''s1'' = Some s" "file_transfer_states s = Map.empty" "files (srv_backend srv) = Map.empty"
    using u by (simp_all add: session_set_up_def new_server_def)
  have "cnvt_client_to_server_path (path_append CLIENTS_WORKSPACE ''c1'') ''/p/a.c'' = ?q"
    using server_path_of_plain [of "''/p/a.c''"] client_workspace [of "''c1''"]
    by (simp add: plain_absolute_def is_absolute_def uuid_string_def is_system_path_def)
  then obtain cur where cur: "client_file_states view ''/p/a.c'' = Some cur" "server_file_path cur = ?q" "file_sz_bytes cur = 6"
    using u by (simp add: session_set_up_def first_view_def example_request_def registered_def new_client_view_def
        state_of_info_def new_file_state_view_def after_request_def)
  have f: "\<exists>v b. handle_server_session (\<lambda>_. True) id 0 ''s1'' (map CFileChunkUpload (chunk_seq ''s1'' ''/p/a.c'' 0 0 [''int x;''])) view (srv_backend srv)
        = Inr (True, v, b) \<and> upload_done ''s1'' ''/p/a.c'' cur (concat [''int x;'']) s view (srv_backend srv) v b"
    by (rule upload_file [OF cur(1) s(1)]) (simp_all add: s(2) cur(3) u64_size_def)
  then obtain v b where "handle_client_message (\<lambda>_. True) id 0 ''s1'' (CFileChunkUpload (mk_chunk ''s1'' ''/p/a.c'' 1 0 ''int x;'' True)) view (srv_backend srv)
      = Inr (True, v, b)" "files b ?q = Some ''int x;''"
    using cur(2) by (auto simp: bind_r_Inr_iff upload_done_def split: if_splits)
  then show ?thesis using r s by auto
qed

theorem message_writes_confined_witness:
  "\<exists>chunk. CFileChunkUpload (mk_chunk ''s1'' ''/p/a.c'' 1 0 ''int x;'' True) = CFileChunkUpload chunk
    \<and> path_append CLIENTS_WORKSPACE ''c1'' @ ''/p/a.c'' = cnvt_client_to_server_path (path_append CLIENTS_WORKSPACE ''c1'') (fc_filename chunk)"
proof -
  obtain srv view s view' be' where r: "server_reachable (\<lambda>_. True) id (\<lambda>_. True) ''g++'' srv" "client_views srv ''c1'' = Some view"
      "get_session view ''s1'' = Some s"
      "handle_client_message (\<lambda>_. True) id 0 ''s1'' (CFileChunkUpload (mk_chunk ''s1'' ''/p/a.c'' 1 0 ''int x;'' True)) view (srv_backend srv) = Inr (True, view', be')"
      "files be' (path_append CLIENTS_WORKSPACE ''c1'' @ ''/p/a.c'') \<noteq> files (srv_backend srv) (path_append CLIENTS_WORKSPACE ''c1'' @ ''/p/a.c'')"
    using example_upload by blast
  show ?thesis by (rule message_writes_confined [OF r])
qed

end
