(* ===== verification/Full_Build.thy ===== *)
theory Full_Build
  imports Client Build_Result Server_Machine
begin

text \<open>
  One build from the wrapper's request to its response: \<open>Client::_handle_ipc_request\<close>
  (\<open>src/src/client.cpp\<close>) on one side of a connection, and on the other side
  \<open>Server::handle_new_connection\<close> (\<open>src/src/server.cpp\<close>), the session's message loop and a worker of
  the compiler manager, in any state the server can reach. The connection delivers messages in order.
\<close>

section \<open>All uploads of a session, on the server\<close>

definition upload_of :: "string \<Rightarrow> file_store \<Rightarrow> string \<Rightarrow> file_chunk_upload list" where
  "upload_of uuid cfs p = chunk_seq uuid p 0 0 (pieces (case cfs p of None \<Rightarrow> [] | Some content \<Rightarrow> content))"

definition upload_msgs :: "string \<Rightarrow> file_store \<Rightarrow> string list \<Rightarrow> client_message list" where
  "upload_msgs uuid cfs ps = map CFileChunkUpload (concat (map (upload_of uuid cfs) ps))"

lemma upload_msgs_simps [simp]:
  "upload_msgs uuid cfs [] = []"
  "upload_msgs uuid cfs (p # ps) = map CFileChunkUpload (upload_of uuid cfs p) @ upload_msgs uuid cfs ps"
  by (simp_all add: upload_msgs_def)

definition confirmations :: "string \<Rightarrow> string list \<Rightarrow> server_message list" where
  "confirmations uuid ps = map (\<lambda>p. SFileUpComplete uuid p True) ps"

lemma handle_server_session_append:
  "handle_server_session openable sha now uuid ms view be = Inr (True, v, b) \<Longrightarrow>
     handle_server_session openable sha now uuid (ms @ ms') view be = handle_server_session openable sha now uuid ms' v b"
  by (induction ms arbitrary: view be) (auto simp: bind_r_Inr_iff split: if_splits)

lemma server_receives_files_ready:
  assumes "ready_to_upload openable cfs view ss (ps @ qs)" "get_session view uuid = Some ss"
    and "all_there view ss \<longrightarrow> is_compiler_running ss"
  shows "\<exists>view' be' ss'. handle_server_session openable sha now uuid (upload_msgs uuid cfs ps) view be = Inr (True, view', be')
    \<and> upload_outcome uuid cfs ps view be ss view' be' ss' \<and> out_msgs ss' = out_msgs ss @ confirmations uuid ps
    \<and> ready_to_upload openable cfs view' ss' qs"
  using assms
proof (induction ps arbitrary: view be ss)
  case Nil
  then show ?case by (simp add: upload_outcome_def confirmations_def)
next
  case (Cons p ps)
  obtain content where c: "cfs p = Some content"
    using Cons.prems(1) by (auto simp: ready_to_upload_def elim: uploadableE)
  have all: "ready_to_upload openable cfs view ss (p # ps @ qs)" using Cons.prems(1) by simp
  obtain v1 b1 s1 where r: "handle_server_session openable sha now uuid (map CFileChunkUpload (upload_of uuid cfs p)) view be
      = Inr (True, v1, b1)"
    "ready_to_upload openable cfs v1 s1 (ps @ qs)" "upload_outcome uuid cfs [p] view be ss v1 b1 s1"
    "out_msgs s1 = out_msgs ss @ [SFileUpComplete uuid p True]"
    unfolding upload_of_def c option.case
    by (rule server_receives_file [where sha = sha and now = now and be = be, OF all Cons.prems(2) c])
  have s1: "get_session v1 uuid = Some s1" "all_there v1 s1 \<longrightarrow> is_compiler_running s1"
    using r(3) by (simp_all add: upload_outcome_def)
  obtain v2 b2 s2 where t: "handle_server_session openable sha now uuid (upload_msgs uuid cfs ps) v1 b1 = Inr (True, v2, b2)"
    "upload_outcome uuid cfs ps v1 b1 s1 v2 b2 s2" "out_msgs s2 = out_msgs s1 @ confirmations uuid ps"
    "ready_to_upload openable cfs v2 s2 qs"
    using Cons.IH [OF r(2) s1] by blast
  have ready: "ready_to_upload openable cfs view ss (p # ps)" "p \<notin> set ps" using all by (auto simp: ready_to_upload_def)
  have "upload_outcome uuid cfs (p # ps) view be ss v2 b2 s2"
    by (rule upload_outcome_trans [OF r(3) t(2) ready(2) uploaded_path_apart [OF ready(1) r(3)]])
  then show ?case
    using handle_server_session_append [OF r(1)] t(1,3,4) r(4) by (auto simp: confirmations_def)
qed

lemma server_receives_files:
  assumes "ready_to_upload openable cfs view ss ps" "get_session view uuid = Some ss"
    and "all_there view ss \<longrightarrow> is_compiler_running ss"
  shows "\<exists>view' be' ss'. handle_server_session openable sha now uuid (upload_msgs uuid cfs ps) view be = Inr (True, view', be')
    \<and> upload_outcome uuid cfs ps view be ss view' be' ss' \<and> out_msgs ss' = out_msgs ss @ confirmations uuid ps"
  using server_receives_files_ready [of openable cfs view ss ps "[]"] assms by simp blast

lemma session_chunks_advance:
  assumes "handle_server_session openable sha now uuid (map CFileChunkUpload cs) view be = Inr (b, view', be')"
    and "view_ok view" "get_session view uuid = Some s"
  shows "advances view be view' be'"
  using assms
proof (induction cs arbitrary: view be s)
  case (Cons c cs)
  obtain go v1 b1 where h: "handle_client_message openable sha now uuid (CFileChunkUpload c) view be = Inr (go, v1, b1)"
    "if go then handle_server_session openable sha now uuid (map CFileChunkUpload cs) v1 b1 = Inr (b, view', be')
     else view' = v1 \<and> be' = b1"
    using Cons.prems(1) by (auto simp: bind_r_Inr_iff split: if_splits)
  have a: "advances view be v1 b1" by (rule chunk_message_advances [OF Cons.prems(3,2) h(1)])
  then have "view_ok v1" "session_keys v1 = session_keys view" using Cons.prems(2) by (auto simp: advances_def)
  moreover from this obtain s1 where "get_session v1 uuid = Some s1"
    using Cons.prems(3) by (metis get_session_keys not_None_eq)
  ultimately show ?case using Cons.IH a h(2) advances_trans by (metis (full_types))
qed simp

section \<open>All uploads of a session, on the client\<close>

lemma client_sends_files:
  assumes "cs_required_files s = before @ ps" "req_files_send_idx s = length before" "\<not> cs_terminated s"
    and "\<forall>p \<in> set ps. \<exists>content. cfs p = Some content \<and> sendable content"
  shows "client_session_loop run (confirmations (cs_session_uuid s) ps @ rest) (send_required_file cfs s) reg cfs =
    client_session_loop run rest
      (s\<lparr>cs_out_msgs := cs_out_msgs s @ upload_msgs (cs_session_uuid s) cfs ps,
         req_files_send_idx := length (cs_required_files s)\<rparr>) reg cfs"
  using assms
proof (induction ps arbitrary: s before)
  case Nil
  then have same: "s\<lparr>req_files_send_idx := length before\<rparr> = s" by (intro client_session.equality) simp_all
  show ?case using Nil.prems by (simp add: confirmations_def send_required_file_none same)
next
  case (Cons p ps)
  obtain content where c: "cfs p = Some content" "sendable content" using Cons.prems(4) by auto
  let ?s = "send_required_file cfs s"
  have s: "?s = s\<lparr>cs_out_msgs := cs_out_msgs s @ map CFileChunkUpload (upload_of (cs_session_uuid s) cfs p),
      req_files_send_idx := req_files_send_idx s + 1\<rparr>"
    using send_required_file_pieces [of s p cfs content] Cons.prems(1,2) c by (simp add: upload_of_def nth_append)
  have "client_session_loop run (confirmations (cs_session_uuid s) (p # ps) @ rest) ?s reg cfs =
      client_session_loop run (confirmations (cs_session_uuid ?s) ps @ rest) (send_required_file cfs ?s) reg cfs"
    using Cons.prems(3) s by (simp add: confirmations_def handle_server_message_def)
  then show ?case
    using Cons.IH [of ?s "before @ [p]"] Cons.prems s by simp
qed

section \<open>The server's part\<close>

text \<open>The view in which the server sets up a session of this client.\<close>

definition view_for :: "nat \<Rightarrow> string \<Rightarrow> server \<Rightarrow> client_view" where
  "view_for clock c srv =
     (case client_views srv c of Some v \<Rightarrow> v | None \<Rightarrow> new_client_view c (path_append CLIENTS_WORKSPACE c) clock)"

lemma view_for_ok:
  assumes "server_inv srv" "uuid_string c" "fresh_session suuid srv"
  shows "view_paths_ok (view_for clock c srv)" "workspace (cv_working_dir (view_for clock c srv))"
    "get_session (view_for clock c srv) suuid = None"
  using assms client_workspace [OF assms(2)] new_view_ok
  by (auto simp: view_for_def server_inv_def view_ok_def fresh_session_def ran_def new_client_view_def get_session_def
      split: option.split)

lemma server_ok_of_inv: "server_inv srv \<Longrightarrow> server_ok srv"
  by (auto simp: server_inv_def server_ok_def view_ok_def)

text \<open>After the set-up the session's request is the one its client asked for, and if the session is
  marked as compiling, that request is in the queue.\<close>

lemma add_session_request:
  assumes "well_formed_request rqst" "view_paths_ok view" "workspace (cv_working_dir view)" "get_session view uuid = None"
    and "add_session compiler_bin now uuid rqst view be = Inr (view', be')" "get_session view' uuid = Some s'"
  shows "queued uuid view' (manager be')" "request_of s' = request_made compiler_bin uuid rqst view"
proof -
  obtain v b s where a: "add_session compiler_bin now uuid rqst view be = Inr (try_compile_for_active_sessions v b)"
    and p: "session_prepared compiler_bin now uuid rqst view be v b s" by (rule add_session_prepared [OF assms(1-4)])
  have t: "try_compile_for_active_sessions v b = (view', be')" using a assms(5) by simp
  have "queued uuid v (manager b)" using p by (simp add: session_prepared_def queued_def)
  then show "queued uuid view' (manager be')" by (rule queued_try_compile [OF t])
  have "s' = mark_running view' s" using try_compile_frame(5) [OF t, of uuid] p assms(6) by (simp add: session_prepared_def)
  then show "request_of s' = request_made compiler_bin uuid rqst view" using p by (simp add: session_prepared_def)
qed

lemma connection_adds_session:
  assumes "handle_new_connection valid_uuid compiler_bin clock now suuid (Inr (CSessionStart rqst)) srv = Inr srv'"
    and "valid_uuid (ss_client_id rqst)"
  obtains view' be where "add_session compiler_bin now suuid rqst (view_for clock (ss_client_id rqst) srv) be
      = Inr (view', srv_backend srv')" "client_views srv' (ss_client_id rqst) = Some view'"
  using assms
  by (cases "client_views srv (ss_client_id rqst)")
    (auto simp: handle_new_connection_def add_client_view_def get_client_view_def view_for_def bind_r_Inr_iff Let_def)

lemma connection_ready:
  fixes clock :: nat
  assumes inv: "server_inv srv" and rq: "well_formed_request rqst" "uuid_string (ss_client_id rqst)" "valid_uuid (ss_client_id rqst)"
    and fresh: "fresh_session suuid srv"
  defines "view \<equiv> view_for clock (ss_client_id rqst) srv"
  obtains srv1 view1 s1 where
    "handle_new_connection valid_uuid compiler_bin clock now suuid (Inr (CSessionStart rqst)) srv = Inr srv1"
    "client_views srv1 (ss_client_id rqst) = Some view1" "server_inv srv1"
    "session_set_up now suuid rqst view (srv_backend srv) view1 (srv_backend srv1) s1"
    "queued suuid view1 (manager (srv_backend srv1))" "request_of s1 = request_made compiler_bin suuid rqst view"
proof -
  note v = view_for_ok [OF inv rq(2) fresh, of clock, folded view_def]
  have "\<forall>view. client_views srv (ss_client_id rqst) = Some view \<longrightarrow> get_session view suuid = None"
    using fresh by (auto simp: fresh_session_def ran_def)
  from connection_outcome [where valid_uuid = valid_uuid and compiler_bin = compiler_bin and clock = clock and now = now,
      OF rq server_ok_of_inv [OF inv] this]
  obtain srv1 view1 s1 where h: "handle_new_connection valid_uuid compiler_bin clock now suuid (Inr (CSessionStart rqst)) srv = Inr srv1"
    "client_views srv1 = (client_views srv)(ss_client_id rqst \<mapsto> view1)"
    "session_set_up now suuid rqst view (srv_backend srv) view1 (srv_backend srv1) s1"
    by (auto simp: view_def view_for_def)
  obtain view' be where "add_session compiler_bin now suuid rqst view be = Inr (view', srv_backend srv1)"
      "client_views srv1 (ss_client_id rqst) = Some view'"
    using connection_adds_session [OF h(1) rq(3)] view_def by blast
  then have add: "add_session compiler_bin now suuid rqst view be = Inr (view1, srv_backend srv1)" using h(2) by simp
  have s1: "get_session view1 suuid = Some s1" using h(3) by (simp add: session_set_up_def)
  have "server_inv srv1"
    by (rule server_inv_connect [OF inv fresh _ h(1)]) (use rq in \<open>simp add: acceptable_first_def\<close>)
  then show ?thesis
    using that [OF h(1) _ _ h(3)] h(2) add_session_request [OF rq(1) v add s1] by simp
qed

text \<open>The files the server has already are the client's, and after the uploads all of them are in place
  in the client's workspace.\<close>

definition copies_current :: "session_start_request \<Rightarrow> file_store \<Rightarrow> client_view \<Rightarrow> file_store \<Rightarrow> bool" where
  "copies_current rqst cfs view sfs \<longleftrightarrow>
     (\<forall>fi \<in> set (ss_required_files_info rqst). \<forall>st. client_file_states view (fi_filename fi) = Some st \<longrightarrow>
        file_status st = FILE_STATUS_AVAILABLE \<longrightarrow> sfs (server_file_path st) = cfs (fi_filename fi))"

definition sources_in_place :: "session_start_request \<Rightarrow> file_store \<Rightarrow> client_view \<Rightarrow> file_store \<Rightarrow> bool" where
  "sources_in_place rqst cfs view sfs \<longleftrightarrow>
     (\<forall>fi \<in> set (ss_required_files_info rqst).
        sfs (cnvt_client_to_server_path (cv_working_dir view) (fi_filename fi)) = cfs (fi_filename fi))"

lemma uploaded_in_place:
  assumes u: "session_set_up now uuid rqst view be view1 be1 s1" and wf: "well_formed_request rqst"
    and ok: "view_paths_ok view" "workspace (cv_working_dir view)"
    and files: "known_files_match rqst view" "copies_current rqst cfs view (files be)"
    and o: "upload_outcome uuid cfs (wanted_names rqst view) view1 be1 s1 view2 be2 s2"
  shows "sources_in_place rqst cfs view (files be2)"
  unfolding sources_in_place_def
proof
  fix fi assume fi: "fi \<in> set (ss_required_files_info rqst)"
  let ?p = "fi_filename fi" and ?q = "cnvt_client_to_server_path (cv_working_dir view) (fi_filename fi)"
  have path: "server_file_path c = cnvt_client_to_server_path (cv_working_dir view) p"
    if "client_file_states view1 p = Some c" for p c
    using session_set_up_paths_ok [OF u ok(1)] that u by (simp add: view_paths_ok_def session_set_up_def)
  show "files be2 ?q = cfs ?p"
  proof (cases "?p \<in> set (wanted_names rqst view)")
    case True
    then obtain c where c: "client_file_states view2 ?p = Some c" "files be2 (server_file_path c) = cfs ?p"
      using o by (auto simp: upload_outcome_def uploaded_def)
    have "map_option server_file_path (client_file_states view1 ?p) = Some (server_file_path c)"
      using o c(1) by (metis (no_types, lifting) option.map(2) upload_outcome_def)
    then show ?thesis using path c(2) by auto
  next
    case False
    obtain st where st: "registered (ss_required_files_info rqst) view ?p = Some st" "wanted st \<or> file_status st = FILE_STATUS_AVAILABLE"
      using registered_matches [OF wf files(1) fi] by metis
    then have av: "file_status st = FILE_STATUS_AVAILABLE" using False fi by (auto simp: wanted_names_def)
    then have "client_file_states view ?p = Some st"
      using st(1) by (auto simp: registered_def state_of_info_def new_file_state_view_def dest!: map_of_SomeD split: option.splits)
    moreover from this have "server_file_path st = ?q" using ok(1) by (simp add: view_paths_ok_def)
    ultimately have "files be ?q = cfs ?p" using files(2) fi av by (auto simp: copies_current_def)
    moreover have "?q \<notin> server_paths view1 (wanted_names rqst view)"
    proof
      assume "?q \<in> server_paths view1 (wanted_names rqst view)"
      then obtain p c where p: "p \<in> set (wanted_names rqst view)" "client_file_states view1 p = Some c" "server_file_path c = ?q"
        by (auto simp: server_paths_def)
      have "plain_absolute p" "plain_absolute ?p"
        using p(1) wanted_names_files(2) [OF wf, of view] wf fi by (auto simp: well_formed_request_def)
      then have "p = ?p" using server_path_inj [OF _ _ ok(2)] path [OF p(2)] p(3) by metis
      then show False using p(1) False by simp
    qed
    ultimately show ?thesis using o u by (simp add: upload_outcome_def session_set_up_def)
  qed
qed

lemma find_only:
  assumes "length (filter P xs) \<le> 1" "x \<in> set xs" "P x"
  shows "find P xs = Some x"
  using assms by (induction xs) (auto split: if_splits simp: filter_empty_conv)

lemma obj_arg_request:
  assumes "obj_arg_ok s" "cr_cmd_line_args (request_of s) = as @ [''-o'', obj]"
  shows "out_obj_file s = obj"
  using assms by (auto simp: obj_arg_ok_def request_of_def)

lemma request_made_obj:
  assumes "well_formed_request rqst"
  shows "\<exists>as. cr_cmd_line_args (request_made compiler_bin uuid rqst view)
    = as @ [''-o'', generate_obj_file_path OBJ_STORE_PATH (client_uuid view) uuid]"
proof -
  obtain dirs where "ss_client_idirs rqst = cnvt_to_cmd_line_args dirs" using assms by (auto simp: well_formed_request_def)
  then show ?thesis
    by (cases "convert_args (cv_working_dir view) (ss_client_cmd_line_args rqst)")
      (simp add: request_made_def preprocess_compiler_call_def convert_idirs_of_client request_of_def
        new_server_session_def Let_def)
qed

text \<open>The uploads of a session lead to its request, with all sources in place.\<close>

lemma uploads_lead_to_request:
  assumes set_up: "session_set_up now uuid rqst view be view1 be1 s1" and wf: "well_formed_request rqst"
    and ok: "view_paths_ok view" "workspace (cv_working_dir view)"
    and files: "request_readable cfs rqst" "known_files_match rqst view" "\<forall>p. openable p" "copies_current rqst cfs view (files be)"
    and view1: "view_ok view1" "once view1 (manager be1)" "queued uuid view1 (manager be1)"
    and made: "request_of s1 = request_made compiler_bin uuid rqst view"
  obtains view2 be2 s2 where
    "handle_server_session openable sha clock uuid (upload_msgs uuid cfs (wanted_names rqst view)) view1 be1 = Inr (True, view2, be2)"
    "get_session view2 uuid = Some s2" "session_uuid s2 = uuid"
    "out_obj_file s2 = generate_obj_file_path OBJ_STORE_PATH (client_uuid view) uuid"
    "out_msgs s2 = SSessionConfirmed uuid (wanted_names rqst view) # confirmations uuid (wanted_names rqst view)"
    "find (\<lambda>r. requester_session r = uuid) (compile_task_queue (manager be2)) = Some (request_made compiler_bin uuid rqst view)"
    "requester_session (request_made compiler_bin uuid rqst view) = uuid"
    "sources_in_place rqst cfs view (files be2)"
proof -
  let ?ps = "wanted_names rqst view" and ?t = "request_made compiler_bin uuid rqst view"
  note ready = set_up_ready_to_upload [where openable = openable, OF set_up wf ok files(1-3)]
  have s1: "get_session view1 uuid = Some s1" "out_msgs s1 = [SSessionConfirmed uuid ?ps]" "are_args_ready s1"
    "all_there view1 s1 \<longrightarrow> is_compiler_running s1" using set_up by (simp_all add: session_set_up_def)
  obtain view2 be2 s2 where r: "handle_server_session openable sha clock uuid (upload_msgs uuid cfs ?ps) view1 be1 = Inr (True, view2, be2)"
    and o: "upload_outcome uuid cfs ?ps view1 be1 s1 view2 be2 s2" "out_msgs s2 = out_msgs s1 @ confirmations uuid ?ps"
    using server_receives_files [OF ready(1) s1(1,4)] by blast
  have s2: "get_session view2 uuid = Some s2" "are_args_ready s2" using o(1) s1(3) by (simp_all add: upload_outcome_def)
  have running: "is_compiler_running s2" by (rule uploads_complete [OF s1(3) ready(2) o(1)])
  have a: "advances view1 be1 view2 be2"
    by (rule session_chunks_advance [OF r [unfolded upload_msgs_def] view1(1) s1(1)])
  have "map_option request_of (get_session view2 uuid) = map_option request_of (get_session view1 uuid)"
    using a by (simp add: advances_def)
  then have t: "request_of s2 = ?t" using s1(1) s2(1) made by simp
  have "session_ok uuid s2" using a view1(1) s2(1) by (simp add: advances_def view_ok_def)
  then have ses: "session_uuid s2 = uuid" "obj_arg_ok s2" using s2(2) by (simp_all add: session_ok_def)
  have q: "?t \<in> set (compile_task_queue (manager be2))"
    using a view1(3) s2(1) running t by (auto simp: advances_def queued_def)
  have req: "requester_session ?t = uuid" using ses(1) by (simp add: t [symmetric] request_of_def)
  have "reqs (manager be2) uuid \<le> 1"
    using a view1 s2(1) running by (auto simp: advances_def once_def split: if_splits)
  then have "find (\<lambda>r. requester_session r = uuid) (compile_task_queue (manager be2)) = Some ?t"
    using q req by (intro find_only) (simp_all add: reqs_def)
  moreover have "out_obj_file s2 = generate_obj_file_path OBJ_STORE_PATH (client_uuid view) uuid"
    using request_made_obj [OF wf, of compiler_bin uuid view] obj_arg_request [OF ses(2)] t by metis
  ultimately show ?thesis
    using that [OF r s2(1) ses(1)] o(2) s1(2) req uploaded_in_place [OF set_up wf ok files(2,4) o(1)] by simp
qed

section \<open>The client's part\<close>

text \<open>The client's side of a connection on which the server says \<open>msgs\<close>: what it sends, and its files.\<close>

definition client_transcript ::
    "(string \<Rightarrow> bool) \<Rightarrow> (string \<Rightarrow> string) \<Rightarrow> process_runner \<Rightarrow> session_start_request \<Rightarrow> compiler_call \<Rightarrow> client_reg
      \<Rightarrow> file_store \<Rightarrow> server_message list \<Rightarrow> (client_message list \<times> file_store) result" where
  "client_transcript openable wc run rqst call reg fs msgs =
     (case msgs of
        [] \<Rightarrow> Inl (Throw Eof)
      | m # ms \<Rightarrow>
          bind_r (start_client_session openable wc True (Inr m) (CSessionStart rqst) (new_client_session nil_uuid call) fs)
            (\<lambda>(started, s, fs1).
               if started then (let (s', reg', fs2) = handle_client_session run ms s reg fs1 in Inr (cs_out_msgs s', fs2))
               else Inr (cs_out_msgs s, fs1)))"

definition obj_target :: "(string \<Rightarrow> string) \<Rightarrow> compiler_call \<Rightarrow> string" where
  "obj_target wc call = wc (path_append (cc_working_dir call) (output_obj_file call))"

text \<open>Once the server has confirmed the session and acknowledged its files, the client's session waits for
  the object file.\<close>

lemma client_uploads_and_waits:
  assumes "openable (obj_target wc call)"
    and files: "\<forall>p \<in> set ps. \<exists>c. (fs(obj_target wc call \<mapsto> [])) p = Some c \<and> sendable c"
  obtains s s1 where "start_client_session openable wc True (Inr (SSessionConfirmed uuid ps)) (CSessionStart rqst)
      (new_client_session nil_uuid call) fs = Inr (True, s, fs(obj_target wc call \<mapsto> []))"
    "cs_session_uuid s = uuid"
    "\<forall>rest reg. handle_client_session run (confirmations uuid ps @ rest) s reg (fs(obj_target wc call \<mapsto> []))
        = client_session_loop run rest s1 reg (fs(obj_target wc call \<mapsto> []))"
    "awaiting_obj [] s1 (fs(obj_target wc call \<mapsto> []))" "obj_path s1 = obj_target wc call" "cs_session_uuid s1 = uuid"
    "cs_out_msgs s1 = CSessionStart rqst # upload_msgs uuid (fs(obj_target wc call \<mapsto> [])) ps" "unix_ipc_channel s1 = []"
proof -
  let ?o = "obj_target wc call" and ?fs = "fs(obj_target wc call \<mapsto> [])"
  obtain ts where ts: "new_obj_file_transfer_state openable uuid ?o fs = (ts, ?fs)" "\<not> ot_is_finished ts"
      "ot_session_id ts = uuid" "is_open (obj_out_stream ts)" "stream_path (obj_out_stream ts) = ?o"
      "stream_pos (obj_out_stream ts) = 0" "ot_filename ts = ?o"
    using assms(1) by (simp add: new_obj_file_transfer_state_def open_out_def)
  define s where "s = (cli_send_msg (CSessionStart rqst) (new_client_session nil_uuid call))
     \<lparr>cs_session_uuid := uuid, cs_transfer := Some ts, cs_required_files := ps\<rparr>"
  let ?s = "s\<lparr>cs_out_msgs := CSessionStart rqst # upload_msgs uuid ?fs ps, req_files_send_idx := length ps\<rparr>"
  have s: "cs_session_uuid s = uuid" "cs_transfer s = Some ts" "cs_required_files s = ps" "req_files_send_idx s = 0"
    "\<not> cs_terminated s" "cs_out_msgs s = [CSessionStart rqst]" "unix_ipc_channel s = []"
    by (simp_all add: s_def cli_send_msg_def new_client_session_def)
  have start: "start_client_session openable wc True (Inr (SSessionConfirmed uuid ps)) (CSessionStart rqst)
      (new_client_session nil_uuid call) fs = Inr (True, s, ?fs)"
    using ts(1) by (simp add: start_client_session_def s_def cli_send_msg_def new_client_session_def obj_target_def)
  have "handle_client_session run (confirmations uuid ps @ rest) s reg ?fs = client_session_loop run rest ?s reg ?fs" for rest reg
    using client_sends_files [of s "[]" ps ?fs run rest reg] s files by (simp add: handle_client_session_def)
  moreover have "awaiting_obj [] ?s ?fs" "obj_path ?s = ?o" using s ts by (simp_all add: awaiting_obj_def obj_path_def)
  ultimately show ?thesis using that [OF start s(1), of ?s] s by simp
qed

text \<open>With those messages on the network, the request of the wrapper is answered.\<close>

lemma request_answered:
  assumes call: "snd (initialize_compiler_call (current_working_dir rq) (cmd_line_args rq) (new_compiler_call deps)) = call"
      "compiler_call_type call = CALL_TYPE_COMPILE" "find_server draw snapshots = Some node"
    and st: "session_start_message fuel env call cl = Some (Inr (rqst, call', cl1))" "cl_sessions cl uuid = None"
    and start: "start_client_session openable wc True (Inr reply) (CSessionStart rqst) (new_client_session nil_uuid call') fs
      = Inr (True, s, fsa)" "cs_session_uuid s = uuid"
    and runs: "\<And>reg. \<exists>s'. handle_client_session run msgs s reg fsa = (s', reg, fsb) \<and> unix_ipc_channel s' = [r]"
    and net: "net node rqst = (True, Inr reply, msgs)"
  shows "\<exists>cl'. handle_ipc_request fuel env openable wc run net draw snapshots deps rq cl fs =
    Some (if compiler_exit_code r = 0 then Inr (r, cl', fsb) else bind_r (run_original run rq) (\<lambda>r'. Inr (r', cl', fsb)))"
proof -
  let ?cl = "try_emplace_call uuid s cl1"
  have c: "connect_to_server fuel env openable wc run net node call cl fs = Some (Inr (uuid, True, msgs, ?cl, fsa))"
    using st(1) start net by (simp add: connect_to_server_def)
  have stored: "cl_sessions ?cl uuid = Some s"
    using st(2) session_start_sessions [OF st(1)] by (simp add: try_emplace_call_def)
  obtain s' where s': "handle_client_session run msgs s (reg_of ?cl) fsa = (s', reg_of ?cl, fsb)" "unix_ipc_channel s' = [r]"
    using runs by blast
  have "\<exists>cl'. await_session run rq True uuid msgs ?cl fsa =
    Some (if compiler_exit_code r = 0 then Inr (r, cl', fsb) else bind_r (run_original run rq) (\<lambda>r'. Inr (r', cl', fsb)))"
    using stored s' by (auto simp: await_session_def retrieve_unix_ipc_response_def case_prod_beta Let_def)
  then show ?thesis
    using call(2,3) c st(2) unfolding handle_ipc_request_def call(1) Let_def by simp
qed

section \<open>The two sides together\<close>

text \<open>The server's side of one connection, with all it says on these messages: what the session's
  handlers say and, once the session's request is in the queue, the result of the compilation. Until a
  worker takes the request, other requests may come and go (\<open>meanwhile\<close>).\<close>

definition serve_build ::
    "(string \<Rightarrow> bool) \<Rightarrow> (string \<Rightarrow> string) \<Rightarrow> (string \<Rightarrow> bool) \<Rightarrow> string \<Rightarrow> nat \<Rightarrow> u64 \<Rightarrow> string
      \<Rightarrow> (compiler_manager \<Rightarrow> compiler_manager) \<Rightarrow> (string \<Rightarrow> string list \<Rightarrow> string \<Rightarrow> i32 \<times> string \<times> string)
      \<Rightarrow> (string \<Rightarrow> string list \<Rightarrow> string \<Rightarrow> file_store \<Rightarrow> file_store) \<Rightarrow> i32 \<Rightarrow> nat \<Rightarrow> client_message list \<Rightarrow> server
      \<Rightarrow> (server_message list \<times> server) result" where
  "serve_build openable sha valid_uuid compiler_bin clock now suuid meanwhile run effect secs i msgs srv =
     (case msgs of
        CSessionStart rqst # ms \<Rightarrow>
          bind_r (handle_new_connection valid_uuid compiler_bin clock now suuid (Inr (CSessionStart rqst)) srv) (\<lambda>srv1.
            case client_views srv1 (ss_client_id rqst) of
              None \<Rightarrow> Inl Undefined
            | Some view1 \<Rightarrow>
                bind_r (handle_server_session openable sha clock suuid ms view1 (srv_backend srv1)) (\<lambda>(_, view2, be2).
                  case find (\<lambda>r. requester_session r = suuid) (compile_task_queue (manager be2)) of
                    None \<Rightarrow>
                      (case get_session view2 suuid of
                         None \<Rightarrow> Inl Undefined
                       | Some s \<Rightarrow> Inr (out_msgs s, with_view (ss_client_id rqst) view2 be2 srv1))
                  | Some task \<Rightarrow>
                      bind_r (worker_job run effect secs i task view2 (be2\<lparr>manager := meanwhile (manager be2)\<rparr>)) (\<lambda>(view3, be3).
                        case get_session view3 suuid of
                          None \<Rightarrow> Inl Undefined
                        | Some s \<Rightarrow> Inr (out_msgs s, with_view (ss_client_id rqst) view3 be3 srv1))))
      | _ \<Rightarrow> Inl Undefined)"

lemma serve_build_outcome:
  fixes clock :: nat
  assumes reach: "server_reachable openable sha valid_uuid compiler_bin srv"
    and rq: "well_formed_request rqst" "uuid_string (ss_client_id rqst)" "valid_uuid (ss_client_id rqst)"
    and fresh: "fresh_session suuid srv"
  defines "view \<equiv> view_for clock (ss_client_id rqst) srv"
  defines "task \<equiv> request_made compiler_bin suuid rqst view"
  assumes files: "request_readable cfs rqst" "known_files_match rqst view" "\<forall>p. openable p"
      "copies_current rqst cfs view (files (srv_backend srv))"
    and run: "run (cr_compiler_name task) (cr_cmd_line_args task) (cr_current_working_dir task) = (code, out, err)"
  obtains srv' ss sfs where
    "serve_build openable sha valid_uuid compiler_bin clock now suuid meanwhile run effect secs i
        (CSessionStart rqst # upload_msgs suuid cfs (wanted_names rqst view)) srv
      = Inr (SSessionConfirmed suuid (wanted_names rqst view) # confirmations suuid (wanted_names rqst view)
             @ compilation_result_msgs (effect (cr_compiler_name task) (cr_cmd_line_args task) (cr_current_working_dir task) sfs) ss,
             srv')"
    "session_uuid ss = suuid" "ses_exit_code ss = code" "ses_stdout ss = out" "ses_stderr ss = err"
    "compile_duration ss = secs"
    "out_obj_file ss = generate_obj_file_path OBJ_STORE_PATH (client_uuid view) suuid"
    "sources_in_place rqst cfs view sfs"
proof -
  let ?ps = "wanted_names rqst view"
  let ?out = "\<lparr>stdout_data = out, stderr_data = err, compiling_duration = secs, exit_code = code\<rparr>"
  note inv = server_inv_reachable [OF reach]
  note ok = view_for_ok [OF inv rq(2) fresh, of clock, folded view_def]
  obtain srv1 view1 s1 where c: "handle_new_connection valid_uuid compiler_bin clock now suuid (Inr (CSessionStart rqst)) srv = Inr srv1"
    "client_views srv1 (ss_client_id rqst) = Some view1" "server_inv srv1"
    "session_set_up now suuid rqst view (srv_backend srv) view1 (srv_backend srv1) s1"
    "queued suuid view1 (manager (srv_backend srv1))" "request_of s1 = task"
    unfolding view_def task_def
    by (rule connection_ready [where valid_uuid = valid_uuid and compiler_bin = compiler_bin and now = now and clock = clock,
          OF inv rq fresh])
  obtain view2 be2 s2 where u: "handle_server_session openable sha clock suuid (upload_msgs suuid cfs ?ps) view1 (srv_backend srv1)
      = Inr (True, view2, be2)"
    "get_session view2 suuid = Some s2" "session_uuid s2 = suuid"
    "out_obj_file s2 = generate_obj_file_path OBJ_STORE_PATH (client_uuid view) suuid"
    "out_msgs s2 = SSessionConfirmed suuid ?ps # confirmations suuid ?ps"
    "find (\<lambda>r. requester_session r = suuid) (compile_task_queue (manager be2)) = Some task"
    "requester_session task = suuid" "sources_in_place rqst cfs view (files be2)"
    unfolding task_def
    by (rule uploads_lead_to_request [where openable = openable and sha = sha and clock = clock, OF c(4) rq(1) ok(1,2) files
          server_invD(1,2) [OF c(3,2)] c(5) c(6) [unfolded task_def]])
  have stored: "get_session view2 (requester_session task) = Some s2" using u(2,7) by simp
  let ?be = "be2\<lparr>manager := meanwhile (manager be2)\<rparr>"
  obtain view3 be3 s3 where w: "worker_job run effect secs i task view2 ?be = Inr (view3, be3)"
    "files be3 = effect (cr_compiler_name task) (cr_cmd_line_args task) (cr_current_working_dir task) (files ?be)"
    "get_session view3 (requester_session task) = Some s3"
    "out_msgs s3 = out_msgs s2 @ compilation_result_msgs (files be3) (with_result ?out s2)"
    by (rule worker_job_outcome [where run = run and effect = effect and secs = secs and i = i and be = ?be,
          OF stored run]) blast
  show ?thesis
    by (rule that [of "files be2" "with_result ?out s2" "with_view (ss_client_id rqst) view3 be3 srv1"])
      (use c(1,2) u w in \<open>simp_all add: serve_build_def\<close>)
qed

lemma other_file_irrelevant:
  assumes "obj \<notin> fi_filename ` set (ss_required_files_info rqst)"
  shows "request_readable (fs(obj \<mapsto> c)) rqst = request_readable fs rqst"
    "copies_current rqst (fs(obj \<mapsto> c)) view sfs = copies_current rqst fs view sfs"
    "sources_in_place rqst (fs(obj \<mapsto> c)) view = sources_in_place rqst fs view"
    "well_formed_request rqst \<Longrightarrow> upload_msgs uuid (fs(obj \<mapsto> c)) (wanted_names rqst view) = upload_msgs uuid fs (wanted_names rqst view)"
proof -
  have same: "(fs(obj \<mapsto> c)) (fi_filename fi) = fs (fi_filename fi)" if "fi \<in> set (ss_required_files_info rqst)" for fi
    using assms that by auto
  show "request_readable (fs(obj \<mapsto> c)) rqst = request_readable fs rqst"
    unfolding request_readable_def by (intro ball_cong refl) (simp only: same)
  show "copies_current rqst (fs(obj \<mapsto> c)) view sfs = copies_current rqst fs view sfs"
    unfolding copies_current_def by (intro ball_cong refl) (simp only: same)
  show "sources_in_place rqst (fs(obj \<mapsto> c)) view = sources_in_place rqst fs view"
    unfolding sources_in_place_def by (intro ext ball_cong refl) (simp only: same)
  assume wf: "well_formed_request rqst"
  have "upload_of uuid (fs(obj \<mapsto> c)) p = upload_of uuid fs p" if "p \<in> set (wanted_names rqst view)" for p
    using wanted_names_files(2) [OF wf, of view] that assms by (auto simp: upload_of_def)
  then show "upload_msgs uuid (fs(obj \<mapsto> c)) (wanted_names rqst view) = upload_msgs uuid fs (wanted_names rqst view)"
    unfolding upload_msgs_def by (intro arg_cong [of _ _ "map CFileChunkUpload"] arg_cong [of _ _ concat] map_cong refl)
qed

text \<open>A compiler that succeeds on this request whenever the sources are in place.\<close>

definition compiles ::
    "(string \<Rightarrow> string list \<Rightarrow> string \<Rightarrow> i32 \<times> string \<times> string)
      \<Rightarrow> (string \<Rightarrow> string list \<Rightarrow> string \<Rightarrow> file_store \<Rightarrow> file_store) \<Rightarrow> compilation_request \<Rightarrow> (file_store \<Rightarrow> bool)
      \<Rightarrow> string \<Rightarrow> string \<Rightarrow> string \<Rightarrow> string \<Rightarrow> bool" where
  "compiles run effect task in_place obj content out err \<longleftrightarrow>
     run (cr_compiler_name task) (cr_cmd_line_args task) (cr_current_working_dir task) = (0, out, err)
     \<and> (\<forall>sfs. in_place sfs \<longrightarrow>
          effect (cr_compiler_name task) (cr_cmd_line_args task) (cr_current_working_dir task) sfs obj = Some content)"

lemma wanted_sendable:
  assumes "well_formed_request rqst" "request_readable fs rqst" "obj \<notin> fi_filename ` set (ss_required_files_info rqst)"
  shows "\<forall>p \<in> set (wanted_names rqst view). \<exists>c. (fs(obj \<mapsto> [])) p = Some c \<and> sendable c"
proof -
  have "request_readable (fs(obj \<mapsto> [])) rqst" using assms(2) by (simp only: other_file_irrelevant(1) [OF assms(3)])
  then show ?thesis using wanted_names_files(2) [OF assms(1), of view] unfolding request_readable_def by blast
qed

text \<open>The two sides up to the result of the compilation: the session with the result, on the server, and
  the session that waits for it, on the client.\<close>

lemma conversation_until_result:
  fixes clock :: nat and wc :: "string \<Rightarrow> string" and call' :: compiler_call
  assumes server: "server_reachable openable sha valid_uuid compiler_bin srv" "fresh_session suuid srv" "\<forall>p. openable p"
    and rq: "well_formed_request rqst" "uuid_string (ss_client_id rqst)" "valid_uuid (ss_client_id rqst)"
  defines "view \<equiv> view_for clock (ss_client_id rqst) srv" and "obj \<equiv> obj_target wc call'"
  defines "task \<equiv> request_made compiler_bin suuid rqst view"
  assumes files: "client_openable obj" "obj \<notin> fi_filename ` set (ss_required_files_info rqst)" "request_readable fs rqst"
      "known_files_match rqst view" "copies_current rqst fs view (files (srv_backend srv))"
    and run: "run (cr_compiler_name task) (cr_cmd_line_args task) (cr_current_working_dir task) = (code, out, err)"
  obtains srv' ss sfs s s1 where
    "serve_build openable sha valid_uuid compiler_bin clock now suuid meanwhile run effect secs i
        (CSessionStart rqst # upload_msgs suuid fs (wanted_names rqst view)) srv
      = Inr (SSessionConfirmed suuid (wanted_names rqst view) # confirmations suuid (wanted_names rqst view)
             @ compilation_result_msgs (effect (cr_compiler_name task) (cr_cmd_line_args task) (cr_current_working_dir task) sfs) ss,
             srv')"
    "session_uuid ss = cs_session_uuid s1" "ses_exit_code ss = code" "ses_stdout ss = out" "ses_stderr ss = err"
    "compile_duration ss = secs" "out_obj_file ss = generate_obj_file_path OBJ_STORE_PATH (client_uuid view) suuid" "sources_in_place rqst fs view sfs"
    "start_client_session client_openable wc True (Inr (SSessionConfirmed suuid (wanted_names rqst view))) (CSessionStart rqst)
      (new_client_session nil_uuid call') fs = Inr (True, s, fs(obj \<mapsto> []))" "cs_session_uuid s = suuid"
    "\<forall>rest reg. handle_client_session lrun (confirmations suuid (wanted_names rqst view) @ rest) s reg (fs(obj \<mapsto> []))
        = client_session_loop lrun rest s1 reg (fs(obj \<mapsto> []))"
    "awaiting_obj [] s1 (fs(obj \<mapsto> []))" "obj_path s1 = obj"
    "cs_out_msgs s1 = CSessionStart rqst # upload_msgs suuid fs (wanted_names rqst view)" "unix_ipc_channel s1 = []"
    "cs_session_uuid s1 = suuid"
proof -
  let ?ps = "wanted_names rqst view" and ?fs1 = "fs(obj \<mapsto> [])"
  obtain srv' ss sfs where b: "serve_build openable sha valid_uuid compiler_bin clock now suuid meanwhile run effect secs i
        (CSessionStart rqst # upload_msgs suuid fs ?ps) srv
      = Inr (SSessionConfirmed suuid ?ps # confirmations suuid ?ps @ compilation_result_msgs
          (effect (cr_compiler_name task) (cr_cmd_line_args task) (cr_current_working_dir task) sfs) ss, srv')"
    and ss: "session_uuid ss = suuid" "ses_exit_code ss = code" "ses_stdout ss = out" "ses_stderr ss = err"
      "compile_duration ss = secs" "out_obj_file ss = generate_obj_file_path OBJ_STORE_PATH (client_uuid view) suuid" "sources_in_place rqst fs view sfs"
    by (rule serve_build_outcome [where run = run and effect = effect and clock = clock and rqst = rqst and srv = srv
          and compiler_bin = compiler_bin and suuid = suuid and openable = openable and valid_uuid = valid_uuid, folded view_def, folded task_def,
          OF server(1) rq server(2) files(3,4) server(3) files(5) run])
  have sends: "\<forall>p \<in> set ?ps. \<exists>c. ?fs1 p = Some c \<and> sendable c" by (rule wanted_sendable [OF rq(1) files(3,2)])
  obtain s s1 where "start_client_session client_openable wc True (Inr (SSessionConfirmed suuid ?ps)) (CSessionStart rqst)
      (new_client_session nil_uuid call') fs = Inr (True, s, ?fs1)" "cs_session_uuid s = suuid"
    "\<forall>rest reg. handle_client_session lrun (confirmations suuid ?ps @ rest) s reg ?fs1 = client_session_loop lrun rest s1 reg ?fs1"
    "awaiting_obj [] s1 ?fs1" "obj_path s1 = obj" "cs_session_uuid s1 = suuid"
      "cs_out_msgs s1 = CSessionStart rqst # upload_msgs suuid ?fs1 ?ps" "unix_ipc_channel s1 = []"
    by (rule client_uploads_and_waits [where openable = client_openable and wc = wc and run = lrun and rqst = rqst
          and call = call' and uuid = suuid and fs = fs and ps = ?ps, folded obj_def, OF files(1) sends])
  with b ss show ?thesis
    by (intro that [of sfs ss srv' s1 s]) (simp_all add: other_file_irrelevant(4) [OF files(2) rq(1)])
qed

text \<open>What the server answers when the compiler wrote \<open>content\<close>: the chunks of the object file, the last
  one with the two output streams.\<close>

definition finished_session :: "string \<Rightarrow> i32 \<Rightarrow> string \<Rightarrow> string \<Rightarrow> server_session" where
  "finished_session uuid secs out err =
     with_result \<lparr>stdout_data = out, stderr_data = err, compiling_duration = secs, exit_code = 0\<rparr>
       (new_server_session [] (new_client_view [] [] 0) uuid
          \<lparr>ss_client_id = [], ss_client_working_dir = [], ss_client_source_file = [], ss_client_compiler = [],
           ss_client_cmd_line_args = [], ss_client_idirs = [], ss_required_files_info = []\<rparr>)"

definition object_answer :: "string \<Rightarrow> i32 \<Rightarrow> string \<Rightarrow> string \<Rightarrow> string \<Rightarrow> server_message list" where
  "object_answer uuid secs out err content =
     map SObjFileChunk (obj_chunks (finished_session uuid secs out err) (u64_size content) content)"

lemma obj_chunks_cong:
  assumes "build_msg ss = build_msg ss'" "ses_stdout ss = ses_stdout ss'" "ses_stderr ss = ses_stderr ss'"
  shows "obj_chunks ss sz content = obj_chunks ss' sz content"
proof (induction "length content" arbitrary: content rule: less_induct)
  case less
  show ?case
  proof (cases "content = []")
    case False
    then have "obj_chunks ss sz (drop CHUNK_SIZE content) = obj_chunks ss' sz (drop CHUNK_SIZE content)"
      by (intro less.hyps) (simp add: CHUNK_SIZE_def)
    then show ?thesis using False assms by (simp add: obj_chunks_step Let_def)
  qed simp
qed

lemma compilation_result_object:
  assumes "session_uuid ss = uuid" "ses_exit_code ss = 0" "ses_stdout ss = out" "ses_stderr ss = err" "compile_duration ss = secs"
    and "fs (out_obj_file ss) = Some content"
  shows "compilation_result_msgs fs ss = object_answer uuid secs out err content"
proof -
  have "obj_chunks ss (u64_size content) content = obj_chunks (finished_session uuid secs out err) (u64_size content) content"
    using assms(1-5) by (intro obj_chunks_cong) (simp_all add: finished_session_def build_msg_def new_server_session_def)
  then show ?thesis using assms by (simp add: compilation_result_msgs_def object_answer_def)
qed

text \<open>A build from end to end. A wrapper asks the client's daemon for a compilation; the client finds a
  server and describes its files; the server is in any state it can reach. When the compiler succeeds on
  this request once the client's files are in place on the server, there are two message sequences, one in each
  direction, that both programs produce from each other: the client sends its start request and then
  exactly the files the server lacks, the server answers with the confirmation, one acknowledgement per
  file and the object file. The client's object file then has exactly the bytes the compiler wrote on
  the server and no other file of the client has changed; and the request of the wrapper is answered
  with exit code 0 and the compiler's output (its two streams exchanged, as the code has them).\<close>

theorem build_end_to_end:
  fixes clock :: nat and wc :: "string \<Rightarrow> string"
  assumes call: "snd (initialize_compiler_call (current_working_dir rq) (cmd_line_args rq) (new_compiler_call deps)) = call"
      "compiler_call_type call = CALL_TYPE_COMPILE" "find_server draw snapshots = Some node"
    and start: "session_start_message fuel env call cl = Some (Inr (rqst, call', cl1))" "cl_sessions cl suuid = None"
    and server: "server_reachable openable sha valid_uuid compiler_bin srv" "fresh_session suuid srv" "\<forall>p. openable p"
    and rq: "well_formed_request rqst" "uuid_string (ss_client_id rqst)" "valid_uuid (ss_client_id rqst)"
  defines "view \<equiv> view_for clock (ss_client_id rqst) srv" and "obj \<equiv> obj_target wc call'"
  assumes files: "client_openable obj" "obj \<notin> fi_filename ` set (ss_required_files_info rqst)" "request_readable fs rqst"
      "known_files_match rqst view" "copies_current rqst fs view (files (srv_backend srv))"
    and comp: "compiles run effect (request_made compiler_bin suuid rqst view) (sources_in_place rqst fs view)
      (generate_obj_file_path OBJ_STORE_PATH (client_uuid view) suuid) content out err"
    and content: "content \<noteq> []" "\<not> CHUNK_SIZE dvd length content"
  shows "\<exists>to_server reply to_client srv'.
      serve_build openable sha valid_uuid compiler_bin clock now suuid meanwhile run effect secs i to_server srv
        = Inr (reply # to_client, srv')
    \<and> client_transcript client_openable wc lrun rqst call' reg fs (reply # to_client) = Inr (to_server, fs(obj \<mapsto> content))
    \<and> to_server = CSessionStart rqst # upload_msgs suuid fs (wanted_names rqst view)
    \<and> reply = SSessionConfirmed suuid (wanted_names rqst view)
    \<and> to_client = confirmations suuid (wanted_names rqst view) @ object_answer suuid secs out err content
    \<and> (\<forall>net. net node rqst = (True, Inr reply, to_client) \<longrightarrow>
        (\<exists>cl'. handle_ipc_request fuel env client_openable wc lrun net draw snapshots deps rq cl fs
          = Some (Inr (mk_response 0 err out, cl', fs(obj \<mapsto> content)))))"
proof -
  let ?ps = "wanted_names rqst view" and ?fs1 = "fs(obj \<mapsto> [])" and ?t = "request_made compiler_bin suuid rqst view"
  let ?effect = "effect (cr_compiler_name ?t) (cr_cmd_line_args ?t) (cr_current_working_dir ?t)"
  have run: "run (cr_compiler_name ?t) (cr_cmd_line_args ?t) (cr_current_working_dir ?t) = (0, out, err)"
    using comp by (simp add: compiles_def)
  obtain srv' ss sfs s s1 where
    b: "serve_build openable sha valid_uuid compiler_bin clock now suuid meanwhile run effect secs i
        (CSessionStart rqst # upload_msgs suuid fs ?ps) srv
      = Inr (SSessionConfirmed suuid ?ps # confirmations suuid ?ps @ compilation_result_msgs (?effect sfs) ss, srv')"
    and ss: "session_uuid ss = cs_session_uuid s1" "ses_exit_code ss = 0" "ses_stdout ss = out" "ses_stderr ss = err"
      "compile_duration ss = secs"
      "out_obj_file ss = generate_obj_file_path OBJ_STORE_PATH (client_uuid view) suuid" "sources_in_place rqst fs view sfs"
    and s: "start_client_session client_openable wc True (Inr (SSessionConfirmed suuid ?ps)) (CSessionStart rqst)
      (new_client_session nil_uuid call') fs = Inr (True, s, ?fs1)" "cs_session_uuid s = suuid"
    and up: "\<forall>rest reg. handle_client_session lrun (confirmations suuid ?ps @ rest) s reg ?fs1 = client_session_loop lrun rest s1 reg ?fs1"
    and s1: "awaiting_obj [] s1 ?fs1" "obj_path s1 = obj"
      "cs_out_msgs s1 = CSessionStart rqst # upload_msgs suuid fs ?ps" "unix_ipc_channel s1 = []" "cs_session_uuid s1 = suuid"
    by (rule conversation_until_result [where run = run and effect = effect and clock = clock and wc = wc and call' = call'
          and rqst = rqst and srv = srv and compiler_bin = compiler_bin and suuid = suuid and fs = fs
          and openable = openable and valid_uuid = valid_uuid and client_openable = client_openable,
          folded view_def obj_def, OF server rq files run])
  have made: "?effect sfs (out_obj_file ss) = Some content" using comp ss(6,7) by (simp add: compiles_def)
  have answer: "compilation_result_msgs (?effect sfs) ss = object_answer suuid secs out err content"
    using ss(1) s1(5) by (intro compilation_result_object [OF _ ss(2-5)] made) simp
  have runs: "\<exists>s'. handle_client_session lrun (confirmations suuid ?ps @ compilation_result_msgs (?effect sfs) ss) s reg ?fs1
      = (s', reg, fs(obj \<mapsto> content)) \<and> unix_ipc_channel s' = [mk_response 0 err out] \<and> cs_out_msgs s' = cs_out_msgs s1" for reg
    unfolding up [rule_format]
    by (rule result_msgs_received [where run = lrun and reg = reg and ss = ss and sfs = "?effect sfs", OF s1(1) ss(1,2) made content])
      (use ss(3,4) s1(2,4) in simp)
  have t: "client_transcript client_openable wc lrun rqst call' reg fs
      (SSessionConfirmed suuid ?ps # confirmations suuid ?ps @ compilation_result_msgs (?effect sfs) ss)
      = Inr (CSessionStart rqst # upload_msgs suuid fs ?ps, fs(obj \<mapsto> content))"
    using s(1) s1(3) runs [of reg] by (auto simp: client_transcript_def)
  have answers: "\<exists>s'. handle_client_session lrun (confirmations suuid ?ps @ compilation_result_msgs (?effect sfs) ss) s reg ?fs1
        = (s', reg, fs(obj \<mapsto> content)) \<and> unix_ipc_channel s' = [mk_response 0 err out]" for reg
    using runs [of reg] by blast
  have "\<exists>cl'. handle_ipc_request fuel env client_openable wc lrun net draw snapshots deps rq cl fs
        = Some (Inr (mk_response 0 err out, cl', fs(obj \<mapsto> content)))"
    if "net node rqst = (True, Inr (SSessionConfirmed suuid ?ps), confirmations suuid ?ps @ compilation_result_msgs (?effect sfs) ss)" for net
    using request_answered [where net = net and fs = fs, OF call start s answers that] by (simp add: mk_response_def)
  then show ?thesis using b t answer by auto
qed

text \<open>The answer when the compiler fails.\<close>

definition failure_answer :: "string \<Rightarrow> i32 \<Rightarrow> i32 \<Rightarrow> string \<Rightarrow> string \<Rightarrow> server_message list" where
  "failure_answer uuid code secs out err =
     [SObjFileChunk \<lparr>oc_session_id = uuid, oc_compiler_exit_code = code, oc_compiler_call_duration = secs,
        oc_compiler_stdout = out, oc_compiler_stderr = err, oc_filesize = 0, oc_is_last_chunk = True, oc_data = []\<rparr>]"

lemma compilation_result_failure:
  assumes "session_uuid ss = uuid" "ses_exit_code ss = code" "ses_stdout ss = out" "ses_stderr ss = err" "compile_duration ss = secs"
    and "code \<noteq> 0"
  shows "compilation_result_msgs fs ss = failure_answer uuid code secs out err"
  using assms by (auto simp: compilation_result_msgs_def build_msg_def failure_answer_def)

text \<open>When the compiler fails on the server, the wrapper gets the result of its own command on its own
  machine: the two programs exchange the same messages up to the result, which is one message with the
  compiler's exit code; the client leaves an empty object file to the local compiler, touches no other file, and
  answers with what that compiler reports, not with what the server's reported.\<close>

theorem failed_build_end_to_end:
  fixes clock :: nat and wc :: "string \<Rightarrow> string"
  assumes call: "snd (initialize_compiler_call (current_working_dir rq) (cmd_line_args rq) (new_compiler_call deps)) = call"
      "compiler_call_type call = CALL_TYPE_COMPILE" "find_server draw snapshots = Some node"
    and start: "session_start_message fuel env call cl = Some (Inr (rqst, call', cl1))" "cl_sessions cl suuid = None"
    and server: "server_reachable openable sha valid_uuid compiler_bin srv" "fresh_session suuid srv" "\<forall>p. openable p"
    and rq: "well_formed_request rqst" "uuid_string (ss_client_id rqst)" "valid_uuid (ss_client_id rqst)"
  defines "view \<equiv> view_for clock (ss_client_id rqst) srv" and "obj \<equiv> obj_target wc call'"
  defines "task \<equiv> request_made compiler_bin suuid rqst view"
  assumes files: "client_openable obj" "obj \<notin> fi_filename ` set (ss_required_files_info rqst)" "request_readable fs rqst"
      "known_files_match rqst view" "copies_current rqst fs view (files (srv_backend srv))"
    and run: "run (cr_compiler_name task) (cr_cmd_line_args task) (cr_current_working_dir task) = (code, out, err)" "code \<noteq> 0"
  shows "\<exists>to_server reply to_client srv'.
      serve_build openable sha valid_uuid compiler_bin clock now suuid meanwhile run effect secs i to_server srv
        = Inr (reply # to_client, srv')
    \<and> client_transcript client_openable wc lrun rqst call' reg fs (reply # to_client) = Inr (to_server, fs(obj \<mapsto> []))
    \<and> to_server = CSessionStart rqst # upload_msgs suuid fs (wanted_names rqst view)
    \<and> reply = SSessionConfirmed suuid (wanted_names rqst view)
    \<and> to_client = confirmations suuid (wanted_names rqst view) @ failure_answer suuid code secs out err
    \<and> (\<forall>net. net node rqst = (True, Inr reply, to_client) \<longrightarrow>
        (\<exists>cl'. handle_ipc_request fuel env client_openable wc lrun net draw snapshots deps rq cl fs
          = Some (bind_r (run_original lrun rq) (\<lambda>r. Inr (r, cl', fs(obj \<mapsto> []))))))"
proof -
  let ?ps = "wanted_names rqst view" and ?fs1 = "fs(obj \<mapsto> [])"
  let ?effect = "effect (cr_compiler_name task) (cr_cmd_line_args task) (cr_current_working_dir task)"
  obtain srv' ss sfs s s1 where
    b: "serve_build openable sha valid_uuid compiler_bin clock now suuid meanwhile run effect secs i
        (CSessionStart rqst # upload_msgs suuid fs ?ps) srv
      = Inr (SSessionConfirmed suuid ?ps # confirmations suuid ?ps @ compilation_result_msgs (?effect sfs) ss, srv')"
    and ss: "session_uuid ss = cs_session_uuid s1" "ses_exit_code ss = code" "ses_stdout ss = out" "ses_stderr ss = err" "compile_duration ss = secs"
    and s: "start_client_session client_openable wc True (Inr (SSessionConfirmed suuid ?ps)) (CSessionStart rqst)
      (new_client_session nil_uuid call') fs = Inr (True, s, ?fs1)" "cs_session_uuid s = suuid"
    and up: "\<forall>rest reg. handle_client_session lrun (confirmations suuid ?ps @ rest) s reg ?fs1 = client_session_loop lrun rest s1 reg ?fs1"
    and s1: "awaiting_obj [] s1 ?fs1" "cs_out_msgs s1 = CSessionStart rqst # upload_msgs suuid fs ?ps" "unix_ipc_channel s1 = []" "cs_session_uuid s1 = suuid"
    by (rule conversation_until_result [where run = run and effect = effect and clock = clock and wc = wc and call' = call'
          and rqst = rqst and srv = srv and compiler_bin = compiler_bin and suuid = suuid and fs = fs
          and openable = openable and valid_uuid = valid_uuid and client_openable = client_openable,
          folded view_def obj_def, folded task_def, OF server rq files run(1)])
  have answer: "compilation_result_msgs (?effect sfs) ss = failure_answer suuid code secs out err"
    using ss(1) s1(4) by (intro compilation_result_failure [OF _ ss(2-5) run(2)]) simp
  have failed: "ses_exit_code ss \<noteq> 0" using ss(2) run(2) by simp
  have runs: "\<exists>s'. handle_client_session lrun (confirmations suuid ?ps @ compilation_result_msgs (?effect sfs) ss) s reg ?fs1
      = (s', reg, ?fs1) \<and> unix_ipc_channel s' = [mk_response code err out] \<and> cs_out_msgs s' = cs_out_msgs s1" for reg
    unfolding up [rule_format]
    by (rule failure_msg_received [where run = lrun and reg = reg and ss = ss and sfs = "?effect sfs", OF s1(1) ss(1) failed])
      (use ss(2-4) s1(3) in simp)
  have t: "client_transcript client_openable wc lrun rqst call' reg fs
      (SSessionConfirmed suuid ?ps # confirmations suuid ?ps @ compilation_result_msgs (?effect sfs) ss)
      = Inr (CSessionStart rqst # upload_msgs suuid fs ?ps, ?fs1)"
    using s(1) s1(2) runs [of reg] by (auto simp: client_transcript_def)
  have answers: "\<exists>s'. handle_client_session lrun (confirmations suuid ?ps @ compilation_result_msgs (?effect sfs) ss) s reg ?fs1
        = (s', reg, ?fs1) \<and> unix_ipc_channel s' = [mk_response code err out]" for reg
    using runs [of reg] by blast
  have "\<exists>cl'. handle_ipc_request fuel env client_openable wc lrun net draw snapshots deps rq cl fs
        = Some (bind_r (run_original lrun rq) (\<lambda>r. Inr (r, cl', ?fs1)))"
    if "net node rqst = (True, Inr (SSessionConfirmed suuid ?ps), confirmations suuid ?ps @ compilation_result_msgs (?effect sfs) ss)" for net
    using request_answered [where net = net and fs = fs, OF call start s answers that] run(2) by (simp add: mk_response_def)
  then show ?thesis using b t answer by auto
qed

section \<open>A build\<close>

definition build_request :: unix_ipc_request where
  "build_request = \<lparr>current_working_dir = ''/p'', cmd_line_args = [''/usr/bin/gcc'', ''-c'', ''/p/a.c'', ''-o'', ''a.o'']\<rparr>"

definition build_deps :: dep_files_state where
  "build_deps = new_dep_files_state False False False"

definition build_call :: compiler_call where
  "build_call = (new_compiler_call build_deps)\<lparr>compiler_call_type := CALL_TYPE_COMPILE, cc_working_dir := ''/p'',
     input_src_file := ''/p/a.c'', output_obj_file := ''a.o'', compiler_type := ''/usr/bin/gcc'',
     cc_cmd_line_args := [''-c'', ''/p/a.c'', ''-o'', ''a.o'']\<rparr>"

definition build_sources :: source_env where
  "build_sources = \<lparr>src_file = example_files, src_is_dir = (\<lambda>_. False), src_sha1 = id\<rparr>"

definition build_start :: session_start_request where
  "build_start = \<lparr>ss_client_id = ''c1'', ss_client_working_dir = ''/p'', ss_client_source_file = ''/p/a.c'',
     ss_client_compiler = ''/usr/bin/gcc'', ss_client_cmd_line_args = [''-c'', ''/p/a.c'', ''-o'', ''a.o''],
     ss_client_idirs = [],
     ss_required_files_info = [\<lparr>fi_filename = ''/p/a.c'', fi_filesize = u64_size ex_content, fi_filehash = ex_content\<rparr>]\<rparr>"

text \<open>This compiler writes the source with a mark to the file that its last argument names.\<close>

definition build_source_path :: string where
  "build_source_path = cnvt_client_to_server_path (path_append CLIENTS_WORKSPACE ''c1'') ''/p/a.c''"

definition marking_compiler :: "string \<Rightarrow> string list \<Rightarrow> string \<Rightarrow> file_store \<Rightarrow> file_store" where
  "marking_compiler name args cwd fs =
     (case fs build_source_path of None \<Rightarrow> fs | Some src \<Rightarrow> fs(last args \<mapsto> ''obj: '' @ src))"

lemma build_call_parsed:
  "snd (initialize_compiler_call (current_working_dir build_request) (cmd_line_args build_request) (new_compiler_call build_deps))
    = build_call"
  by (simp add: build_request_def build_call_def build_deps_def initialize_compiler_call_def SUPPORTED_COMPILERS_def,
      simp add: split_call_args.simps(2) operand_option_def plain_option_def is_src_file_arg_def is_header_file_def
        is_for_linking_def ends_with_starts,
      simp add: call_ops new_compiler_call_def Let_def ends_with_starts)

lemma build_call_start:
  "session_start_message 2 build_sources build_call example_client
    = Some (Inr (build_start, build_call, example_client))"
proof -
  have "find_file_includes ex_content = []" by code_simp
  then have "parse_source_file_includes 2 build_sources no_include_dirs ''/p/a.c'' []
      \<lparr>includes_cache_of = empty_cache, inc_directives = []\<rparr> = Some (True, \<lparr>includes_cache_of = empty_cache, inc_directives = []\<rparr>)"
    by (simp add: parse_source_file_includes_def build_sources_def example_files_def)
  moreover have "append_include_dirs no_include_dirs no_include_dirs = no_include_dirs" "dash_include no_include_dirs = []"
    by (simp_all add: append_include_dirs_def no_include_dirs_def)
  moreover have "cc_include_dirs build_call = no_include_dirs" "build_call\<lparr>cc_include_dirs := no_include_dirs\<rparr> = build_call"
    "input_src_file build_call = ''/p/a.c''"
    by (simp_all add: build_call_def new_compiler_call_def)
  ultimately have "collect_src_file_dependencies 2 build_sources no_include_dirs build_call empty_cache = Some ([], build_call, empty_cache)"
    by (simp add: collect_src_file_dependencies_def)
  moreover have "cl_includes_cache example_client = empty_cache" "system_include_dirs example_client = no_include_dirs"
    "cl_uuid example_client = ''c1''" "example_client\<lparr>cl_includes_cache := empty_cache\<rparr> = example_client"
    by (simp_all add: example_client_def new_client_def)
  moreover have "src_file build_sources ''/p/a.c'' = Some ex_content" "src_sha1 build_sources = id"
    by (simp_all add: build_sources_def example_files_def)
  moreover have "cnvt_to_cmd_line_args (cc_include_dirs build_call) = []"
    by (simp add: build_call_def new_compiler_call_def cnvt_to_cmd_line_args_def no_include_dirs_def)
  moreover have "input_src_file build_call = ''/p/a.c''" "cc_working_dir build_call = ''/p''" "compiler_type build_call = ''/usr/bin/gcc''"
    "cc_cmd_line_args build_call = [''-c'', ''/p/a.c'', ''-o'', ''a.o'']"
    by (simp_all add: build_call_def)
  ultimately show ?thesis by (simp add: session_start_message_def build_start_def)
qed

lemma build_start_ok:
  "well_formed_request build_start" "uuid_string (ss_client_id build_start)" "request_readable example_files build_start"
proof -
  have "ss_client_idirs build_start = cnvt_to_cmd_line_args no_include_dirs"
    by (simp add: build_start_def cnvt_to_cmd_line_args_def no_include_dirs_def)
  then show "well_formed_request build_start"
    by (auto simp: well_formed_request_def) (simp_all add: build_start_def plain_absolute_def is_absolute_def)
  show "uuid_string (ss_client_id build_start)" by (simp add: build_start_def uuid_string_def)
  show "request_readable example_files build_start"
    using ex_sendable by (simp add: request_readable_def build_start_def example_files_def)
qed

lemma build_view: "view_for 0 (ss_client_id build_start) (new_server 1 Map.empty) = start_view"
  by (simp add: view_for_def build_start_def new_server_def start_view_def)

lemma marking_compiler_compiles:
  "compiles (\<lambda>c as d. (0, ''ok'', [])) marking_compiler (request_made ''g'' ''u'' build_start start_view)
     (sources_in_place build_start example_files start_view)
     (generate_obj_file_path OBJ_STORE_PATH (client_uuid start_view) ''u'') (''obj: '' @ ex_content) ''ok'' []"
proof -
  obtain as where "cr_cmd_line_args (request_made ''g'' ''u'' build_start start_view)
      = as @ [''-o'', generate_obj_file_path OBJ_STORE_PATH (client_uuid start_view) ''u'']"
    using request_made_obj [OF build_start_ok(1)] by blast
  then show ?thesis
    by (auto simp: compiles_def marking_compiler_def sources_in_place_def)
      (simp add: build_start_def build_source_path_def start_view_def new_client_view_def example_files_def)
qed

lemma build_facts:
  "obj_target id build_call = ''/p/a.o''" "compiler_call_type build_call = CALL_TYPE_COMPILE"
  "find_server (\<lambda>_. 0) [[(''s'', some_server)]] = Some (some_server\<lparr>si_available_jobs := 1\<rparr>)"
  "cl_sessions example_client ''u'' = None" "fresh_session ''u'' (new_server 1 Map.empty)"
  "''/p/a.o'' \<notin> fi_filename ` set (ss_required_files_info build_start)" "known_files_match build_start start_view"
  "copies_current build_start example_files start_view (files (srv_backend (new_server 1 Map.empty)))"
  by (simp_all add: obj_target_def build_call_def path_append_relative pick_compilation_server_def some_server_def Let_def
      example_client_def new_client_def fresh_session_def new_server_def new_compiler_manager_def holds_session_def
      build_start_def known_files_match_def copies_current_def start_view_def new_client_view_def)

end
