(* ===== verification/Proto_Io.thy ===== *)
theory Proto_Io
  imports Unix_Ipc Messages
begin

text \<open>
  Message framing on a TCP connection (\<open>src/src/proto_io.hpp\<close>, \<open>proto_io.cpp\<close>) and the
  ordered write queues of the two session classes (\<open>send_msg\<close> and \<open>_writer_loop\<close> of
  \<open>server_session.cpp\<close> and \<open>client_session.cpp\<close>).

  Protobuf's encoder and decoder are arguments: \<open>ser\<close> stands for \<open>SerializeToString\<close>
  and \<open>parse\<close> for the message object after \<open>ParseFromArray\<close>, whose result the sources
  ignore.
\<close>

section \<open>Framing\<close>

text \<open>\<open>htonl\<close> of the size, laid out in memory: the most significant byte first.\<close>

definition frame :: "string \<Rightarrow> string" where
  "frame payload = map char_of_byte (append_u32 [] (u32_size payload)) @ payload"

definition tcp_send_msg :: "('m \<Rightarrow> string) \<Rightarrow> 'm \<Rightarrow> string" where
  "tcp_send_msg ser msg = frame (ser msg)"

definition tcp_read :: "nat \<Rightarrow> string \<Rightarrow> (string \<times> string) result" where
  "tcp_read n input = (if n \<le> length input then Inr (take n input, drop n input) else Inl (Throw Eof))"

definition receive_msg :: "(string \<Rightarrow> 'm) \<Rightarrow> string \<Rightarrow> ('m \<times> string) result" where
  "receive_msg parse input =
     bind_r (tcp_read 4 input) (\<lambda>(size_buf, rest).
     bind_r (read_u32 (map byte_of_char size_buf) 0) (\<lambda>host_msg_sz.
     bind_r (tcp_read (unat host_msg_sz) rest) (\<lambda>(msg_buffer, rest').
       Inr (parse msg_buffer, rest'))))"

fun receive_all :: "nat \<Rightarrow> (string \<Rightarrow> 'm) \<Rightarrow> string \<Rightarrow> ('m list \<times> string) result" where
  "receive_all 0 parse input = Inr ([], input)"
| "receive_all (Suc n) parse input =
     bind_r (receive_msg parse input) (\<lambda>(m, rest).
     bind_r (receive_all n parse rest) (\<lambda>(ms, rest'). Inr (m # ms, rest')))"

section \<open>The server's write queue\<close>

text \<open>
  Everything below runs on the session's strand, so a turn of the writer coroutine (from one
  suspension point to the next) is atomic. The list \<open>loops\<close> holds every writer coroutine that
  has been spawned and has not finished, with where it stands: not yet entered, or suspended in
  \<open>async_write\<close>. The list \<open>wire\<close> holds the frames the socket took completely.
\<close>

datatype srv_loop = SrvSpawned | SrvAwaiting string

record srv_writer =
  sw_queue :: "string list"
  sw_in_progress :: bool
  sw_loops :: "srv_loop list"
  sw_wire :: "string list"

definition srv_writer_init :: srv_writer where
  "srv_writer_init = \<lparr>sw_queue = [], sw_in_progress = False, sw_loops = [], sw_wire = []\<rparr>"

text \<open>The function dispatched by \<open>ServerSession::send_msg\<close>.\<close>

definition srv_enqueue :: "string \<Rightarrow> srv_writer \<Rightarrow> srv_writer" where
  "srv_enqueue framed w =
     (let w1 = w\<lparr>sw_queue := sw_queue w @ [framed]\<rparr>
      in if sw_in_progress w then w1
         else w1\<lparr>sw_in_progress := True, sw_loops := sw_loops w1 @ [SrvSpawned]\<rparr>)"

definition remove_nth :: "nat \<Rightarrow> 'a list \<Rightarrow> 'a list" where
  "remove_nth i xs = take i xs @ drop (Suc i) xs"

text \<open>After the \<open>while\<close> loop, whether it ended or threw: clear the flag, and start over when
  the queue is not empty.\<close>

definition srv_loop_exit :: "nat \<Rightarrow> srv_writer \<Rightarrow> srv_writer" where
  "srv_loop_exit i w =
     (let w1 = w\<lparr>sw_in_progress := False, sw_loops := remove_nth i (sw_loops w)\<rparr>
      in if sw_queue w1 \<noteq> []
         then w1\<lparr>sw_in_progress := True, sw_loops := sw_loops w1 @ [SrvSpawned]\<rparr>
         else w1)"

text \<open>One iteration of the \<open>while\<close> loop up to its suspension in \<open>async_write\<close>.\<close>

definition srv_loop_iter :: "nat \<Rightarrow> srv_writer \<Rightarrow> srv_writer" where
  "srv_loop_iter i w =
     (case sw_queue w of
        [] \<Rightarrow> srv_loop_exit i w
      | m # q \<Rightarrow> w\<lparr>sw_queue := q, sw_loops := (sw_loops w)[i := SrvAwaiting m]\<rparr>)"

text \<open>A turn of coroutine \<open>i\<close>: entered, or resumed after its write completed.\<close>

definition srv_turn :: "nat \<Rightarrow> srv_writer \<Rightarrow> srv_writer" where
  "srv_turn i w =
     (case sw_loops w ! i of
        SrvSpawned \<Rightarrow> srv_loop_iter i w
      | SrvAwaiting m \<Rightarrow> srv_loop_iter i (w\<lparr>sw_wire := sw_wire w @ [m]\<rparr>))"

text \<open>A turn of coroutine \<open>i\<close> whose \<open>async_write\<close> threw.\<close>

definition srv_turn_error :: "nat \<Rightarrow> srv_writer \<Rightarrow> srv_writer" where
  "srv_turn_error i w = srv_loop_exit i w"

inductive srv_step :: "srv_writer \<Rightarrow> srv_writer \<Rightarrow> bool" where
  srv_send: "srv_step w (srv_enqueue m w)"
| srv_run: "i < length (sw_loops w) \<Longrightarrow> srv_step w (srv_turn i w)"
| srv_error: "i < length (sw_loops w) \<Longrightarrow> sw_loops w ! i = SrvAwaiting m \<Longrightarrow> srv_step w (srv_turn_error i w)"

inductive srv_reachable :: "srv_writer \<Rightarrow> bool" where
  srv_start: "srv_reachable srv_writer_init"
| srv_next: "srv_reachable w \<Longrightarrow> srv_step w w' \<Longrightarrow> srv_reachable w'"

section \<open>The client's write queue\<close>

text \<open>\<open>ClientSession::_writer_loop\<close> differs in one point: the frame stays at the front of the
  queue while it is written and is removed after the write.\<close>

datatype cli_loop = CliSpawned | CliAwaiting

record cli_writer =
  cw_queue :: "string list"
  cw_in_progress :: bool
  cw_loops :: "cli_loop list"
  cw_wire :: "string list"

definition cli_writer_init :: cli_writer where
  "cli_writer_init = \<lparr>cw_queue = [], cw_in_progress = False, cw_loops = [], cw_wire = []\<rparr>"

definition cli_enqueue :: "string \<Rightarrow> cli_writer \<Rightarrow> cli_writer" where
  "cli_enqueue framed w =
     (let w1 = w\<lparr>cw_queue := cw_queue w @ [framed]\<rparr>
      in if cw_in_progress w then w1
         else w1\<lparr>cw_in_progress := True, cw_loops := cw_loops w1 @ [CliSpawned]\<rparr>)"

definition cli_loop_exit :: "nat \<Rightarrow> cli_writer \<Rightarrow> cli_writer" where
  "cli_loop_exit i w =
     (let w1 = w\<lparr>cw_in_progress := False, cw_loops := remove_nth i (cw_loops w)\<rparr>
      in if cw_queue w1 \<noteq> []
         then w1\<lparr>cw_in_progress := True, cw_loops := cw_loops w1 @ [CliSpawned]\<rparr>
         else w1)"

definition cli_loop_iter :: "nat \<Rightarrow> cli_writer \<Rightarrow> cli_writer" where
  "cli_loop_iter i w =
     (case cw_queue w of
        [] \<Rightarrow> cli_loop_exit i w
      | m # q \<Rightarrow> w\<lparr>cw_loops := (cw_loops w)[i := CliAwaiting]\<rparr>)"

definition cli_turn :: "nat \<Rightarrow> cli_writer \<Rightarrow> cli_writer" where
  "cli_turn i w =
     (case cw_loops w ! i of
        CliSpawned \<Rightarrow> cli_loop_iter i w
      | CliAwaiting \<Rightarrow>
          (case cw_queue w of
             [] \<Rightarrow> cli_loop_iter i w
           | m # q \<Rightarrow> cli_loop_iter i (w\<lparr>cw_wire := cw_wire w @ [m], cw_queue := q\<rparr>)))"

definition cli_turn_error :: "nat \<Rightarrow> cli_writer \<Rightarrow> cli_writer" where
  "cli_turn_error i w = cli_loop_exit i w"

inductive cli_step :: "cli_writer \<Rightarrow> cli_writer \<Rightarrow> bool" where
  cli_send: "cli_step w (cli_enqueue m w)"
| cli_run: "i < length (cw_loops w) \<Longrightarrow> cli_step w (cli_turn i w)"
| cli_error: "i < length (cw_loops w) \<Longrightarrow> cw_loops w ! i = CliAwaiting \<Longrightarrow> cli_step w (cli_turn_error i w)"

inductive cli_reachable :: "cli_writer \<Rightarrow> bool" where
  cli_start: "cli_reachable cli_writer_init"
| cli_next: "cli_reachable w \<Longrightarrow> cli_step w w' \<Longrightarrow> cli_reachable w'"

section \<open>Lemmas on framing\<close>

lemma byte_of_char_of_byte [simp]: "byte_of_char (char_of_byte b) = b"
proof -
  have "unat b < 256"
    using unsigned_less [of b] by simp
  then have "of_char (char_of (unat b) :: char) = unat b"
    by simp
  then have "byte_of_char (char_of_byte b) = of_nat (unat b)"
    by (metis byte_of_char_def char_of_byte_def of_nat_of_char)
  then show ?thesis by simp
qed

lemma map_byte_of_char_of_byte [simp]: "map (byte_of_char \<circ> char_of_byte) bs = bs"
  by (induction bs) simp_all

lemma receive_frame:
  assumes "length payload < 2 ^ 32"
  shows "receive_msg parse (frame payload @ rest) = Inr (parse payload, rest)"
proof -
  have "read_u32 (append_u32 [] (u32_size payload)) 0 = Inr (u32_size payload)"
    using read_u32_append [of "[]" "u32_size payload" "[]"] by simp
  with assms show ?thesis
    by (simp add: receive_msg_def frame_def tcp_read_def)
qed

lemma receive_all_frames:
  assumes "\<forall>m \<in> set ms. length (ser m) < 2 ^ 32 \<and> parse (ser m) = m"
  shows "receive_all (length ms) parse (concat (map (tcp_send_msg ser) ms) @ rest) = Inr (ms, rest)"
  using assms by (induction ms) (simp_all add: tcp_send_msg_def receive_frame)

section \<open>Ordered delivery\<close>

text \<open>
  The contract of a write queue: frames are accepted in order, a turn of the writer moves work
  along without losing, duplicating or reordering a frame, and the writer is idle only when
  nothing is pending.
\<close>

text \<open>A schedule of the strand: \<open>Some m\<close> sends a frame, \<open>None\<close> gives the writer a turn
  (nothing happens when it is idle).\<close>

fun run_ops :: "('a \<Rightarrow> 's \<Rightarrow> 's) \<Rightarrow> ('s \<Rightarrow> 's) \<Rightarrow> ('s \<Rightarrow> bool) \<Rightarrow> 'a option list \<Rightarrow> 's \<Rightarrow> 's" where
  "run_ops send turn idle [] s = s"
| "run_ops send turn idle (Some m # ops) s = run_ops send turn idle ops (send m s)"
| "run_ops send turn idle (None # ops) s = run_ops send turn idle ops (if idle s then s else turn s)"

fun sent_of :: "'a option list \<Rightarrow> 'a list" where
  "sent_of [] = []"
| "sent_of (Some m # ops) = m # sent_of ops"
| "sent_of (None # ops) = sent_of ops"

locale fifo_transport =
  fixes send :: "'a \<Rightarrow> 's \<Rightarrow> 's"
    and turn :: "'s \<Rightarrow> 's"
    and idle :: "'s \<Rightarrow> bool"
    and written pending :: "'s \<Rightarrow> 'a list"
    and inv :: "'s \<Rightarrow> bool"
    and work :: "'s \<Rightarrow> nat"
  assumes inv_send: "inv s \<Longrightarrow> inv (send m s)"
    and inv_turn: "inv s \<Longrightarrow> \<not> idle s \<Longrightarrow> inv (turn s)"
    and written_send: "inv s \<Longrightarrow> written (send m s) = written s"
    and pending_send: "inv s \<Longrightarrow> pending (send m s) = pending s @ [m]"
    and turn_keeps: "inv s \<Longrightarrow> \<not> idle s \<Longrightarrow> written (turn s) @ pending (turn s) = written s @ pending s"
    and turn_works: "inv s \<Longrightarrow> \<not> idle s \<Longrightarrow> work (turn s) < work s"
    and idle_done: "inv s \<Longrightarrow> idle s \<Longrightarrow> pending s = []"
begin

lemma run_ops_keeps:
  "inv s \<Longrightarrow> inv (run_ops send turn idle ops s) \<and>
     written (run_ops send turn idle ops s) @ pending (run_ops send turn idle ops s)
       = written s @ pending s @ sent_of ops"
proof (induction ops arbitrary: s)
  case (Cons op ops)
  show ?case
  proof (cases op)
    case None
    with Cons show ?thesis by (cases "idle s") (auto simp: inv_turn turn_keeps)
  next
    case (Some m)
    with Cons show ?thesis by (auto simp: inv_send written_send pending_send)
  qed
qed simp

lemma drains:
  "inv s \<Longrightarrow> \<exists>n. idle ((turn ^^ n) s) \<and> written ((turn ^^ n) s) = written s @ pending s"
proof (induction "work s" arbitrary: s rule: less_induct)
  case less
  show ?case
  proof (cases "idle s")
    case True
    with less.prems show ?thesis by (intro exI [of _ 0]) (simp add: idle_done)
  next
    case False
    with less obtain n where "idle ((turn ^^ n) (turn s))"
        and "written ((turn ^^ n) (turn s)) = written s @ pending s"
      using turn_works inv_turn turn_keeps by metis
    then show ?thesis by (intro exI [of _ "Suc n"]) (simp add: funpow_swap1)
  qed
qed

lemma delivers:
  assumes "inv s"
  shows "\<exists>n. idle ((turn ^^ n) (run_ops send turn idle ops s)) \<and>
    written ((turn ^^ n) (run_ops send turn idle ops s)) = written s @ pending s @ sent_of ops"
  using drains run_ops_keeps [OF assms] by metis

end

definition srv_pending :: "srv_writer \<Rightarrow> string list" where
  "srv_pending w = (case sw_loops w of [SrvAwaiting m] \<Rightarrow> m # sw_queue w | _ \<Rightarrow> sw_queue w)"

definition srv_inv :: "srv_writer \<Rightarrow> bool" where
  "srv_inv w \<longleftrightarrow> (if sw_in_progress w then length (sw_loops w) = 1 else sw_loops w = [] \<and> sw_queue w = [])"

definition srv_idle :: "srv_writer \<Rightarrow> bool" where
  "srv_idle w \<longleftrightarrow> sw_loops w = []"

definition srv_work :: "srv_writer \<Rightarrow> nat" where
  "srv_work w = length (sw_queue w) + length (sw_loops w)"

lemmas srv_defs = srv_pending_def srv_inv_def srv_idle_def srv_work_def srv_enqueue_def srv_turn_def
  srv_turn_error_def srv_loop_iter_def srv_loop_exit_def remove_nth_def Let_def

lemma length_1E: "length xs = 1 \<Longrightarrow> (\<And>x. xs = [x] \<Longrightarrow> P) \<Longrightarrow> P"
  by (cases xs) auto

lemma length_Suc_0E: "length xs = Suc 0 \<Longrightarrow> (\<And>x. xs = [x] \<Longrightarrow> P) \<Longrightarrow> P"
  by (cases xs) auto

interpretation srv_fifo: fifo_transport srv_enqueue "srv_turn 0" srv_idle sw_wire srv_pending srv_inv srv_work
  by unfold_locales
     (auto simp: srv_defs split: srv_loop.splits list.splits if_splits elim!: length_Suc_0E)

definition cli_inv :: "cli_writer \<Rightarrow> bool" where
  "cli_inv w \<longleftrightarrow> (if cw_in_progress w then length (cw_loops w) = 1 else cw_loops w = [] \<and> cw_queue w = [])
     \<and> (CliAwaiting \<in> set (cw_loops w) \<longrightarrow> cw_queue w \<noteq> [])"

definition cli_idle :: "cli_writer \<Rightarrow> bool" where
  "cli_idle w \<longleftrightarrow> cw_loops w = []"

definition cli_work :: "cli_writer \<Rightarrow> nat" where
  "cli_work w = 2 * length (cw_queue w)
     + (case cw_loops w of [] \<Rightarrow> 0 | l # _ \<Rightarrow> (case l of CliSpawned \<Rightarrow> 2 | CliAwaiting \<Rightarrow> 1))"

lemmas cli_defs = cli_inv_def cli_idle_def cli_work_def cli_enqueue_def cli_turn_def
  cli_turn_error_def cli_loop_iter_def cli_loop_exit_def remove_nth_def Let_def

interpretation cli_fifo: fifo_transport cli_enqueue "cli_turn 0" cli_idle cw_wire cw_queue cli_inv cli_work
  by unfold_locales
     (auto simp: cli_defs split: cli_loop.splits list.splits if_splits elim!: length_Suc_0E)

section \<open>Properties\<close>

lemma run_ops_map:
  "run_ops (\<lambda>m. send (f m)) turn idle ops s = run_ops send turn idle (map (map_option f) ops) s"
proof (induction ops arbitrary: s)
  case (Cons op ops)
  then show ?case by (cases op) auto
qed simp

lemma sent_of_map: "sent_of (map (map_option f) ops) = map f (sent_of ops)"
proof (induction ops)
  case (Cons op ops)
  then show ?case by (cases op) auto
qed simp

lemma srv_inv_init: "srv_inv srv_writer_init"
  by (simp add: srv_inv_def srv_writer_init_def)

lemma cli_inv_init: "cli_inv cli_writer_init"
  by (simp add: cli_inv_def cli_writer_init_def)

lemma srv_step_inv: "srv_step w w' \<Longrightarrow> srv_inv w \<Longrightarrow> srv_inv w'"
proof (induction rule: srv_step.induct)
  case (srv_send w m)
  then show ?case by (rule srv_fifo.inv_send)
next
  case (srv_run i w)
  then have "i = 0" and "\<not> srv_idle w"
    by (auto simp: srv_inv_def srv_idle_def split: if_splits)
  with srv_run show ?case by (simp add: srv_fifo.inv_turn)
next
  case (srv_error i w m)
  then show ?case by (auto simp: srv_defs split: if_splits)
qed

lemma srv_reachable_inv: "srv_reachable w \<Longrightarrow> srv_inv w"
  by (induction rule: srv_reachable.induct) (auto intro: srv_inv_init srv_step_inv)

lemma cli_step_inv: "cli_step w w' \<Longrightarrow> cli_inv w \<Longrightarrow> cli_inv w'"
proof (induction rule: cli_step.induct)
  case (cli_send w m)
  then show ?case by (rule cli_fifo.inv_send)
next
  case (cli_run i w)
  then have "i = 0" and "\<not> cli_idle w"
    by (auto simp: cli_inv_def cli_idle_def split: if_splits)
  with cli_run show ?case by (simp add: cli_fifo.inv_turn)
next
  case (cli_error i w)
  then show ?case by (auto simp: cli_defs split: if_splits)
qed

lemma cli_reachable_inv: "cli_reachable w \<Longrightarrow> cli_inv w"
  by (induction rule: cli_reachable.induct) (auto intro: cli_inv_init cli_step_inv)

text \<open>Both queues deliver, whatever the schedule of their writer.\<close>

definition server_wire :: "('m \<Rightarrow> string) \<Rightarrow> 'm option list \<Rightarrow> nat \<Rightarrow> string" where
  "server_wire ser ops n = concat (sw_wire ((srv_turn 0 ^^ n)
     (run_ops (\<lambda>m. srv_enqueue (tcp_send_msg ser m)) (srv_turn 0) srv_idle ops srv_writer_init)))"

definition client_wire :: "('m \<Rightarrow> string) \<Rightarrow> 'm option list \<Rightarrow> nat \<Rightarrow> string" where
  "client_wire ser ops n = concat (cw_wire ((cli_turn 0 ^^ n)
     (run_ops (\<lambda>m. cli_enqueue (tcp_send_msg ser m)) (cli_turn 0) cli_idle ops cli_writer_init)))"

lemma server_queue_delivers:
  assumes "\<forall>m \<in> set (sent_of ops). length (ser m) < 2 ^ 32 \<and> parse (ser m) = m"
  obtains n where "srv_idle ((srv_turn 0 ^^ n)
      (run_ops (\<lambda>m. srv_enqueue (tcp_send_msg ser m)) (srv_turn 0) srv_idle ops srv_writer_init))"
    "receive_all (length (sent_of ops)) parse (server_wire ser ops n) = Inr (sent_of ops, [])"
proof -
  obtain n where "srv_idle ((srv_turn 0 ^^ n)
        (run_ops srv_enqueue (srv_turn 0) srv_idle (map (map_option (tcp_send_msg ser)) ops) srv_writer_init))"
    and "sw_wire ((srv_turn 0 ^^ n)
        (run_ops srv_enqueue (srv_turn 0) srv_idle (map (map_option (tcp_send_msg ser)) ops) srv_writer_init))
      = map (tcp_send_msg ser) (sent_of ops)"
    using srv_fifo.delivers [OF srv_inv_init, of "map (map_option (tcp_send_msg ser)) ops"]
    by (auto simp: srv_writer_init_def srv_pending_def sent_of_map)
  with receive_all_frames [OF assms, of "[]"] that show ?thesis
    by (auto simp: run_ops_map server_wire_def)
qed

lemma client_queue_delivers:
  assumes "\<forall>m \<in> set (sent_of ops). length (ser m) < 2 ^ 32 \<and> parse (ser m) = m"
  obtains n where "cli_idle ((cli_turn 0 ^^ n)
      (run_ops (\<lambda>m. cli_enqueue (tcp_send_msg ser m)) (cli_turn 0) cli_idle ops cli_writer_init))"
    "receive_all (length (sent_of ops)) parse (client_wire ser ops n) = Inr (sent_of ops, [])"
proof -
  obtain n where "cli_idle ((cli_turn 0 ^^ n)
        (run_ops cli_enqueue (cli_turn 0) cli_idle (map (map_option (tcp_send_msg ser)) ops) cli_writer_init))"
    and "cw_wire ((cli_turn 0 ^^ n)
        (run_ops cli_enqueue (cli_turn 0) cli_idle (map (map_option (tcp_send_msg ser)) ops) cli_writer_init))
      = map (tcp_send_msg ser) (sent_of ops)"
    using cli_fifo.delivers [OF cli_inv_init, of "map (map_option (tcp_send_msg ser)) ops"]
    by (auto simp: cli_writer_init_def sent_of_map)
  with receive_all_frames [OF assms, of "[]"] that show ?thesis
    by (auto simp: run_ops_map client_wire_def)
qed

text \<open>C11. Whatever the interleaving of \<open>send_msg\<close> calls and writer turns on the server's
  strand, the writer comes to rest after finitely many further turns, and a receiver that reads as
  many messages as were sent gets exactly the messages sent, in order, with no byte left over.\<close>

theorem server_messages_delivered:
  assumes "\<forall>m \<in> set (sent_of ops). length (ser m) < 2 ^ 32 \<and> parse (ser m) = m"
  shows "\<exists>n w. w = (srv_turn 0 ^^ n)
      (run_ops (\<lambda>m. srv_enqueue (tcp_send_msg ser m)) (srv_turn 0) srv_idle ops srv_writer_init) \<and>
    srv_idle w \<and>
    receive_all (length (sent_of ops)) parse (concat (sw_wire w)) = Inr (sent_of ops, [])"
  using server_queue_delivers [where parse = parse, OF assms] unfolding server_wire_def by metis

theorem server_messages_delivered_witness:
  "\<exists>n w. w = (srv_turn 0 ^^ n)
      (run_ops (\<lambda>m. srv_enqueue (tcp_send_msg (\<lambda>x. x) m)) (srv_turn 0) srv_idle
        [Some ''ab'', None, Some ''c''] srv_writer_init) \<and> srv_idle w \<and>
    receive_all (length (sent_of [Some ''ab'', None, Some ''c''])) (\<lambda>x. x) (concat (sw_wire w))
      = Inr (sent_of [Some ''ab'', None, Some ''c''], [])"
  by (rule server_messages_delivered) simp

text \<open>C12. The same delivery guarantee for the client's queue, whose writer keeps the frame in the
  queue until it is written.\<close>

theorem client_messages_delivered:
  assumes "\<forall>m \<in> set (sent_of ops). length (ser m) < 2 ^ 32 \<and> parse (ser m) = m"
  shows "\<exists>n w. w = (cli_turn 0 ^^ n)
      (run_ops (\<lambda>m. cli_enqueue (tcp_send_msg ser m)) (cli_turn 0) cli_idle ops cli_writer_init) \<and>
    cli_idle w \<and>
    receive_all (length (sent_of ops)) parse (concat (cw_wire w)) = Inr (sent_of ops, [])"
  using client_queue_delivers [where parse = parse, OF assms] unfolding client_wire_def by metis

theorem client_messages_delivered_witness:
  "\<exists>n w. w = (cli_turn 0 ^^ n)
      (run_ops (\<lambda>m. cli_enqueue (tcp_send_msg (\<lambda>x. x) m)) (cli_turn 0) cli_idle
        [Some ''ab'', None, Some ''c''] cli_writer_init) \<and> cli_idle w \<and>
    receive_all (length (sent_of [Some ''ab'', None, Some ''c''])) (\<lambda>x. x) (concat (cw_wire w))
      = Inr (sent_of [Some ''ab'', None, Some ''c''], [])"
  by (rule client_messages_delivered) simp

text \<open>C13. In every state the server's writer can reach, failed writes included, at most one
  writer coroutine is alive, it is alive exactly when the flag \<open>_write_in_progress\<close> says so, and
  a frame never waits in the queue without a writer (no lost wake-up).\<close>

theorem server_single_writer:
  assumes "srv_reachable w"
  shows "length (sw_loops w) \<le> 1 \<and> (sw_in_progress w \<longleftrightarrow> sw_loops w \<noteq> []) \<and>
    (sw_queue w \<noteq> [] \<longrightarrow> sw_loops w \<noteq> [])"
  using srv_reachable_inv [OF assms] by (auto simp: srv_inv_def split: if_splits)

theorem server_single_writer_witness:
  "length (sw_loops (srv_enqueue ''m'' srv_writer_init)) \<le> 1"
  using server_single_writer [OF srv_next [OF srv_start srv_send, of "''m''"]] by simp

text \<open>A write that fails drops the frame in flight on the server and keeps it on the client. On a
  dead connection the client's loop is back in the same state after every failed write: it spins
  for as long as the socket fails.\<close>

lemma cli_write_error_spins:
  assumes "cli_inv w" and "cw_loops w = [CliAwaiting]"
  shows "cli_turn 0 (cli_turn_error 0 w) = w"
  using assms by (cases w) (auto simp: cli_defs split: list.splits if_splits)

lemma srv_write_error_drops:
  assumes "srv_inv w" and "sw_loops w = [SrvAwaiting m]"
  shows "srv_pending (srv_turn_error 0 w) = sw_queue w"
  using assms by (auto simp: srv_defs split: if_splits)

end
