(* ===== verification/Whole_System.thy ===== *)
theory Whole_System
  imports Full_Build Proto_Io
begin

text \<open>
  The three programs together, byte for byte on every connection: the wrapper
  (\<open>src/src/distbuild_wrapper.cpp\<close>) on its local socket, the client's daemon that answers it
  (\<open>Client::_handle_ipc_request\<close> behind \<open>UnixIpcManager\<close>), and a server. The messages of the session
  go through the write queues of both session classes, under any schedule of their writers, and are
  framed and parsed again at the other end.
\<close>

section \<open>The programs\<close>

text \<open>The handler that the daemon registers for its local socket. A request that waits without end
  has no answer; the value of that case stands for it and is no response.\<close>

definition client_daemon ::
    "nat \<Rightarrow> source_env \<Rightarrow> (string \<Rightarrow> bool) \<Rightarrow> (string \<Rightarrow> string) \<Rightarrow> process_runner \<Rightarrow> network
      \<Rightarrow> (nat \<Rightarrow> nat) \<Rightarrow> server_nodes list \<Rightarrow> dep_files_state \<Rightarrow> client \<Rightarrow> file_store
      \<Rightarrow> unix_ipc_request \<Rightarrow> unix_ipc_response result" where
  "client_daemon fuel env openable wc run net draw snapshots deps cl fs rq =
     (case handle_ipc_request fuel env openable wc run net draw snapshots deps rq cl fs of
        None \<Rightarrow> Inl Undefined
      | Some r \<Rightarrow> bind_r r (\<lambda>(resp, cl', fs'). Inr resp))"

text \<open>The network of the client when the connection to the chosen server carries these bytes.\<close>

definition tcp_network :: "(string \<Rightarrow> server_message) \<Rightarrow> nat \<Rightarrow> string \<Rightarrow> network" where
  "tcp_network parse n bytes = (\<lambda>node rqst.
     case receive_all n parse bytes of
       Inr (reply # msgs, _) \<Rightarrow> (True, Inr reply, msgs)
     | _ \<Rightarrow> (False, Inl (Throw Eof), []))"

text \<open>Protobuf on these messages: it gives back what it encoded, in less than four gigabytes.\<close>

definition carries :: "('m \<Rightarrow> string) \<Rightarrow> (string \<Rightarrow> 'm) \<Rightarrow> 'm list \<Rightarrow> bool" where
  "carries ser parse ms \<longleftrightarrow> (\<forall>m \<in> set ms. length (ser m) < 2 ^ 32 \<and> parse (ser m) = m)"

section \<open>What arrives\<close>

lemma client_bytes_arrive:
  assumes "carries ser parse ms" "sent_of ops = ms"
  obtains n where "receive_all (length ms) parse (client_wire ser ops n) = Inr (ms, [])"
  using client_queue_delivers [of ops ser parse] assms by (auto simp: carries_def)

lemma server_bytes_arrive:
  assumes "carries ser parse ms" "sent_of ops = ms"
  obtains n where "receive_all (length ms) parse (server_wire ser ops n) = Inr (ms, [])"
  using server_queue_delivers [of ops ser parse] assms by (auto simp: carries_def)

lemma tcp_network_received:
  "receive_all (length (reply # msgs)) parse bytes = Inr (reply # msgs, rest) \<Longrightarrow>
     tcp_network parse (length (reply # msgs)) bytes node rqst = (True, Inr reply, msgs)"
  by (simp add: tcp_network_def)

lemma wrapper_sees_client:
  assumes "length argv \<ge> 3" "request_fits \<lparr>current_working_dir = cwd, cmd_line_args = tl argv\<rparr>"
    and "handle_ipc_request fuel env openable wc run net draw snapshots deps
      \<lparr>current_working_dir = cwd, cmd_line_args = tl argv\<rparr> cl fs = Some (Inr (resp, cl', fs'))"
    and "response_fits resp"
  shows "wrapper_main what (daemon_peer (client_daemon fuel env openable wc run net draw snapshots deps cl fs) m) cwd argv
    = Inr (compiler_exit_code resp, stdout_content resp, stderr_content resp)"
  using assms by (intro wrapper_served) (simp_all add: client_daemon_def)

text \<open>What both programs do with the messages themselves they do with the bytes on the wires.\<close>

lemma programs_over_wires:
  assumes argv: "length argv \<ge> 3" "rq = \<lparr>current_working_dir = cwd, cmd_line_args = tl argv\<rparr>" "request_fits rq"
    and queues: "carries cser cparse (sent_of cops)" "carries sser sparse (sent_of sops)" "sent_of sops = reply # msgs"
    and answer: "\<forall>net. net node rqst = (True, Inr reply, msgs) \<longrightarrow>
        (\<exists>cl'. handle_ipc_request fuel env openable wc lrun net draw snapshots deps rq cl fs = Some (Inr (resp, cl', fs')))"
    and fits: "response_fits resp"
  shows "\<exists>n k cl'.
      bind_r (receive_all (length (sent_of cops)) cparse (client_wire cser cops n)) (\<lambda>(ms, _). f ms) = f (sent_of cops)
    \<and> bind_r (receive_all (length (sent_of sops)) sparse (server_wire sser sops k)) (\<lambda>(ms, _). g ms) = g (sent_of sops)
    \<and> (let net = tcp_network sparse (length (sent_of sops)) (server_wire sser sops k) in
         handle_ipc_request fuel env openable wc lrun net draw snapshots deps rq cl fs = Some (Inr (resp, cl', fs'))
         \<and> wrapper_main what (daemon_peer (client_daemon fuel env openable wc lrun net draw snapshots deps cl fs) m)
             cwd argv = Inr (compiler_exit_code resp, stdout_content resp, stderr_content resp))"
proof -
  obtain n where n: "receive_all (length (sent_of cops)) cparse (client_wire cser cops n) = Inr (sent_of cops, [])"
    by (rule client_bytes_arrive [OF queues(1) refl])
  obtain k where k: "receive_all (length (sent_of sops)) sparse (server_wire sser sops k) = Inr (sent_of sops, [])"
    by (rule server_bytes_arrive [OF queues(2) refl])
  let ?net = "tcp_network sparse (length (sent_of sops)) (server_wire sser sops k)"
  have "?net node rqst = (True, Inr reply, msgs)"
    using tcp_network_received k unfolding queues(3) by blast
  then obtain cl' where h: "handle_ipc_request fuel env openable wc lrun ?net draw snapshots deps rq cl fs
      = Some (Inr (resp, cl', fs'))" using answer by blast
  have "wrapper_main what (daemon_peer (client_daemon fuel env openable wc lrun ?net draw snapshots deps cl fs) m) cwd argv
      = Inr (compiler_exit_code resp, stdout_content resp, stderr_content resp)"
    by (rule wrapper_sees_client [OF argv(1) argv(3) [unfolded argv(2)] h [unfolded argv(2)] fits])
  then show ?thesis using n k h by (intro exI [of _ n] exI [of _ k] exI [of _ cl']) (simp add: Let_def)
qed

section \<open>Properties\<close>



section \<open>A build over the wires\<close>

text \<open>For a fixed list of messages, a message is written as its position in the list.\<close>

definition table_ser :: "'m list \<Rightarrow> 'm \<Rightarrow> string" where
  "table_ser ms m = replicate (length (takeWhile (\<lambda>x. x \<noteq> m) ms)) CHR ''x''"

definition table_parse :: "'m list \<Rightarrow> string \<Rightarrow> 'm" where
  "table_parse ms s = ms ! length s"

lemma table_carries:
  assumes "length ms < 2 ^ 32"
  shows "carries (table_ser ms) (table_parse ms) ms"
proof -
  have "length (takeWhile (\<lambda>x. x \<noteq> m) ms) < length ms \<and> ms ! length (takeWhile (\<lambda>x. x \<noteq> m) ms) = m" if "m \<in> set ms" for m
    using that by (induction ms) auto
  then show ?thesis using assms by (fastforce simp: carries_def table_ser_def table_parse_def)
qed

lemma sent_of_map_Some [simp]: "sent_of (map Some ms) = ms"
  by (induction ms) simp_all

abbreviation build_obj :: string where
  "build_obj \<equiv> ''obj: '' @ ex_content"

definition build_uploads :: "client_message list" where
  "build_uploads = CSessionStart build_start # upload_msgs ''u'' example_files (wanted_names build_start start_view)"

definition build_answers :: "server_message list \<Rightarrow> server_message list" where
  "build_answers result = SSessionConfirmed ''u'' (wanted_names build_start start_view)
     # confirmations ''u'' (wanted_names build_start start_view) @ result"

lemma build_message_counts:
  "wanted_names build_start start_view = [''/p/a.c'']"
  "length build_uploads = 2" "length (build_answers (object_answer ''u'' 2 ''ok'' [] build_obj)) = 3"
  "length (build_answers (failure_answer ''u'' 4 2 [] ''no memory'')) = 3"
proof -
  show w: "wanted_names build_start start_view = [''/p/a.c'']"
    by (simp add: wanted_names_def build_start_def registered_def start_view_def new_client_view_def state_of_info_def
        new_file_state_view_def wanted_def)
  have "pieces ex_content = [ex_content]"
    by (simp add: pieces_def ex_content_def chunks_of.simps OBJ_CHUNK_SZ_def)
  then show "length build_uploads = 2"
    by (simp add: build_uploads_def w upload_of_def example_files_def)
  show "length (build_answers (object_answer ''u'' 2 ''ok'' [] build_obj)) = 3"
    by (simp add: build_answers_def w confirmations_def object_answer_def obj_chunks_step ex_content_def CHUNK_SIZE_def Let_def)
  show "length (build_answers (failure_answer ''u'' 4 2 [] ''no memory'')) = 3"
    by (simp add: build_answers_def w confirmations_def failure_answer_def)
qed

definition build_argv :: "string list" where
  "build_argv = ''distbuild'' # cmd_line_args build_request"

lemma build_argv_facts:
  "length build_argv \<ge> 3" "build_request = \<lparr>current_working_dir = ''/p'', cmd_line_args = tl build_argv\<rparr>"
  "request_fits build_request" "response_fits (mk_response 0 [] ''ok'')" "response_fits (mk_response 1 [] ''error'')"
  "tl build_argv = ''/usr/bin/gcc'' # tl (tl build_argv)"
  by (simp_all add: build_argv_def build_request_def request_fits_def response_fits_def serialize_request_flat
      serialize_response_flat mk_response_def)

definition build_net :: "server_message list \<Rightarrow> nat \<Rightarrow> network" where
  "build_net ms k = tcp_network (table_parse ms) (length ms) (server_wire (table_ser ms) (None # map Some ms) k)"



end
