(* ===== verification/Conversation.thy ===== *)
theory Conversation
  imports Full_Build
begin

text \<open>
  The conversation of a build as it happens: the client and the server say what their handlers make of the
  messages they have received so far, and each direction of the connection delivers one message at a
  time, in any order of the two. No such order leads into a deadlock, and all of them deliver the same
  messages.
\<close>

section \<open>Two programs that answer each other\<close>

text \<open>\<open>a\<close> is all that one program has said when it has received these messages, \<open>b\<close> all that the other
  has; the state is what has been delivered to each.\<close>

inductive conversation :: "('b list \<Rightarrow> 'a list) \<Rightarrow> ('a list \<Rightarrow> 'b list) \<Rightarrow> 'a list \<Rightarrow> 'b list \<Rightarrow> bool" for a b where
  silence: "conversation a b [] []"
| from_a: "conversation a b xs ys \<Longrightarrow> a ys = xs @ x # rest \<Longrightarrow> conversation a b (xs @ [x]) ys"
| from_b: "conversation a b xs ys \<Longrightarrow> b xs = ys @ y # rest \<Longrightarrow> conversation a b xs (ys @ [y])"

lemma conversation_on_track:
  assumes "conversation a b xs ys"
    and "\<And>j. j \<le> length Y \<Longrightarrow> prefix (a (take j Y)) X" "\<And>k. k \<le> length X \<Longrightarrow> prefix (b (take k X)) Y"
  shows "prefix xs X \<and> prefix ys Y"
  using assms(1)
proof induction
  case (from_a xs ys x rest)
  then obtain j where "j \<le> length Y" "ys = take j Y" by (metis nle_le prefix_length_le prefix_def append_eq_conv_conj)
  then have "prefix (xs @ x # rest) X" using assms(2) from_a(2) by metis
  then show ?case using from_a by (auto simp: prefix_def)
next
  case (from_b xs ys y rest)
  then obtain k where "k \<le> length X" "xs = take k X" by (metis nle_le prefix_length_le prefix_def append_eq_conv_conj)
  then have "prefix (ys @ y # rest) Y" using assms(3) from_b(2) by metis
  then show ?case using from_b by (auto simp: prefix_def)
qed simp

lemma prefix_longer:
  assumes "prefix xs X" "prefix zs X" "length xs < length zs"
  obtains x rest where "zs = xs @ x # rest"
proof -
  have "prefix xs zs" by (rule prefix_length_prefix [OF assms(1,2)]) (use assms(3) in simp)
  then obtain tail where "zs = xs @ tail" by (auto simp: prefix_def)
  then show ?thesis using that assms(3) by (cases tail) auto
qed

lemma conversation_goes_on:
  assumes "conversation a b xs ys"
    and track: "\<And>j. j \<le> length Y \<Longrightarrow> prefix (a (take j Y)) X" "\<And>k. k \<le> length X \<Longrightarrow> prefix (b (take k X)) Y"
    and more: "\<And>j k. j \<le> length Y \<Longrightarrow> k \<le> length X \<Longrightarrow> j < length Y \<or> k < length X \<Longrightarrow>
      k < length (a (take j Y)) \<or> j < length (b (take k X))"
  shows "xs = X \<and> ys = Y \<or> (\<exists>x. conversation a b (xs @ [x]) ys) \<or> (\<exists>y. conversation a b xs (ys @ [y]))"
proof -
  have p: "prefix xs X" "prefix ys Y" using conversation_on_track [OF assms(1-3)] by auto
  then have t: "xs = take (length xs) X" "ys = take (length ys) Y" "length xs \<le> length X" "length ys \<le> length Y"
    by (auto simp: prefix_def)
  show ?thesis
  proof (cases "length ys < length Y \<or> length xs < length X")
    case True
    then consider "length xs < length (a ys)" | "length ys < length (b xs)" using more t by metis
    then show ?thesis
    proof cases
      case 1
      then obtain x rest where "a ys = xs @ x # rest" using prefix_longer p(1) track(1) t by metis
      then show ?thesis using from_a [OF assms(1)] by blast
    next
      case 2
      then obtain y rest where "b xs = ys @ y # rest" using prefix_longer p(2) track(2) t by metis
      then show ?thesis using from_b [OF assms(1)] by blast
    qed
  next
    case False
    then show ?thesis using t by simp
  qed
qed

section \<open>What the server says\<close>

text \<open>A part of a file changes nothing that the server says or queues.\<close>

definition says_same :: "string \<Rightarrow> client_view \<Rightarrow> backend \<Rightarrow> client_view \<Rightarrow> backend \<Rightarrow> bool" where
  "says_same uuid view be view' be' \<longleftrightarrow> manager be' = manager be
     \<and> map_option out_msgs (get_session view' uuid) = map_option out_msgs (get_session view uuid)"

lemma part_of_rest:
  assumes "receiving uuid path cur n off got view be" "get_session view uuid = Some s"
    and "k < length ds" "off \<le> length got" "length (got @ concat ds) < 2 ^ 64"
  shows "\<exists>view' be'. handle_server_session openable sha now uuid
        (map CFileChunkUpload (take k (chunk_seq uuid path n (length got) ds))) view be = Inr (True, view', be')
      \<and> says_same uuid view be view' be'"
  using assms
proof (induction k arbitrary: ds n off got view be s)
  case 0
  then show ?case by (simp add: says_same_def)
next
  case (Suc k)
  obtain d d2 ds' where ds: "ds = d # d2 # ds'" using Suc.prems(3) by (metis Suc_less_eq length_Cons list.exhaust list.size(3) not_less_zero)
  let ?view = "update_last_active_ts now view"
  have recv: "receiving uuid path cur n off got ?view be" "get_session ?view uuid = Some s"
    "off \<le> length got" "length got < 2 ^ 64" using Suc.prems by simp_all
  obtain ts where ts: "is_finished ts = False" "ft_session_id ts = uuid" "last_seq_no ts = of_nat (Suc n)"
    "last_offset ts = of_nat (length got)" "is_open (file_out_stream ts) = (\<not> False)"
    "stream_path (file_out_stream ts) = server_file_path cur" "stream_pos (file_out_stream ts) = length (got @ d)"
    "process_file_chunk openable sha uuid (mk_chunk uuid path (Suc n) (length got) d False) s ?view be =
       (if False then finish_upload sha uuid path cur (set_transfer uuid (server_file_path cur) ts ?view)
                    (be\<lparr>files := (files be)(server_file_path cur \<mapsto> got @ d)\<rparr>)
        else (Inr True, set_transfer uuid (server_file_path cur) ts ?view,
              be\<lparr>files := (files be)(server_file_path cur \<mapsto> got @ d)\<rparr>))"
    by (rule process_chunk_in_sequence [where l = False, OF recv])
  let ?v1 = "set_transfer uuid (server_file_path cur) ts ?view" and ?b1 = "be\<lparr>files := (files be)(server_file_path cur \<mapsto> got @ d)\<rparr>"
  have r1: "receiving uuid path cur (Suc n) (length got) (got @ d) ?v1 ?b1" using recv ts by (auto simp: receiving_def)
  have s1: "get_session ?v1 uuid = Some (with_transfer (server_file_path cur) ts s)" using recv(2) by simp
  obtain view' be' where t: "handle_server_session openable sha now uuid
        (map CFileChunkUpload (take k (chunk_seq uuid path (Suc n) (length (got @ d)) (d2 # ds')))) ?v1 ?b1 = Inr (True, view', be')"
      "says_same uuid ?v1 ?b1 view' be'"
    using Suc.IH [OF r1 s1, of "d2 # ds'"] Suc.prems ds by auto
  have "says_same uuid view be view' be'" using t(2) recv(2) by (simp add: says_same_def)
  then show ?case using t(1) ts(8) handle_chunk_ok [OF Suc.prems(2)] ds by (auto simp del: chunk_seq.simps simp: chunk_seq.simps(2))
qed

lemma part_of_file:
  assumes "uploadable openable cfs view s path" "get_session view uuid = Some s" "k < length (upload_of uuid cfs path)"
  shows "\<exists>view' be'. handle_server_session openable sha now uuid
        (map CFileChunkUpload (take k (upload_of uuid cfs path))) view be = Inr (True, view', be')
      \<and> says_same uuid view be view' be'"
proof (cases k)
  case 0
  then show ?thesis by (simp add: says_same_def)
next
  case (Suc k')
  obtain content cur where c: "cfs path = Some content" "length content < 2 ^ 64" "client_file_states view path = Some cur"
      "openable (server_file_path cur)" "file_transfer_states s (server_file_path cur) = None"
    using assms(1) by (auto elim: uploadableE)
  let ?sp = "server_file_path cur" and ?ds = "pieces content"
  let ?view = "set_transfer uuid ?sp (fresh_transfer uuid ?sp) view" and ?be = "be\<lparr>files := (files be)(?sp \<mapsto> [])\<rparr>"
  obtain d ds where ds: "?ds = d # ds" using assms(3) c(1) by (cases ?ds) (simp_all add: upload_of_def)
  have len: "length (chunk_seq uuid path m o' xs) = length xs" for m o' xs by (induction xs arbitrary: m o') simp_all
  have s0: "get_session ?view uuid = Some (with_transfer ?sp (fresh_transfer uuid ?sp) s)" using assms(2) by simp
  obtain view' be' where "handle_server_session openable sha now uuid
        (map CFileChunkUpload (take k (chunk_seq uuid path 0 0 ?ds))) ?view ?be = Inr (True, view', be')"
      "says_same uuid ?view ?be view' be'"
    using part_of_rest [where openable = openable and sha = sha and now = now, OF receiving_fresh [where be = be, OF c(3) assms(2)] s0, of k ?ds]
      assms(3) c(1,2) by (auto simp: upload_of_def len)
  moreover have "handle_server_session openable sha now uuid (map CFileChunkUpload (take k (chunk_seq uuid path 0 0 ?ds))) view be
      = handle_server_session openable sha now uuid (map CFileChunkUpload (take k (chunk_seq uuid path 0 0 ?ds))) ?view ?be"
    using handle_chunk_first [where openable = openable, OF c(3) assms(2) c(5,4)] by (simp add: ds Suc)
  ultimately show ?thesis using c(1) assms(2) by (auto simp: says_same_def upload_of_def)
qed

text \<open>Cut anywhere, the uploads are some whole files and a part of the next.\<close>

lemma upload_msgs_append [simp]: "upload_msgs uuid cfs (ps @ qs) = upload_msgs uuid cfs ps @ upload_msgs uuid cfs qs"
  by (simp add: upload_msgs_def)

lemma uploads_cut:
  assumes "k < length (upload_msgs uuid cfs ps)"
  obtains n r where "n < length ps" "r < length (upload_of uuid cfs (ps ! n))"
    "take k (upload_msgs uuid cfs ps)
      = upload_msgs uuid cfs (take n ps) @ map CFileChunkUpload (take r (upload_of uuid cfs (ps ! n)))"
proof -
  have "\<exists>n r. n < length ps \<and> r < length (upload_of uuid cfs (ps ! n)) \<and> take k (upload_msgs uuid cfs ps)
      = upload_msgs uuid cfs (take n ps) @ map CFileChunkUpload (take r (upload_of uuid cfs (ps ! n)))"
    using assms
  proof (induction ps arbitrary: k)
    case (Cons p ps)
    let ?l = "length (upload_of uuid cfs p)"
    show ?case
    proof (cases "k < ?l")
      case True
      then show ?thesis by (intro exI [of _ 0] exI [of _ k]) (simp add: take_map)
    next
      case False
      then obtain n r where "n < length ps" "r < length (upload_of uuid cfs (ps ! n))"
        "take (k - ?l) (upload_msgs uuid cfs ps)
          = upload_msgs uuid cfs (take n ps) @ map CFileChunkUpload (take r (upload_of uuid cfs (ps ! n)))"
        using Cons.IH [of "k - ?l"] Cons.prems by fastforce
      then show ?thesis using False by (intro exI [of _ "Suc n"] exI [of _ r]) simp
    qed
  qed simp
  then show ?thesis using that by blast
qed

text \<open>While a file is missing, the session is not marked, so no request of it waits.\<close>

lemma not_requested_yet:
  assumes u: "session_set_up now uuid rqst view be view1 be1 s1" and wf: "well_formed_request rqst"
    and match: "known_files_match rqst view"
    and n: "n < length (wanted_names rqst view)"
    and o: "upload_outcome uuid cfs (take n (wanted_names rqst view)) view1 be1 s1 view2 be2 s2"
    and once: "once view2 (manager be2)"
  shows "find (\<lambda>r. requester_session r = uuid) (compile_task_queue (manager be2)) = None"
proof -
  let ?p = "wanted_names rqst view ! n"
  have p: "?p \<in> set (wanted_names rqst view)" using n by simp
  obtain fi where fi: "fi \<in> set (ss_required_files_info rqst)" "?p = fi_filename fi"
    using wanted_names_files(2) [OF wf, of view] p by auto
  obtain st where st: "registered (ss_required_files_info rqst) view ?p = Some st" "client_file_states view1 ?p = Some (after_request now st)"
    using set_up_state [OF u wf match fi(1)] fi(2) by metis
  have "wanted st" using p st(1) by (auto simp: wanted_names_def)
  then have away: "\<not> file_available view1 ?p" using st(2) by (auto simp: file_available_def after_request_def wanted_def)
  have "?p \<notin> set (take n (wanted_names rqst view))"
    using wanted_names_files(1) [OF wf, of view] n by (auto simp: in_set_conv_nth nth_eq_iff_index_eq)
  then have same: "client_file_states view2 ?p = client_file_states view1 ?p" using o by (simp add: upload_outcome_def)
  have req: "?p \<in> set (required_files_state s1)" "required_files_state s2 = required_files_state s1"
    using u o fi by (auto simp: session_set_up_def upload_outcome_def)
  have "\<not> file_available view2 ?p" using away same by (simp add: file_available_def)
  then have "\<not> all_there view1 s1" "\<not> all_there view2 s2" using away req by (auto simp: all_there_def)
  then have "\<not> is_compiler_running s2" using u o by (auto simp: session_set_up_def upload_outcome_def)
  then have "reqs (manager be2) uuid = 0" using once o by (fastforce simp: once_def upload_outcome_def)
  then show ?thesis by (simp add: reqs_def find_None_iff filter_empty_conv)
qed

text \<open>What the server has said after some whole files and a part of the next.\<close>

lemma server_says_after_part:
  fixes clock :: nat
  assumes reach: "server_reachable openable sha valid_uuid compiler_bin srv"
    and rq: "well_formed_request rqst" "uuid_string (ss_client_id rqst)" "valid_uuid (ss_client_id rqst)"
    and fresh: "fresh_session suuid srv"
  defines "view \<equiv> view_for clock (ss_client_id rqst) srv"
  assumes files: "request_readable cfs rqst" "known_files_match rqst view" "\<forall>p. openable p"
    and cut: "n < length (wanted_names rqst view)" "r < length (upload_of suuid cfs (wanted_names rqst view ! n))"
  shows "\<exists>srv'. serve_build openable sha valid_uuid compiler_bin clock now suuid meanwhile run effect secs i
        (CSessionStart rqst # upload_msgs suuid cfs (take n (wanted_names rqst view))
          @ map CFileChunkUpload (take r (upload_of suuid cfs (wanted_names rqst view ! n)))) srv
      = Inr (SSessionConfirmed suuid (wanted_names rqst view) # confirmations suuid (take n (wanted_names rqst view)), srv')"
proof -
  let ?ps = "wanted_names rqst view"
  note inv = server_inv_reachable [OF reach]
  note ok = view_for_ok [OF inv rq(2) fresh, of clock, folded view_def]
  obtain srv1 view1 s1 where c: "handle_new_connection valid_uuid compiler_bin clock now suuid (Inr (CSessionStart rqst)) srv = Inr srv1"
    "client_views srv1 (ss_client_id rqst) = Some view1" "server_inv srv1"
    "session_set_up now suuid rqst view (srv_backend srv) view1 (srv_backend srv1) s1"
    "queued suuid view1 (manager (srv_backend srv1))" "request_of s1 = request_made compiler_bin suuid rqst view"
    unfolding view_def
    by (rule connection_ready [where valid_uuid = valid_uuid and compiler_bin = compiler_bin and now = now and clock = clock,
          OF inv rq fresh])
  have s1: "get_session view1 suuid = Some s1" "out_msgs s1 = [SSessionConfirmed suuid ?ps]"
    "all_there view1 s1 \<longrightarrow> is_compiler_running s1" using c(4) by (simp_all add: session_set_up_def)
  have ready: "ready_to_upload openable cfs view1 s1 (take n ?ps @ ?ps ! n # drop (Suc n) ?ps)"
    unfolding id_take_nth_drop [OF cut(1), symmetric] by (rule set_up_ready_to_upload(1) [OF c(4) rq(1) ok(1,2) files])
  obtain view2 be2 s2 where u: "handle_server_session openable sha clock suuid (upload_msgs suuid cfs (take n ?ps)) view1 (srv_backend srv1)
        = Inr (True, view2, be2)"
      "upload_outcome suuid cfs (take n ?ps) view1 (srv_backend srv1) s1 view2 be2 s2"
      "out_msgs s2 = out_msgs s1 @ confirmations suuid (take n ?ps)" "ready_to_upload openable cfs view2 s2 (?ps ! n # drop (Suc n) ?ps)"
    using server_receives_files_ready [where sha = sha and now = clock and be = "srv_backend srv1", OF ready s1(1,3)] by blast
  have s2: "get_session view2 suuid = Some s2" using u(2) by (simp add: upload_outcome_def)
  have "uploadable openable cfs view2 s2 (?ps ! n)" using u(4) by (simp add: ready_to_upload_def)
  then obtain view3 be3 where p: "handle_server_session openable sha clock suuid
        (map CFileChunkUpload (take r (upload_of suuid cfs (?ps ! n)))) view2 be2 = Inr (True, view3, be3)"
      "says_same suuid view2 be2 view3 be3"
    using part_of_file [where sha = sha and now = clock, OF _ s2 cut(2)] by blast
  have h: "handle_server_session openable sha clock suuid (upload_msgs suuid cfs (take n ?ps)
      @ map CFileChunkUpload (take r (upload_of suuid cfs (?ps ! n)))) view1 (srv_backend srv1) = Inr (True, view3, be3)"
    by (simp only: handle_server_session_append [OF u(1)] p(1))
  obtain s3 where s3: "get_session view3 suuid = Some s3" "out_msgs s3 = out_msgs s2" using p(2) s2 by (auto simp: says_same_def)
  have "advances view1 (srv_backend srv1) view2 be2"
    by (rule session_chunks_advance [OF u(1) [unfolded upload_msgs_def] server_invD(1) [OF c(3,2)] s1(1)])
  then have "once view2 (manager be2)" using server_invD(1,2) [OF c(3,2)] by (simp add: advances_def)
  then have "find (\<lambda>r. requester_session r = suuid) (compile_task_queue (manager be3)) = None"
    using not_requested_yet [OF c(4) rq(1) files(2) cut(1) u(2)] p(2) by (simp add: says_same_def)
  then show ?thesis using c(1,2) h s3 u(3) s1(2) by (simp add: serve_build_def)
qed

section \<open>What the client says\<close>

lemma client_sends_some:
  assumes "cs_required_files s = before @ qs @ rs" "req_files_send_idx s = length before" "\<not> cs_terminated s"
    and "\<forall>p \<in> set (qs @ rs). \<exists>content. cfs p = Some content \<and> sendable content"
  shows "cs_out_msgs (fst (client_session_loop run (confirmations (cs_session_uuid s) qs) (send_required_file cfs s) reg cfs))
    = cs_out_msgs s @ upload_msgs (cs_session_uuid s) cfs (qs @ take 1 rs)"
  using assms
proof (induction qs arbitrary: s before)
  case Nil
  show ?case
  proof (cases rs)
    case Nil
    then show ?thesis using Nil.prems by (simp add: confirmations_def send_required_file_none)
  next
    case (Cons p rs')
    then obtain content where c: "cfs p = Some content" "sendable content" using Nil.prems(4) by auto
    then show ?thesis
      using send_required_file_pieces [of s p cfs content] Nil.prems Cons by (simp add: confirmations_def upload_of_def nth_append)
  qed
next
  case (Cons p qs)
  obtain content where c: "cfs p = Some content" "sendable content" using Cons.prems(4) by auto
  let ?s = "send_required_file cfs s"
  have s: "?s = s\<lparr>cs_out_msgs := cs_out_msgs s @ map CFileChunkUpload (upload_of (cs_session_uuid s) cfs p),
      req_files_send_idx := req_files_send_idx s + 1\<rparr>"
    using send_required_file_pieces [of s p cfs content] Cons.prems(1,2) c by (simp add: upload_of_def nth_append)
  have "client_session_loop run (confirmations (cs_session_uuid s) (p # qs)) ?s reg cfs =
      client_session_loop run (confirmations (cs_session_uuid ?s) qs) (send_required_file cfs ?s) reg cfs"
    using Cons.prems(3) s by (simp add: confirmations_def handle_server_message_def)
  then show ?case using Cons.IH [of ?s "before @ [p]"] Cons.prems s by simp
qed

text \<open>The messages with the object file are not answered.\<close>

lemma client_part_of_result:
  assumes "awaiting_obj got s fs" "session_uuid ss = cs_session_uuid s"
  shows "cs_out_msgs (fst (client_session_loop run (map SObjFileChunk (take r (obj_chunks ss sz content))) s reg fs)) = cs_out_msgs s"
  using assms
proof (induction r arbitrary: content got s fs)
  case (Suc r)
  have running: "\<not> cs_terminated s" using Suc.prems(1) by (simp add: awaiting_obj_def)
  show ?case
  proof (cases "content = []")
    case False
    then obtain msg where msg: "obj_chunks ss sz content = msg # obj_chunks ss sz (drop CHUNK_SIZE content)"
        "oc_session_id msg = cs_session_uuid s" "oc_is_last_chunk msg = (length content < CHUNK_SIZE)"
      using Suc.prems(2) by (simp add: obj_chunks_step Let_def build_msg_def)
    show ?thesis
    proof (cases "length content < CHUNK_SIZE")
      case True
      then obtain s' fs' where "handle_server_message run (SObjFileChunk msg) s reg fs = (True, s', reg, fs')" "cs_out_msgs s' = cs_out_msgs s"
        using obj_chunk_last [OF Suc.prems(1) msg(2), of run reg] msg(3) by metis
      then show ?thesis using True running msg(1) by simp
    next
      case False
      then obtain s' fs' got' where "handle_server_message run (SObjFileChunk msg) s reg fs = (True, s', reg, fs')"
          "awaiting_obj got' s' fs'" "cs_session_uuid s' = cs_session_uuid s" "cs_out_msgs s' = cs_out_msgs s"
        using obj_chunk_appended [OF Suc.prems(1) msg(2), of run reg] msg(3) by metis
      then show ?thesis using Suc.IH [of got' s' fs'] Suc.prems(2) running msg(1) by simp
    qed
  qed simp
qed simp

lemma client_started:
  assumes "openable (obj_target wc call)"
  obtains s where "start_client_session openable wc True (Inr (SSessionConfirmed uuid ps)) (CSessionStart rqst)
      (new_client_session nil_uuid call) fs = Inr (True, s, fs(obj_target wc call \<mapsto> []))"
    "cs_required_files s = ps" "req_files_send_idx s = 0" "\<not> cs_terminated s" "cs_session_uuid s = uuid"
    "cs_out_msgs s = [CSessionStart rqst]"
proof -
  obtain ts where ts: "new_obj_file_transfer_state openable uuid (obj_target wc call) fs = (ts, fs(obj_target wc call \<mapsto> []))"
    using assms by (simp add: new_obj_file_transfer_state_def open_out_def)
  define s where "s = (cli_send_msg (CSessionStart rqst) (new_client_session nil_uuid call))
     \<lparr>cs_session_uuid := uuid, cs_transfer := Some ts, cs_required_files := ps\<rparr>"
  show ?thesis
    by (rule that [of s]) (use ts in \<open>simp_all add: s_def start_client_session_def cli_send_msg_def new_client_session_def obj_target_def\<close>)
qed

section \<open>The conversation of a build\<close>

text \<open>All that each side has said once it has received these messages.\<close>

definition client_says ::
    "(string \<Rightarrow> bool) \<Rightarrow> (string \<Rightarrow> string) \<Rightarrow> process_runner \<Rightarrow> session_start_request \<Rightarrow> compiler_call \<Rightarrow> client_reg
      \<Rightarrow> file_store \<Rightarrow> server_message list \<Rightarrow> client_message list" where
  "client_says openable wc run rqst call reg fs received =
     (if received = [] then [CSessionStart rqst]
      else case client_transcript openable wc run rqst call reg fs received of Inl _ \<Rightarrow> [] | Inr (said, _) \<Rightarrow> said)"

definition server_says ::
    "(string \<Rightarrow> bool) \<Rightarrow> (string \<Rightarrow> string) \<Rightarrow> (string \<Rightarrow> bool) \<Rightarrow> string \<Rightarrow> nat \<Rightarrow> u64 \<Rightarrow> string
      \<Rightarrow> (compiler_manager \<Rightarrow> compiler_manager) \<Rightarrow> (string \<Rightarrow> string list \<Rightarrow> string \<Rightarrow> i32 \<times> string \<times> string)
      \<Rightarrow> (string \<Rightarrow> string list \<Rightarrow> string \<Rightarrow> file_store \<Rightarrow> file_store) \<Rightarrow> i32 \<Rightarrow> nat \<Rightarrow> server \<Rightarrow> client_message list
      \<Rightarrow> server_message list" where
  "server_says openable sha valid_uuid compiler_bin clock now suuid meanwhile run effect secs i srv received =
     (case serve_build openable sha valid_uuid compiler_bin clock now suuid meanwhile run effect secs i received srv of
        Inl _ \<Rightarrow> [] | Inr (said, _) \<Rightarrow> said)"

lemma client_says_during_uploads:
  assumes "openable (obj_target wc call)" "j < length ps"
    and "\<forall>p \<in> set ps. \<exists>c. (fs(obj_target wc call \<mapsto> [])) p = Some c \<and> sendable c"
  shows "client_says openable wc run rqst call reg fs (SSessionConfirmed uuid ps # confirmations uuid (take j ps))
    = CSessionStart rqst # upload_msgs uuid (fs(obj_target wc call \<mapsto> [])) (take (Suc j) ps)"
proof -
  let ?fs = "fs(obj_target wc call \<mapsto> [])"
  obtain s where s: "start_client_session openable wc True (Inr (SSessionConfirmed uuid ps)) (CSessionStart rqst)
      (new_client_session nil_uuid call) fs = Inr (True, s, ?fs)"
    "cs_required_files s = ps" "req_files_send_idx s = 0" "\<not> cs_terminated s" "cs_session_uuid s = uuid"
    "cs_out_msgs s = [CSessionStart rqst]" by (rule client_started [where openable = openable and wc = wc and call = call, OF assms(1)])
  have "take j ps @ take 1 (drop j ps) = take (Suc j) ps" by (metis plus_1_eq_Suc take_add add.commute)
  then have "cs_out_msgs (fst (client_session_loop run (confirmations uuid (take j ps)) (send_required_file ?fs s) reg ?fs))
      = CSessionStart rqst # upload_msgs uuid ?fs (take (Suc j) ps)"
    using client_sends_some [of s "[]" "take j ps" "drop j ps" ?fs run reg] s assms(3) by (simp del: upload_msgs_append)
  then show ?thesis using s(1) by (simp add: client_says_def client_transcript_def handle_client_session_def case_prod_beta)
qed

lemma client_says_after_uploads:
  assumes "openable (obj_target wc call)"
    and "\<forall>p \<in> set ps. \<exists>c. (fs(obj_target wc call \<mapsto> [])) p = Some c \<and> sendable c"
  shows "client_says openable wc run rqst call reg fs
      (SSessionConfirmed uuid ps # confirmations uuid ps @ take r (object_answer uuid secs out err content))
    = CSessionStart rqst # upload_msgs uuid (fs(obj_target wc call \<mapsto> [])) ps"
proof -
  let ?fs = "fs(obj_target wc call \<mapsto> [])"
  obtain s s1 where s: "start_client_session openable wc True (Inr (SSessionConfirmed uuid ps)) (CSessionStart rqst)
      (new_client_session nil_uuid call) fs = Inr (True, s, ?fs)" "cs_session_uuid s = uuid"
    "\<forall>rest reg. handle_client_session run (confirmations uuid ps @ rest) s reg ?fs = client_session_loop run rest s1 reg ?fs"
    "awaiting_obj [] s1 ?fs" "obj_path s1 = obj_target wc call" "cs_session_uuid s1 = uuid"
    "cs_out_msgs s1 = CSessionStart rqst # upload_msgs uuid ?fs ps" "unix_ipc_channel s1 = []"
    by (rule client_uploads_and_waits [where openable = openable and wc = wc and call = call and fs = fs and ps = ps and run = run
          and rqst = rqst and uuid = uuid, OF assms])
  have "session_uuid (finished_session uuid secs out err) = cs_session_uuid s1"
    using s(6) by (simp add: finished_session_def new_server_session_def)
  then have "cs_out_msgs (fst (client_session_loop run (take r (object_answer uuid secs out err content)) s1 reg ?fs)) = cs_out_msgs s1"
    unfolding object_answer_def take_map by (rule client_part_of_result [OF s(4)])
  then show ?thesis using s(1,3,7) by (simp add: client_says_def client_transcript_def case_prod_beta)
qed

section \<open>No deadlock\<close>

lemma take_confirmations: "take j (confirmations uuid ps) = confirmations uuid (take j ps)"
  by (simp add: confirmations_def take_map)

lemma length_confirmations [simp]: "length (confirmations uuid ps) = length ps"
  by (simp add: confirmations_def)

lemma upload_msgs_take_mono:
  assumes "i \<le> j"
  shows "length (upload_msgs uuid cfs (take i ps)) \<le> length (upload_msgs uuid cfs (take j ps))"
proof -
  have "take j ps = take i ps @ drop i (take j ps)" using assms by (metis append_take_drop_id min.absorb1 take_take)
  then have "upload_msgs uuid cfs (take j ps) = upload_msgs uuid cfs (take i ps) @ upload_msgs uuid cfs (drop i (take j ps))"
    by (metis upload_msgs_append)
  then show ?thesis by simp
qed

lemma upload_msgs_take_prefix: "prefix (upload_msgs uuid cfs (take j ps)) (upload_msgs uuid cfs ps)"
  by (metis append_take_drop_id prefixI upload_msgs_append)

text \<open>One side uploads file after file, the next whenever one is acknowledged; the other acknowledges and,
  after the last, answers with its result.\<close>

lemma upload_dialogue:
  fixes a :: "server_message list \<Rightarrow> client_message list" and b :: "client_message list \<Rightarrow> server_message list"
    and start :: client_message and conf :: server_message and uuid :: string and cfs :: file_store
    and ps :: "string list" and res :: "server_message list"
  defines "X \<equiv> \<lambda>ps. start # upload_msgs uuid cfs ps"
  assumes a0: "a [] = [start]"
    and a1: "\<And>j. j < length ps \<Longrightarrow> a (conf # confirmations uuid (take j ps)) = X (take (Suc j) ps)"
    and a2: "\<And>r. a (conf # confirmations uuid ps @ take r res) = X ps"
    and b0: "b [] = []"
    and b1: "\<And>n r. n < length ps \<Longrightarrow> r < length (upload_of uuid cfs (ps ! n)) \<Longrightarrow>
      b (X (take n ps) @ map CFileChunkUpload (take r (upload_of uuid cfs (ps ! n)))) = conf # confirmations uuid (take n ps)"
    and b2: "b (X ps) = conf # confirmations uuid ps @ res"
  defines "Y \<equiv> conf # confirmations uuid ps @ res"
  assumes run: "conversation a b xs ys"
  shows "prefix xs (X ps) \<and> prefix ys Y \<and>
    (xs = X ps \<and> ys = Y \<or> (\<exists>x. conversation a b (xs @ [x]) ys) \<or> (\<exists>y. conversation a b xs (ys @ [y])))"
proof -
  have a: "a (take j Y) = (if j = 0 then [start] else X (take j ps))" if "j \<le> length Y" for j
  proof (cases j)
    case 0
    then show ?thesis by (simp add: a0)
  next
    case (Suc i)
    then show ?thesis using a1 [of i] a2 [of "i - length ps"]
      by (cases "i < length ps") (simp_all add: Y_def take_confirmations)
  qed
  have b: "\<exists>n. b (take k (X ps)) = conf # confirmations uuid (take n ps) \<and> k \<le> length (upload_msgs uuid cfs (take (Suc n) ps))"
    if "0 < k" "k < length (X ps)" for k
  proof -
    have "k - 1 < length (upload_msgs uuid cfs ps)" using that by (simp add: X_def)
    then obtain n r where n: "n < length ps" "r < length (upload_of uuid cfs (ps ! n))"
      "take (k - 1) (upload_msgs uuid cfs ps) = upload_msgs uuid cfs (take n ps) @ map CFileChunkUpload (take r (upload_of uuid cfs (ps ! n)))"
      by (rule uploads_cut)
    have len: "k - 1 = length (upload_msgs uuid cfs (take n ps)) + r"
    proof -
      have "length (take (k - 1) (upload_msgs uuid cfs ps)) = k - 1"
        using \<open>k - 1 < length (upload_msgs uuid cfs ps)\<close> by simp
      then show ?thesis using n(2) unfolding n(3) by simp
    qed
    have "take k (X ps) = X (take n ps) @ map CFileChunkUpload (take r (upload_of uuid cfs (ps ! n)))"
      using that(1) n(3) by (cases k) (simp_all add: X_def)
    moreover have "k - 1 < length (upload_msgs uuid cfs (take (Suc n) ps))"
      unfolding take_Suc_conv_app_nth [OF n(1)] using n(2) len by simp
    ultimately show ?thesis using b1 [OF n(1,2)] that(1) by auto
  qed
  have track_a: "prefix (a (take j Y)) (X ps)" if "j \<le> length Y" for j
    using a [OF that] upload_msgs_take_prefix by (auto simp: X_def)
  have track_b: "prefix (b (take k (X ps))) Y" if le: "k \<le> length (X ps)" for k
  proof -
    consider "k = 0" | "0 < k" "k < length (X ps)" | "k = length (X ps)" using le by fastforce
    then show ?thesis
    proof cases
      case 2
      then show ?thesis using b [OF 2] by (auto simp: Y_def confirmations_def map_mono_prefix take_is_prefix)
    qed (simp_all add: b0 b2 Y_def)
  qed
  have more: "k < length (a (take j Y)) \<or> j < length (b (take k (X ps)))"
    if le: "j \<le> length Y" "k \<le> length (X ps)" and lt: "j < length Y \<or> k < length (X ps)" for j k
  proof (cases "k = 0 \<or> k = length (X ps)")
    case True
    then show ?thesis using a [OF le(1)] lt b2 by (auto simp: X_def Y_def)
  next
    case False
    then obtain n where n: "b (take k (X ps)) = conf # confirmations uuid (take n ps)" "k \<le> length (upload_msgs uuid cfs (take (Suc n) ps))"
      using b [of k] le(2) by auto
    show ?thesis
    proof (cases "j \<le> n \<and> j \<le> length ps")
      case True
      then show ?thesis using n(1) by auto
    next
      case j: False
      have "length (upload_msgs uuid cfs (take (Suc n) ps)) \<le> length (upload_msgs uuid cfs (take j ps))"
        using j upload_msgs_take_mono [of "Suc n" j] upload_msgs_take_mono [of "length ps" j] upload_msgs_take_mono [of "Suc n" "length ps"]
        by (cases "j \<le> n") (auto simp: not_le Suc_le_eq)
      then show ?thesis using n(2) a [OF le(1)] j by (cases j) (auto simp: X_def)
    qed
  qed
  show ?thesis
    using conversation_on_track [where X = "X ps" and Y = Y, OF run track_a track_b]
      conversation_goes_on [where X = "X ps" and Y = Y, OF run track_a track_b more] by blast
qed

lemma serve_build_answers:
  fixes clock :: nat
  assumes server: "server_reachable openable sha valid_uuid compiler_bin srv" "fresh_session suuid srv" "\<forall>p. openable p"
    and rq: "well_formed_request rqst" "uuid_string (ss_client_id rqst)" "valid_uuid (ss_client_id rqst)"
  defines "view \<equiv> view_for clock (ss_client_id rqst) srv"
  assumes files: "request_readable cfs rqst" "known_files_match rqst view" "copies_current rqst cfs view (files (srv_backend srv))"
    and comp: "compiles run effect (request_made compiler_bin suuid rqst view) (sources_in_place rqst cfs view)
      (generate_obj_file_path OBJ_STORE_PATH (client_uuid view) suuid) content out err"
  shows "\<exists>srv'. serve_build openable sha valid_uuid compiler_bin clock now suuid meanwhile run effect secs i
        (CSessionStart rqst # upload_msgs suuid cfs (wanted_names rqst view)) srv
      = Inr (SSessionConfirmed suuid (wanted_names rqst view) # confirmations suuid (wanted_names rqst view)
             @ object_answer suuid secs out err content, srv')"
proof -
  let ?t = "request_made compiler_bin suuid rqst view"
  have run: "run (cr_compiler_name ?t) (cr_cmd_line_args ?t) (cr_current_working_dir ?t) = (0, out, err)"
    using comp by (simp add: compiles_def)
  obtain srv' ss sfs where b: "serve_build openable sha valid_uuid compiler_bin clock now suuid meanwhile run effect secs i
        (CSessionStart rqst # upload_msgs suuid cfs (wanted_names rqst view)) srv
      = Inr (SSessionConfirmed suuid (wanted_names rqst view) # confirmations suuid (wanted_names rqst view)
             @ compilation_result_msgs (effect (cr_compiler_name ?t) (cr_cmd_line_args ?t) (cr_current_working_dir ?t) sfs) ss, srv')"
    and ss: "session_uuid ss = suuid" "ses_exit_code ss = 0" "ses_stdout ss = out" "ses_stderr ss = err" "compile_duration ss = secs"
      "out_obj_file ss = generate_obj_file_path OBJ_STORE_PATH (client_uuid view) suuid" "sources_in_place rqst cfs view sfs"
    by (rule serve_build_outcome [where run = run and effect = effect and clock = clock and rqst = rqst and srv = srv
          and compiler_bin = compiler_bin and suuid = suuid and openable = openable and valid_uuid = valid_uuid, folded view_def,
          OF server(1) rq server(2) files(1,2) server(3) files(3) run])
  have "effect (cr_compiler_name ?t) (cr_cmd_line_args ?t) (cr_current_working_dir ?t) sfs (out_obj_file ss) = Some content"
    using comp ss(6,7) by (simp add: compiles_def)
  then show ?thesis using b compilation_result_object [OF ss(1-5)] by auto
qed

section \<open>Properties\<close>


text \<open>The two sides of the example build; the client has sent its start request.\<close>

definition example_client_says :: "server_message list \<Rightarrow> client_message list" where
  "example_client_says =
     client_says (\<lambda>_. True) id failing_compiler build_start build_call (reg_of example_client) example_files"

definition example_server_says :: "client_message list \<Rightarrow> server_message list" where
  "example_server_says =
     server_says (\<lambda>_. True) id (\<lambda>_. True) ''g'' 0 0 ''u'' (worker_take 0) (\<lambda>c as d. (0, ''ok'', [])) marking_compiler 2 0
       (new_server 1 Map.empty)"


end
