(* ===== verification/Node_Config.thy ===== *)
theory Node_Config
  imports Server_Machine Client
begin

text \<open>
  The configuration of a node (\<open>src/src/yaml_cfg.hpp\<close>) and the program that starts a server or a
  client from it (\<open>src/src/asio_test_main.cpp\<close>). The YAML library is not part of the program: a
  document is three lookup functions, one per type the program converts to, with \<open>None\<close> where the
  library throws.
\<close>

section \<open>The configuration\<close>

record yaml_config =
  node_uuid :: string
  node_ip :: string
  node_main_port :: u32
  node_advertising_port :: u32
  cfg_compiler_bin :: string
  cfg_compiler_threads :: i32

record yaml_node =
  as_string :: "string \<Rightarrow> string \<Rightarrow> string option"
  as_uint32 :: "string \<Rightarrow> string \<Rightarrow> u32 option"
  as_int :: "string \<Rightarrow> string \<Rightarrow> i32 option"

text \<open>The one instance has static storage: its numbers start as 0.\<close>

definition yaml_config_instance :: yaml_config where
  "yaml_config_instance = \<lparr>node_uuid = [], node_ip = [], node_main_port = 0, node_advertising_port = 0,
     cfg_compiler_bin = [], cfg_compiler_threads = 0\<rparr>"

text \<open>One assignment of \<open>load_cfg\<close> and what follows it; an exception ends the function, and the
  fields assigned before keep their new values.\<close>

definition assign_from ::
    "'a option \<Rightarrow> ('a \<Rightarrow> yaml_config \<Rightarrow> yaml_config) \<Rightarrow> (yaml_config \<Rightarrow> bool \<times> yaml_config) \<Rightarrow> yaml_config \<Rightarrow> bool \<times> yaml_config" where
  "assign_from v upd rest cfg = (case v of None \<Rightarrow> (False, cfg) | Some x \<Rightarrow> rest (upd x cfg))"

definition load_cfg :: "(string \<Rightarrow> yaml_node option) \<Rightarrow> string \<Rightarrow> yaml_config \<Rightarrow> bool \<times> yaml_config" where
  "load_cfg load_file cfg_path cfg =
     (case load_file cfg_path of
        None \<Rightarrow> (False, cfg)
      | Some root \<Rightarrow>
          assign_from (as_string root ''node'' ''uuid'') (\<lambda>x c. c\<lparr>node_uuid := x\<rparr>) (
          assign_from (as_string root ''node'' ''ip'') (\<lambda>x c. c\<lparr>node_ip := x\<rparr>) (
          assign_from (as_uint32 root ''node'' ''main_port'') (\<lambda>x c. c\<lparr>node_main_port := x\<rparr>) (
          assign_from (as_uint32 root ''node'' ''advertising_port'') (\<lambda>x c. c\<lparr>node_advertising_port := x\<rparr>) (
          assign_from (as_string root ''compiler'' ''binary'') (\<lambda>x c. c\<lparr>cfg_compiler_bin := x\<rparr>) (
          assign_from (as_int root ''compiler'' ''threads'') (\<lambda>x c. c\<lparr>cfg_compiler_threads := x\<rparr>) (
          \<lambda>c. (True, c))))))) cfg)"

section \<open>Starting a node\<close>

datatype node =
    NoNode
  | ServerNode server resource_broadcaster string u16
  | ClientNode client u16

text \<open>The constructors take the ports as 16-bit numbers and the number of threads as a \<open>size_t\<close>. A
  server node also has the compiler its sessions will read from the configuration, and both kinds the
  port of the advertisements. \<open>listens ip port\<close> says whether \<open>start_server\<close> can parse the address
  and bind it; starting the threads succeeds.\<close>

definition start_server_node ::
    "(string \<Rightarrow> bool) \<Rightarrow> (string \<Rightarrow> u16 \<Rightarrow> bool) \<Rightarrow> file_store \<Rightarrow> yaml_config \<Rightarrow> node result" where
  "start_server_node valid_uuid listens fs cfg =
     (if \<not> valid_uuid (node_uuid cfg) then Inl (Throw (Runtime_Error ''invalid uuid string''))
      else if \<not> listens (node_ip cfg) (ucast (node_main_port cfg)) then Inl (Throw Socket_Error)
      else Inr (ServerNode (new_server (scast (cfg_compiler_threads cfg)) fs)
             (new_resource_broadcaster (node_uuid cfg) (ucast (node_main_port cfg)) (node_ip cfg))
             (cfg_compiler_bin cfg) (ucast (node_advertising_port cfg))))"

definition start_client_node :: "(string \<Rightarrow> bool) \<Rightarrow> cmd_line_include_dirs \<Rightarrow> yaml_config \<Rightarrow> node result" where
  "start_client_node valid_uuid sys cfg =
     (if \<not> valid_uuid (node_uuid cfg) then Inl (Throw (Runtime_Error ''invalid uuid string''))
      else Inr (ClientNode (new_client (node_uuid cfg) sys) (ucast (node_advertising_port cfg))))"

text \<open>\<open>main\<close>: what \<open>load_cfg\<close> returns is not looked at.\<close>

definition node_main ::
    "(string \<Rightarrow> yaml_node option) \<Rightarrow> (string \<Rightarrow> bool) \<Rightarrow> (string \<Rightarrow> u16 \<Rightarrow> bool) \<Rightarrow> cmd_line_include_dirs \<Rightarrow> file_store
      \<Rightarrow> string list \<Rightarrow> node result" where
  "node_main load_file valid_uuid listens sys fs argv =
     (if length argv = 3 \<and> argv ! 1 = ''server''
      then start_server_node valid_uuid listens fs (snd (load_cfg load_file (argv ! 2) yaml_config_instance))
      else if length argv = 3 \<and> argv ! 1 = ''client''
      then start_client_node valid_uuid sys (snd (load_cfg load_file (argv ! 2) yaml_config_instance))
      else Inr NoNode)"

section \<open>Reading the configuration\<close>

text \<open>The values a complete document gives.\<close>

definition doc_gives :: "yaml_node \<Rightarrow> yaml_config \<Rightarrow> bool" where
  "doc_gives root cfg \<longleftrightarrow>
     as_string root ''node'' ''uuid'' = Some (node_uuid cfg) \<and> as_string root ''node'' ''ip'' = Some (node_ip cfg)
     \<and> as_uint32 root ''node'' ''main_port'' = Some (node_main_port cfg)
     \<and> as_uint32 root ''node'' ''advertising_port'' = Some (node_advertising_port cfg)
     \<and> as_string root ''compiler'' ''binary'' = Some (cfg_compiler_bin cfg)
     \<and> as_int root ''compiler'' ''threads'' = Some (cfg_compiler_threads cfg)"

lemma assign_from_simps [simp]:
  "assign_from None upd rest cfg = (False, cfg)" "assign_from (Some x) upd rest cfg = rest (upd x cfg)"
  by (simp_all add: assign_from_def)

text \<open>\<open>load_cfg\<close> returns true exactly when the document has all six values, and then the
  configuration has them, whatever it was before.\<close>

lemma load_cfg_complete:
  "load_cfg load_file path cfg = (True, cfg') \<longleftrightarrow> (\<exists>root. load_file path = Some root \<and> doc_gives root cfg')"
  by (cases cfg; cases cfg') (auto simp: load_cfg_def doc_gives_def assign_from_def split: option.splits)

lemma load_cfg_gives: "load_file path = Some root \<Longrightarrow> doc_gives root cfg' \<Longrightarrow> load_cfg load_file path cfg = (True, cfg')"
  using load_cfg_complete by blast

text \<open>A document that lacks only the number of threads: the program starts a server that has no
  worker, accepts sessions, and never compiles.\<close>

lemma missing_threads_no_workers:
  assumes "load_file path = Some root" "as_int root ''compiler'' ''threads'' = None"
    and "node_main load_file valid_uuid listens sys fs [prog, ''server'', path] = Inr (ServerNode srv rb bin adv)"
  shows "worker_threads (manager (srv_backend srv)) = []"
proof -
  have "cfg_compiler_threads (snd (load_cfg load_file path yaml_config_instance)) = 0"
    using assms(1,2) by (auto simp: load_cfg_def assign_from_def yaml_config_instance_def split: option.splits)
  with assms(3) show ?thesis
    by (auto simp: node_main_def start_server_node_def new_server_def new_compiler_manager_def split: if_splits)
qed

section \<open>Properties\<close>

lemma ucast_port_roundtrip: "unat (p :: u32) < 2 ^ 16 \<Longrightarrow> (ucast (ucast p :: u16) :: u32) = p"
  by (simp add: word_unat_eq_iff unsigned_ucast_eq unsigned_take_bit_eq take_bit_nat_eq_self)

lemma scast_threads: "0 \<le> sint (t :: i32) \<Longrightarrow> unat (scast t :: u64) = nat (sint t)"
proof -
  assume "0 \<le> sint t"
  moreover have "sint t < 2 ^ 31" using sint_lt [of t] by simp
  ultimately have "uint (scast t :: u64) = sint t" 
    using uint_word_of_int_eq [of "sint t", where 'a = 64] by (simp add: take_bit_int_eq_self)
  then show ?thesis by (simp add: unat_eq_nat_uint)
qed


definition ex_root :: yaml_node where
  "ex_root = \<lparr>as_string = (\<lambda>s k. if s = ''node'' then (if k = ''uuid'' then Some ''n1'' else Some ''10.0.0.1'') else Some ''g++''),
     as_uint32 = (\<lambda>s k. if k = ''main_port'' then Some 8082 else Some 5000), as_int = (\<lambda>s k. Some 4)\<rparr>"

definition ex_cfg :: yaml_config where
  "ex_cfg = \<lparr>node_uuid = ''n1'', node_ip = ''10.0.0.1'', node_main_port = 8082, node_advertising_port = 5000,
     cfg_compiler_bin = ''g++'', cfg_compiler_threads = 4\<rparr>"


end
