(* ===== verification/Server_Faults.thy ===== *)
theory Server_Faults
  imports Server_Views
begin

text \<open>
  What the server does with uploads that go wrong: chunks out of sequence or of another session,
  files of the wrong size or content, files that changed, sessions that end in the middle of an
  upload.
\<close>

section \<open>Chunks out of sequence\<close>

definition out_of_sequence :: "nat \<Rightarrow> nat \<Rightarrow> file_chunk_upload \<Rightarrow> bool" where
  "out_of_sequence n off c \<longleftrightarrow> fc_sequence_no c \<noteq> of_nat (Suc n) \<or> fc_offset c < of_nat off"

definition closed_transfer :: "file_transfer_state \<Rightarrow> file_transfer_state" where
  "closed_transfer ts = ts\<lparr>is_finished := True, file_out_stream := stream_close (file_out_stream ts)\<rparr>"

lemma bad_chunk_effect:
  assumes "receiving uuid path cur n off got view be" "get_session view uuid = Some s"
    and "fc_session_id c = uuid" "fc_filename c = path" "out_of_sequence n off c"
  obtains ts where "is_finished ts"
    "process_file_chunk openable sha uuid c s view be =
       (Inr False, set_file_status path FILE_STATUS_FAULT (set_transfer uuid (server_file_path cur) ts view), be)"
proof -
  from assms(1,2) obtain ts where ts: "client_file_states view path = Some cur"
    "file_transfer_states s (server_file_path cur) = Some ts" "\<not> is_finished ts"
    "ft_session_id ts = uuid" "last_seq_no ts = of_nat n" "last_offset ts = of_nat off"
    by (rule receivingE)
  have "fc_sequence_no c \<noteq> last_seq_no ts + 1 \<or> fc_offset c < last_offset ts"
    using assms(5) ts by (auto simp: out_of_sequence_def add.commute)
  then show ?thesis
    using that [of "closed_transfer ts"] ts assms(3,4)
    by (simp add: process_file_chunk_def get_file_state_def closed_transfer_def Let_def)
qed

lemma finished_chunk_ignored:
  assumes "client_file_states view (fc_filename c) = Some cur" "get_session view uuid = Some s"
    and "file_transfer_states s (server_file_path cur) = Some ts" "is_finished ts" "fc_session_id c = uuid"
  shows "\<exists>view'. handle_client_message openable sha now uuid (CFileChunkUpload c) view be = Inr (True, view', be)
    \<and> client_file_states view' = client_file_states view"
  using assms by (simp add: handle_client_message_def process_file_chunk_def get_file_state_def Let_def)


section \<open>Wrong files\<close>

text \<open>C22. An upload whose last chunk arrives in sequence but that did not bring as many bytes as the
  session announced is rejected: the file is marked as faulty, the client gets one abort message, the
  queue of compilations is as before, and no other file changes.\<close>

theorem wrong_size_rejected:
  assumes "receiving uuid path cur n off got view be" "get_session view uuid = Some s"
    and "off \<le> off'" "off' < 2 ^ 64" "u64_size (got @ d) \<noteq> file_sz_bytes cur"
  shows "\<exists>view' be' s'. handle_client_message openable sha now uuid (CFileChunkUpload (mk_chunk uuid path (Suc n) off' d True)) view be
      = Inr (True, view', be')
    \<and> client_file_states view' = (client_file_states view)(path \<mapsto> cur\<lparr>file_status := FILE_STATUS_FAULT\<rparr>)
    \<and> get_session view' uuid = Some s' \<and> out_msgs s' = out_msgs s @ [SSessionAbort uuid []]
    \<and> manager be' = manager be \<and> (\<forall>q. q \<noteq> server_file_path cur \<longrightarrow> files be' q = files be q)"
proof -
  let ?v = "update_last_active_ts now view" and ?sp = "server_file_path cur"
  have r: "receiving uuid path cur n off got ?v be" "get_session ?v uuid = Some s"
    using assms(1,2) by (simp_all add: receiving_def)
  then obtain ts where "process_file_chunk openable sha uuid (mk_chunk uuid path (Suc n) off' d True) s ?v be =
      finish_upload sha uuid path cur (set_transfer uuid ?sp ts ?v) (be\<lparr>files := (files be)(?sp \<mapsto> got @ d)\<rparr>)"
    by (rule process_chunk_in_sequence [where l = True and d = d and sha = sha and openable = openable, OF _ _ assms(3,4)]) simp
  then have "process_file_chunk openable sha uuid (mk_chunk uuid path (Suc n) off' d True) s ?v be =
      (Inr False, set_file_status path FILE_STATUS_FAULT (set_transfer uuid ?sp ts ?v), be\<lparr>files := (files be)(?sp \<mapsto> got @ d)\<rparr>)"
    using assms(5) by (simp add: finish_upload_def file_size_def)
  then show ?thesis
    using assms(1,2) by (simp add: handle_client_message_def client_file_states_set_status fun_eq_iff receiving_def)
qed

text \<open>A file of the right size but with another hash is marked as faulty and then, in the next
  statement, as available: the hash has no effect.\<close>

lemma wrong_hash_accepted:
  assumes "files be (server_file_path cur) = Some content" "u64_size content = file_sz_bytes cur"
    and "client_file_states view path = Some cur" "sha content \<noteq> file_sha1 cur"
  shows "\<exists>view' be'. finish_upload sha uuid path cur view be = (Inr True, view', be') \<and> file_available view' path"
proof -
  let ?v = "set_file_status path FILE_STATUS_AVAILABLE (set_file_status path FILE_STATUS_FAULT view)"
  obtain v b where t: "try_compile_for_active_sessions ?v be = (v, b)" by fastforce
  have "file_available ?v path" using assms(3) by (simp add: file_available_def client_file_states_set_status)
  then have "file_available v path" using try_compile_frame(1) [OF t] by (simp add: file_available_def)
  then show ?thesis
    using t assms by (simp add: finish_upload_def file_size_def Let_def) (simp add: file_available_def)
qed

text \<open>A file that changed on the client since it was first required keeps its old entry.\<close>

lemma changed_file_keeps_entry:
  "client_file_states view p = Some st \<Longrightarrow> add_file_state p sz sha view = view"
  by (simp add: add_file_state_def)

section \<open>Sessions that end in the middle\<close>

text \<open>A file whose upload is in progress when its session ends stays marked as being uploaded, and no
  later session is asked for it.\<close>

lemma dead_uploader_blocks:
  assumes "client_file_states view p = Some st" "file_status st = FILE_STATUS_UPLOADING"
    and "terminate_server_session uuid view be = (view', be')"
  shows "client_file_states view' p = Some st \<and> p \<notin> set (wanted_names rqst view')"
proof -
  have "client_file_states view' p = Some st"
    using assms(1,3) by (auto simp: terminate_server_session_def remove_session_def)
  then show ?thesis using assms(2) by (simp add: wanted_names_def registered_def wanted_def)
qed

text \<open>Ending a session removes this session and no other, invalidates its waiting requests and no
  others, and leaves the file table, the stored files and the worker threads alone.\<close>

theorem terminate_removes_only_its_session:
  shows "get_session (fst (terminate_server_session uuid view be)) u = (if u = uuid then None else get_session view u)
    \<and> client_file_states (fst (terminate_server_session uuid view be)) = client_file_states view
    \<and> files (snd (terminate_server_session uuid view be)) = files be
    \<and> worker_threads (manager (snd (terminate_server_session uuid view be))) = worker_threads (manager be)
    \<and> compile_task_queue (manager (snd (terminate_server_session uuid view be))) =
        map (\<lambda>r. r\<lparr>invalidated := (invalidated r \<or> requester_session r = uuid)\<rparr>) (compile_task_queue (manager be))"
  by (auto simp: terminate_server_session_def invalidate_requests_for_session_def remove_session_def upd_session_def
      get_session_def map_of_filter_key map_of_map_key)

section \<open>An upload that has just begun\<close>

definition begun_file :: file_state_view where
  "begun_file = new_file_state_view 9 [] ''/w/a.c''"

definition begun_session :: server_session where
  "begun_session = with_transfer ''/w/a.c'' (fresh_transfer ''u'' ''/w/a.c'')
     (new_server_session ''g'' (new_client_view ''c'' ''/w'' 0) ''u'' example_request)"

definition begun_view :: client_view where
  "begun_view = (new_client_view ''c'' ''/w'' 0)
     \<lparr>client_file_states := [''/a.c'' \<mapsto> begun_file], associated_sessions := [(''u'', begun_session)]\<rparr>"

definition begun_backend :: backend where
  "begun_backend = \<lparr>manager = new_compiler_manager 1, files = [''/w/a.c'' \<mapsto> []], made_dirs = []\<rparr>"

lemma begun_session_there: "get_session begun_view ''u'' = Some begun_session"
  by (simp add: get_session_def begun_view_def)

lemma begun_receiving: "receiving ''u'' ''/a.c'' begun_file 0 0 [] begun_view begun_backend"
  by (simp add: receiving_def begun_session_there)
    (simp add: begun_view_def begun_session_def begun_file_def begun_backend_def new_file_state_view_def fresh_transfer_def)

definition third_chunk :: file_chunk_upload where
  "third_chunk = mk_chunk ''u'' ''/a.c'' 3 0 ''x'' False"


theorem wrong_size_rejected_witness:
  "\<exists>view' be' s'. handle_client_message (\<lambda>_. True) id 0 ''u''
        (CFileChunkUpload (mk_chunk ''u'' ''/a.c'' (Suc 0) 0 ''int x;'' True)) begun_view begun_backend = Inr (True, view', be')
    \<and> client_file_states view' = (client_file_states begun_view)(''/a.c'' \<mapsto> begun_file\<lparr>file_status := FILE_STATUS_FAULT\<rparr>)
    \<and> get_session view' ''u'' = Some s' \<and> out_msgs s' = out_msgs begun_session @ [SSessionAbort ''u'' []]
    \<and> manager be' = manager begun_backend
    \<and> (\<forall>q. q \<noteq> server_file_path begun_file \<longrightarrow> files be' q = files begun_backend q)"
  by (rule wrong_size_rejected [OF begun_receiving begun_session_there])
    (simp_all add: u64_size_def begun_file_def new_file_state_view_def)

end
