(* ===== verification/Job_Pool.thy ===== *)
theory Job_Pool
  imports Compiler_Manager Resource_Adv "HOL-Library.Multiset"
begin

text \<open>
  What the compiler manager promises, as a specification: a pool with a first-in first-out line of
  jobs and at most a given number of running ones. The steps of the manager and its workers
  implement the steps of the pool. Also here: what a server advertises of the pool.
\<close>

section \<open>The specification\<close>

record job_pool =
  jp_waiting :: "compilation_request list"
  jp_running :: "compilation_request multiset"

inductive jp_step :: "nat \<Rightarrow> job_pool \<Rightarrow> job_pool \<Rightarrow> bool" for sz where
  jp_submit: "jp_step sz p (p\<lparr>jp_waiting := jp_waiting p @ [r]\<rparr>)"
| jp_cancel: "jp_step sz p (p\<lparr>jp_waiting := filter (\<lambda>r. requester_session r \<noteq> sess) (jp_waiting p)\<rparr>)"
| jp_start: "jp_waiting p = r # rest \<Longrightarrow> size (jp_running p) < sz \<Longrightarrow>
     jp_step sz p (p\<lparr>jp_waiting := rest, jp_running := jp_running p + {#r#}\<rparr>)"
| jp_finish: "r \<in># jp_running p \<Longrightarrow> jp_step sz p (p\<lparr>jp_running := jp_running p - {#r#}\<rparr>)"
| jp_idle: "jp_step sz p p"

section \<open>The abstraction\<close>

definition working :: "worker \<Rightarrow> compilation_request multiset" where
  "working wk = (case wk of WTaken r \<Rightarrow> {#r#} | WCompiling r \<Rightarrow> {#r#} | _ \<Rightarrow> {#})"

definition abs_pool :: "compiler_manager \<Rightarrow> job_pool" where
  "abs_pool m = \<lparr>jp_waiting = filter (\<lambda>r. \<not> invalidated r) (compile_task_queue m),
     jp_running = sum_list (map working (worker_threads m))\<rparr>"

lemma working_simps [simp]:
  "working WWaiting = {#}" "working WExited = {#}" "working (WTaken r) = {#r#}"
  "working (WCompiling r) = {#r#}" "working (WCompiled r out) = {#}"
  by (simp_all add: working_def)

lemma size_running: "size (sum_list (map working wks)) = busy_count wks"
  by (induction wks) (auto simp: busy_count_def working_def busy_def split: worker.split)

lemma running_update:
  assumes "i < length wks"
  shows "sum_list (map working (wks[i := wk])) = sum_list (map working wks) + working wk - working (wks ! i)"
  using sum_list_map_update [OF assms, of working wk] by (metis add_diff_cancel_right')

lemma running_member:
  assumes "i < length wks" "r \<in># working (wks ! i)"
  shows "r \<in># sum_list (map working wks)"
  using assms by (induction wks arbitrary: i) (auto simp: nth_Cons split: nat.splits)

lemma abs_pool_set_worker:
  "i < length (worker_threads m) \<Longrightarrow> abs_pool (set_worker i wk m) =
     (abs_pool m)\<lparr>jp_running := jp_running (abs_pool m) + working wk - working (worker_threads m ! i)\<rparr>"
  by (simp add: abs_pool_def set_worker_def running_update)

lemma abs_pool_frame [simp]:
  "abs_pool (m\<lparr>active_compile_jobs := a\<rparr>) = abs_pool m" "abs_pool (set_available_jobs n m) = abs_pool m"
  "worker_threads (set_available_jobs n m) = worker_threads m"
  by (simp_all add: abs_pool_def set_available_jobs_def)

lemma live_invalidate:
  "filter (\<lambda>r. \<not> invalidated r) (map (\<lambda>r. if requester_session r = sess then r\<lparr>invalidated := True\<rparr> else r) rs)
     = filter (\<lambda>r. requester_session r \<noteq> sess) (filter (\<lambda>r. \<not> invalidated r) rs)"
  by (induction rs) auto

section \<open>The refinement\<close>

lemma take_refines:
  assumes "cm_inv sz m" "i < length (worker_threads m)" "worker_threads m ! i = WWaiting"
  shows "jp_step (unat sz) (abs_pool m) (abs_pool (worker_take i m))"
proof (cases "compile_task_queue m")
  case Nil
  then show ?thesis using assms abs_pool_set_worker [OF assms(2), of WExited] by (simp add: worker_take_def jp_idle)
next
  case (Cons task queue)
  have room: "unat (active_compile_jobs m) < unat (thread_pool_sz m)" by (rule cm_inv_room) (use assms in auto)
  then have full: "\<not> thread_pool_sz m \<le> active_compile_jobs m" by (simp add: word_le_nat_alt)
  show ?thesis
  proof (cases "invalidated task")
    case True
    then have "abs_pool (worker_take i m) = abs_pool m"
      using Cons full by (simp add: worker_take_def abs_pool_def Let_def)
    then show ?thesis by (simp add: jp_idle)
  next
    case False
    let ?m = "m\<lparr>compile_task_queue := queue, active_compile_jobs := active_compile_jobs m + 1\<rparr>"
    have "abs_pool (worker_take i m) = abs_pool (set_worker i (WTaken task) ?m)"
      using Cons full False by (simp add: worker_take_def Let_def)
    also have "\<dots> = (abs_pool ?m)\<lparr>jp_running := jp_running (abs_pool ?m) + {#task#}\<rparr>"
      using abs_pool_set_worker [of i ?m "WTaken task"] assms(2,3) by simp
    also have "\<dots> = (abs_pool m)\<lparr>jp_waiting := jp_waiting (abs_pool ?m), jp_running := jp_running (abs_pool m) + {#task#}\<rparr>"
      by (simp add: abs_pool_def)
    finally have e: "abs_pool (worker_take i m) = \<dots>" .
    have "jp_waiting (abs_pool m) = task # jp_waiting (abs_pool ?m)" using Cons False by (simp add: abs_pool_def)
    moreover have "size (jp_running (abs_pool m)) < unat sz"
      using room assms(1) by (simp add: abs_pool_def size_running cm_inv_def)
    ultimately show ?thesis unfolding e by (rule jp_start)
  qed
qed

lemma cm_step_refines:
  assumes "cm_step m m'" "cm_inv sz m"
  shows "jp_step (unat sz) (abs_pool m) (abs_pool m')"
  using assms(1)
proof (cases rule: cm_step.cases)
  case (cm_add rqst)
  then show ?thesis
    using jp_submit [of "unat sz" "abs_pool m" rqst] jp_idle
    by (cases "invalidated rqst") (auto simp: add_compilation_request_def abs_pool_def)
next
  case (cm_invalidate sess)
  then show ?thesis
    using jp_cancel [of "unat sz" "abs_pool m" sess]
    by (simp add: invalidate_requests_for_session_def abs_pool_def live_invalidate)
next
  case cm_stop
  then show ?thesis using jp_idle by (simp add: abs_pool_def stop_compiler_manager_def)
next
  case (cm_take i)
  then show ?thesis using take_refines assms(2) by blast
next
  case (cm_announce i task)
  then show ?thesis using abs_pool_set_worker [of i "set_available_jobs _ m"] jp_idle by (simp add: worker_announce_def)
next
  case (cm_compiled i task out)
  then have "abs_pool m' = (abs_pool m)\<lparr>jp_running := jp_running (abs_pool m) - {#task#}\<rparr>"
    using abs_pool_set_worker [of i "m\<lparr>active_compile_jobs := active_compile_jobs m - 1\<rparr>" "WCompiled task out"]
    by (simp add: worker_compiled_def)
  moreover have "task \<in># jp_running (abs_pool m)"
    using cm_compiled running_member [of i "worker_threads m" task] by (simp add: abs_pool_def)
  ultimately show ?thesis using jp_finish [of task "abs_pool m"] by simp
next
  case (cm_publish i task out)
  then show ?thesis using abs_pool_set_worker [of i "set_available_jobs _ m" WWaiting] jp_idle by (simp add: worker_publish_def)
qed

text \<open>The contract of an implementation: an invariant that its steps keep, and an abstraction under
  which each of its steps is a step of the specification.\<close>

locale simulation =
  fixes cstep :: "'c \<Rightarrow> 'c \<Rightarrow> bool" and astep :: "'a \<Rightarrow> 'a \<Rightarrow> bool" and inv :: "'c \<Rightarrow> bool" and abstr :: "'c \<Rightarrow> 'a"
  assumes inv_step: "cstep s s' \<Longrightarrow> inv s \<Longrightarrow> inv s'"
    and step_refines: "cstep s s' \<Longrightarrow> inv s \<Longrightarrow> astep (abstr s) (abstr s')"
begin

lemma runs_refine:
  assumes "cstep\<^sup>*\<^sup>* s s'" "inv s"
  shows "astep\<^sup>*\<^sup>* (abstr s) (abstr s') \<and> inv s'"
  using assms
proof (induction rule: rtranclp_induct)
  case (step t u)
  then show ?case using inv_step step_refines by (meson rtranclp.rtrancl_into_rtrancl)
qed simp

end

interpretation pool: simulation cm_step "jp_step (unat sz)" "cm_inv sz" abs_pool for sz
  by unfold_locales (rule cm_step_inv, assumption+, rule cm_step_refines)

lemma cm_reachable_run: "cm_reachable sz m \<Longrightarrow> cm_step\<^sup>*\<^sup>* (new_compiler_manager sz) m"
  by (induction rule: cm_reachable.induct) (auto intro: rtranclp.rtrancl_into_rtrancl)

lemma sum_list_replicate_empty [simp]: "sum_list (replicate n {#}) = {#}"
  by (induction n) simp_all

lemma abs_pool_new: "abs_pool (new_compiler_manager sz) = \<lparr>jp_waiting = [], jp_running = {#}\<rparr>"
  by (simp add: abs_pool_def new_compiler_manager_def)

text \<open>A pool of one worker with one request.\<close>

definition one_request :: compiler_manager where
  "one_request = add_compilation_request \<lparr>invalidated = False, requester_session = ''s'', cr_compiler_name = ''g++'',
     cr_cmd_line_args = [], cr_current_working_dir = ''/''\<rparr> (new_compiler_manager 1)"

lemma one_request_reachable: "cm_reachable 1 one_request"
  unfolding one_request_def by (rule cm_next [OF cm_start cm_add])

lemma one_request_waits: "0 < length (worker_threads one_request)" "worker_threads one_request ! 0 = WWaiting"
  "wait_condition one_request" "compile_task_queue one_request = [hd (compile_task_queue one_request)]"
  by (simp_all add: one_request_def add_compilation_request_def new_compiler_manager_def wait_condition_def)

section \<open>Properties\<close>



text \<open>A waiting worker never starves and never spins: in every reachable state with a request in
  the queue its wait is over, and its next step removes the oldest request and, unless that request
  was invalidated, takes it up.\<close>

theorem waiting_worker_takes_next:
  assumes "cm_reachable sz m" "i < length (worker_threads m)" "worker_threads m ! i = WWaiting"
    and "compile_task_queue m = r # rest"
  shows "wait_condition m \<and> cm_step m (worker_take i m) \<and> compile_task_queue (worker_take i m) = rest
    \<and> worker_threads (worker_take i m) ! i = (if invalidated r then WWaiting else WTaken r)"
proof -
  have "active_compile_jobs m < thread_pool_sz m"
    using cm_inv_room [OF cm_reachable_inv [OF assms(1)] assms(2)] assms(3) by (simp add: word_less_nat_alt)
  then show ?thesis
    using assms cm_take [OF assms(2,3)] by (auto simp: wait_condition_def worker_take_def set_worker_def Let_def)
qed

theorem waiting_worker_takes_next_witness:
  "wait_condition one_request \<and> cm_step one_request (worker_take 0 one_request)
    \<and> compile_task_queue (worker_take 0 one_request) = []
    \<and> worker_threads (worker_take 0 one_request) ! 0 =
        (if invalidated (hd (compile_task_queue one_request)) then WWaiting else WTaken (hd (compile_task_queue one_request)))"
  by (rule waiting_worker_takes_next [OF one_request_reachable one_request_waits(1,2,4)])

text \<open>With a pool of less than \<open>2 ^ 32\<close> workers, what the broadcaster sends is the number the
  manager announced last, not cut off by the 32-bit field, and it is at most the size of the pool, or
  at most the eight jobs the broadcaster starts with.\<close>

theorem advertised_jobs_in_range:
  assumes "cm_reachable sz m" "unat sz < 2 ^ 32"
  shows "unat (ra_available_jobs (advertisement (rb_set_available_jobs (advertised_jobs m) rb))) = unat (advertised_jobs m)
    \<and> unat (advertised_jobs m) \<le> max 8 (unat sz)"
proof -
  have le: "unat (advertised_jobs m) \<le> max 8 (unat sz)"
    using cm_reachable_inv [OF assms(1)] by (auto simp: cm_inv_def word_le_nat_alt)
  then have "unat (advertised_jobs m) < 2 ^ 32" using assms(2) by simp
  with le show ?thesis
    by (simp add: advertisement_def rb_set_available_jobs_def unsigned_ucast_eq take_bit_nat_eq_self)
qed

theorem advertised_jobs_in_range_witness:
  "unat (ra_available_jobs (advertisement (rb_set_available_jobs (advertised_jobs (new_compiler_manager 4))
     (new_resource_broadcaster ''s'' 80 ''h'')))) = unat (advertised_jobs (new_compiler_manager 4))
    \<and> unat (advertised_jobs (new_compiler_manager 4)) \<le> max 8 (unat (4 :: u64))"
  by (rule advertised_jobs_in_range [OF cm_start]) simp

text \<open>Before the first compilation the number has nothing to do with the pool.\<close>

lemma idle_server_advertises_eight:
  "ra_available_jobs (advertisement (rb_set_available_jobs (advertised_jobs (new_compiler_manager sz)) rb)) = 8"
  by (simp add: advertisement_def rb_set_available_jobs_def new_compiler_manager_def)

end
