(* ===== verification/Lru_Storage.thy ===== *)
theory Lru_Storage
  imports DB_Prelude
begin

text \<open>
  The storage with a byte capacity and least-recently-used eviction: \<open>src/src/lru_storage.hpp\<close>.
  The list \<open>storage_nodes\<close> is in order of use, the most recent first. The map
  \<open>node_iterators\<close> takes a key to its list node; a list iterator stays valid until its node is
  erased, so it is the key itself and the map is its set of keys. \<open>sz\<close> is the member
  \<open>size\<close> of the stored type.
\<close>

record 'v lru_storage =
  storage_nodes :: "(string \<times> 'v) list"
  node_iterators :: "string set"
  store_usage :: u64
  store_capacity :: u64

definition new_lru_storage :: "u64 \<Rightarrow> 'v lru_storage" where
  "new_lru_storage capacity = \<lparr>storage_nodes = [], node_iterators = {}, store_usage = 0, store_capacity = capacity\<rparr>"

definition clear_storage :: "'v lru_storage \<Rightarrow> 'v lru_storage" where
  "clear_storage st = st\<lparr>node_iterators := {}, storage_nodes := [], store_usage := 0\<rparr>"

text \<open>\<open>get_value\<close> moves the node to the front of the list.\<close>

definition get_value :: "string \<Rightarrow> 'v lru_storage \<Rightarrow> 'v option \<times> 'v lru_storage" where
  "get_value key st =
     (if key \<notin> node_iterators st then (None, st)
      else case map_of (storage_nodes st) key of
          None \<Rightarrow> (None, st)
        | Some v \<Rightarrow> (Some v, st\<lparr>storage_nodes := (key, v) # filter (\<lambda>(k, _). k \<noteq> key) (storage_nodes st)\<rparr>))"

text \<open>The loop of \<open>store_value\<close>; \<open>back()\<close> of an empty list is undefined behaviour. The
  argument \<open>rev_nodes\<close> is the list from its back.\<close>

fun evict :: "('v \<Rightarrow> u64) \<Rightarrow> u64 \<Rightarrow> (string \<times> 'v) list \<Rightarrow> 'v lru_storage \<Rightarrow> 'v lru_storage result" where
  "evict sz value_size [] st =
     (if store_usage st + value_size > store_capacity st then Inl Undefined else Inr (st\<lparr>storage_nodes := []\<rparr>))"
| "evict sz value_size ((k, v) # older) st =
     (if store_usage st + value_size > store_capacity st
      then evict sz value_size older
             (st\<lparr>store_usage := store_usage st - sz v, node_iterators := node_iterators st - {k}\<rparr>)
      else Inr (st\<lparr>storage_nodes := rev ((k, v) # older)\<rparr>))"

definition store_value :: "('v \<Rightarrow> u64) \<Rightarrow> string \<Rightarrow> 'v \<Rightarrow> 'v lru_storage \<Rightarrow> (bool \<times> 'v lru_storage) result" where
  "store_value sz key value st =
     (if key \<in> node_iterators st then Inr (False, st)
      else bind_r (evict sz (sz value) (rev (storage_nodes st)) st) (\<lambda>st1.
             Inr (True, st1\<lparr>storage_nodes := (key, value) # storage_nodes st1,
                           node_iterators := insert key (node_iterators st1),
                           store_usage := store_usage st1 + sz value\<rparr>)))"

section \<open>The invariant\<close>

definition total_size :: "('v \<Rightarrow> u64) \<Rightarrow> (string \<times> 'v) list \<Rightarrow> nat" where
  "total_size sz nodes = sum_list (map (\<lambda>(_, v). unat (sz v)) nodes)"

definition lru_inv :: "('v \<Rightarrow> u64) \<Rightarrow> 'v lru_storage \<Rightarrow> bool" where
  "lru_inv sz st \<longleftrightarrow>
     distinct (map fst (storage_nodes st)) \<and> node_iterators st = fst ` set (storage_nodes st)
     \<and> unat (store_usage st) = total_size sz (storage_nodes st) \<and> store_usage st \<le> store_capacity st"

lemma total_size_simps [simp]:
  "total_size sz [] = 0" "total_size sz ((k, v) # xs) = unat (sz v) + total_size sz xs"
  "total_size sz (xs @ ys) = total_size sz xs + total_size sz ys"
  by (simp_all add: total_size_def)

lemma total_size_rev [simp]: "total_size sz (rev xs) = total_size sz xs"
  by (induction xs) auto

lemma total_size_filter:
  "distinct (map fst xs) \<Longrightarrow> map_of xs k = Some v \<Longrightarrow>
     unat (sz v) + total_size sz (filter (\<lambda>(j, _). j \<noteq> k) xs) = total_size sz xs"
proof (induction xs)
  case (Cons x xs)
  obtain j w where x: "x = (j, w)" by (cases x)
  show ?case
  proof (cases "j = k")
    case True
    then have "filter (\<lambda>(j, _). j \<noteq> k) xs = xs" using Cons.prems(1) x by (force simp: filter_id_conv)
    then show ?thesis using True Cons.prems(2) x by simp
  next
    case False
    then show ?thesis using Cons x by simp
  qed
qed simp

text \<open>The invariant of the storage, the two indexes agreeing, the usage being the sum of the
  stored sizes and within the capacity, holds of a new storage and of a cleared one, and is kept by
  \<open>get_value\<close>, which makes the value it finds the most recently used and changes nothing else.\<close>

theorem get_value_keeps:
  assumes "lru_inv sz st"
  shows "lru_inv sz (snd (get_value key st)) \<and> lru_inv sz (clear_storage st) \<and> lru_inv sz (new_lru_storage c)
    \<and> fst (get_value key st) = map_of (storage_nodes st) key
    \<and> map_of (storage_nodes (snd (get_value key st))) = map_of (storage_nodes st)
    \<and> (key \<in> node_iterators st \<longrightarrow> fst (hd (storage_nodes (snd (get_value key st)))) = key)"
proof (cases "map_of (storage_nodes st) key")
  case None
  then have "key \<notin> node_iterators st" using assms by (simp add: lru_inv_def map_of_eq_None_iff)
  then show ?thesis
    using None assms by (simp add: get_value_def lru_inv_def clear_storage_def new_lru_storage_def)
next
  case (Some v)
  then have "(key, v) \<in> set (storage_nodes st)" by (rule map_of_SomeD)
  then have key: "key \<in> node_iterators st" using assms by (force simp: lru_inv_def)
  have "map_of ((key, v) # filter (\<lambda>(k, _). k \<noteq> key) (storage_nodes st)) = map_of (storage_nodes st)"
  proof
    fix k show "map_of ((key, v) # filter (\<lambda>(k, _). k \<noteq> key) (storage_nodes st)) k = map_of (storage_nodes st) k"
      using Some by (simp add: map_of_filter_key)
  qed
  then show ?thesis
    using Some key assms total_size_filter [of "storage_nodes st" key v sz]
    by (auto simp: get_value_def lru_inv_def clear_storage_def new_lru_storage_def distinct_map_filter)
qed

text \<open>The arithmetic of the loop test, without wrap-around.\<close>

lemma room_test:
  fixes u v c :: u64
  assumes "unat u \<le> unat c" "unat c + unat v < 2 ^ 64"
  shows "(u + v > c) \<longleftrightarrow> unat u + unat v > unat c" "unat (u + v) = unat u + unat v"
proof -
  show "unat (u + v) = unat u + unat v" using assms by (intro unat_add_lem [THEN iffD1]) simp
  then show "(u + v > c) \<longleftrightarrow> unat u + unat v > unat c" by (simp add: word_less_nat_alt)
qed

text \<open>What the loop leaves: \<open>gone\<close> was removed from the back, \<open>kept\<close> stays, and one entry
  more would not have left room.\<close>

definition evicted ::
    "('v \<Rightarrow> u64) \<Rightarrow> u64 \<Rightarrow> 'v lru_storage \<Rightarrow> (string \<times> 'v) list \<Rightarrow> (string \<times> 'v) list \<Rightarrow> 'v lru_storage \<Rightarrow> bool" where
  "evicted sz vs st gone kept st' \<longleftrightarrow>
     storage_nodes st' = rev kept \<and> unat (store_usage st') = total_size sz kept
     \<and> total_size sz kept + unat vs \<le> unat (store_capacity st)
     \<and> store_capacity st' = store_capacity st \<and> node_iterators st' = node_iterators st - fst ` set gone
     \<and> (gone \<noteq> [] \<longrightarrow> total_size sz (last gone # kept) + unat vs > unat (store_capacity st))"

lemma evicted_one_more:
  assumes "evicted sz vs (st\<lparr>store_usage := u, node_iterators := node_iterators st - {k}\<rparr>) gone kept st'"
    and "total_size sz ((k, v) # gone @ kept) + unat vs > unat (store_capacity st)"
  shows "evicted sz vs st ((k, v) # gone) kept st'"
proof -
  have "total_size sz (last ((k, v) # gone) # kept) + unat vs > unat (store_capacity st)"
    using assms by (cases "gone = []") (simp_all add: evicted_def)
  then show ?thesis using assms(1) by (auto simp: evicted_def)
qed

lemma evict_outcome:
  assumes "unat (store_usage st) = total_size sz rn" "total_size sz rn \<le> unat (store_capacity st)"
    and "unat vs \<le> unat (store_capacity st)" "unat (store_capacity st) + unat vs < 2 ^ 64"
  shows "\<exists>st' gone kept. evict sz vs rn st = Inr st' \<and> rn = gone @ kept \<and> evicted sz vs st gone kept st'"
  using assms
proof (induction sz vs rn st rule: evict.induct)
  case (1 sz vs st)
  then show ?case using room_test(1) [of "store_usage st" "store_capacity st" vs] by (simp add: evicted_def)
next
  case (2 sz vs k v older st)
  let ?cap = "unat (store_capacity st)"
  have test: "(store_usage st + vs > store_capacity st) \<longleftrightarrow> total_size sz ((k, v) # older) + unat vs > ?cap"
    using room_test(1) [of "store_usage st" "store_capacity st" vs] 2 by simp
  show ?case
  proof (cases "store_usage st + vs > store_capacity st")
    case True
    let ?st = "st\<lparr>store_usage := store_usage st - sz v, node_iterators := node_iterators st - {k}\<rparr>"
    have "unat (store_usage st - sz v) = unat (store_usage st) - unat (sz v)"
      using 2(2) by (intro unat_sub) (simp add: word_le_nat_alt)
    then have "\<exists>st' gone kept. evict sz vs older ?st = Inr st' \<and> older = gone @ kept \<and> evicted sz vs ?st gone kept st'"
      using 2 True by (intro 2(1)) simp_all
    then obtain st' gone kept where r: "evict sz vs older ?st = Inr st'" "older = gone @ kept"
      "evicted sz vs ?st gone kept st'"
      by blast
    then have "evicted sz vs st ((k, v) # gone) kept st'"
      using test True evicted_one_more [OF r(3)] by blast
    moreover have "evict sz vs ((k, v) # older) st = Inr st'" using True r(1) by simp
    ultimately show ?thesis using r(2) by (metis append_Cons)
  next
    case False
    let ?st = "st\<lparr>storage_nodes := rev ((k, v) # older)\<rparr>"
    have "evicted sz vs st [] ((k, v) # older) ?st"
      using 2(2) test False by (simp add: evicted_def)
    moreover have "evict sz vs ((k, v) # older) st = Inr ?st" using False by simp
    ultimately show ?thesis by (metis append_Nil)
  qed
qed


text \<open>A value larger than the whole capacity makes the loop run past the empty list.\<close>

lemma store_value_too_large:
  assumes "lru_inv sz st" "key \<notin> node_iterators st" "storage_nodes st = []" "sz value > store_capacity st"
  shows "store_value sz key value st = Inl Undefined"
proof -
  have "store_usage st = 0" using assms(1,3) by (simp add: lru_inv_def unat_eq_zero)
  then show ?thesis using assms by (simp add: store_value_def)
qed

section \<open>Examples\<close>

definition small_store :: "u64 lru_storage" where
  "small_store = \<lparr>storage_nodes = [(''b'', 4), (''a'', 5)], node_iterators = {''a'', ''b''}, store_usage = 9, store_capacity = 10\<rparr>"

lemma small_store_inv: "lru_inv id small_store"
  by (auto simp: lru_inv_def small_store_def total_size_def)

theorem get_value_keeps_witness:
  "lru_inv id (snd (get_value ''a'' small_store)) \<and> lru_inv id (clear_storage small_store)
    \<and> lru_inv id (new_lru_storage 10 :: u64 lru_storage)
    \<and> fst (get_value ''a'' small_store) = map_of (storage_nodes small_store) ''a''
    \<and> map_of (storage_nodes (snd (get_value ''a'' small_store))) = map_of (storage_nodes small_store)
    \<and> fst (hd (storage_nodes (snd (get_value ''a'' small_store)))) = ''a''"
  using get_value_keeps [OF small_store_inv, of "''a''" 10] by (simp add: small_store_def)


end
