(* ===== verification/Test_Programs.thy ===== *)
theory Test_Programs
  imports Unix_Ipc
begin

text \<open>
  The two programs that try out the local socket: \<open>src/src/unix_client_test.cpp\<close>, a client with the third
  copy of the wire codec (suffix \<open>_t\<close>), and \<open>src/src/unix_server_test.cpp\<close>, a daemon whose handler only
  prints its request.
\<close>

section \<open>The codec of the test client\<close>

definition append_u32_t :: "byte_vec \<Rightarrow> u32 \<Rightarrow> byte_vec" where
  "append_u32_t out v =
     (((out @ [ucast (drop_bit 24 v AND 0xFF)]) @ [ucast (drop_bit 16 v AND 0xFF)])
       @ [ucast (drop_bit 8 v AND 0xFF)]) @ [ucast (v AND 0xFF)]"

text \<open>The argument is the pointer \<open>data.data() + offset\<close>.\<close>

definition read_u32_t :: "byte_vec \<Rightarrow> nat \<Rightarrow> u32 result" where
  "read_u32_t data offset =
     (if offset + 4 \<le> length data
      then Inr (push_bit 24 (ucast (data ! offset)) OR push_bit 16 (ucast (data ! (offset + 1)))
                OR push_bit 8 (ucast (data ! (offset + 2))) OR ucast (data ! (offset + 3)))
      else Inl Undefined)"

definition append_string_t :: "byte_vec \<Rightarrow> string \<Rightarrow> byte_vec" where
  "append_string_t out s = append_u32_t out (u32_size s) @ map byte_of_char s"

definition read_string_t :: "byte_vec \<Rightarrow> nat \<Rightarrow> (string \<times> nat) result" where
  "read_string_t data offset =
     bind_r (read_u32_t data offset) (\<lambda>len.
       if offset + 4 + unat len \<le> length data
       then Inr (map char_of_byte (take (unat len) (drop (offset + 4) data)), offset + 4 + unat len)
       else Inl Undefined)"

definition serialize_request_t :: "unix_ipc_request \<Rightarrow> byte_vec" where
  "serialize_request_t req =
     foldl append_string_t
       (append_u32_t (append_string_t [] (current_working_dir req)) (u32_size (cmd_line_args req)))
       (cmd_line_args req)"

definition deserialize_response_t :: "byte_vec \<Rightarrow> unix_ipc_response result" where
  "deserialize_response_t data =
     bind_r (read_u32_t data 0) (\<lambda>exit_code.
     bind_r (read_string_t data 4) (\<lambda>(out, offset).
     bind_r (read_string_t data offset) (\<lambda>(err, _).
       Inr (mk_response exit_code out err))))"

section \<open>The test client\<close>

text \<open>\<open>operator<<\<close> of an \<open>int\<close>.\<close>

fun digits :: "nat \<Rightarrow> string" where
  "digits n = (if n < 10 then [char_of (48 + n)] else digits (n div 10) @ [char_of (48 + n mod 10)])"

declare digits.simps [simp del]

definition print_int :: "i32 \<Rightarrow> string" where
  "print_int v = (if sint v < 0 then CHR ''-'' # digits (nat (- sint v)) else digits (nat (sint v)))"

abbreviation newline :: string where "newline \<equiv> [CHR 0x0A]"

definition report_response :: "unix_ipc_response \<Rightarrow> string" where
  "report_response r =
     ''Exit code: '' @ print_int (compiler_exit_code r) @ newline
       @ ''========== STDOUT =========='' @ newline @ stdout_content r @ newline
       @ ''========== STDERR =========='' @ newline @ stderr_content r @ newline"

text \<open>\<open>main\<close>: exit code, standard output, standard error. All of it is in one \<open>try\<close> block, the query of the
  working directory included. Printing the null pointer of an empty \<open>argv\<close> is undefined.\<close>

definition unix_client_main ::
    "(exn \<Rightarrow> string) \<Rightarrow> (byte_vec \<Rightarrow> byte_vec result) \<Rightarrow> string result \<Rightarrow> string list
      \<Rightarrow> (i32 \<times> string \<times> string) result" where
  "unix_client_main what peer current_path argv =
     (case argv of
        [] \<Rightarrow> Inl Undefined
      | prog # cmd_args \<Rightarrow>
          if length argv < 2 then Inr (1, [], ''Usage:'' @ newline @ prog @ '' [args...]'' @ newline)
          else catch_r
            (bind_r current_path (\<lambda>cwd.
               let payload = serialize_request_t \<lparr>current_working_dir = cwd, cmd_line_args = cmd_args\<rparr>;
                   framed = append_u32_t [] (u32_size payload) @ payload
               in bind_r (peer framed) (\<lambda>answer.
                  bind_r (read_frame read_u32_t deserialize_response_t answer) (\<lambda>response.
                    Inr (compiler_exit_code response, report_response response, [])))))
            (\<lambda>e. Inr (1, [], ''Client error: '' @ what e @ newline)))"

section \<open>The test server\<close>

text \<open>Its handler: what it prints, and the response.\<close>

definition unix_server_handler :: "unix_ipc_request \<Rightarrow> string \<times> unix_ipc_response" where
  "unix_server_handler request =
     (''UNIX IPC REQUEST'' @ newline @ ''CWD: '' @ current_working_dir request @ newline
        @ concat (map (\<lambda>arg. ''arg: '' @ arg @ newline) (cmd_line_args request)),
      mk_response 0 ''Compilation successful'' [])"

section \<open>Lemmas\<close>

lemma append_u32_t_eq [simp]: "append_u32_t = append_u32"
  by (intro ext) (simp add: append_u32_t_def append_u32_def)

lemma read_u32_t_eq [simp]: "read_u32_t = read_u32"
  by (intro ext) (simp add: read_u32_t_def read_u32_def)

lemma append_string_t_eq [simp]: "append_string_t = append_string"
  by (intro ext) (simp add: append_string_t_def append_string_def)

lemma read_string_t_eq [simp]: "read_string_t = read_string"
  by (intro ext) (simp add: read_string_t_def read_string_def Let_def)

text \<open>The test client's codec is the wrapper's.\<close>

lemma serialize_request_t_eq [simp]: "serialize_request_t = serialize_request"
  by (intro ext) (simp add: serialize_request_t_def serialize_request_def Let_def)

lemma deserialize_response_t_eq [simp]: "deserialize_response_t = deserialize_response_w"
  by (intro ext) (simp add: deserialize_response_t_def deserialize_response_w_def)

interpretation test_request_codec: wire_codec serialize_request_t deserialize_request request_fits
  by unfold_locales (simp_all add: deserialize_serialize_request [simplified] request_fits_def)

interpretation test_response_codec: wire_codec serialize_response deserialize_response_t response_fits
  by unfold_locales (simp_all add: deserialize_serialize_response response_fits_def)

lemma daemon_answers:
  assumes "request_fits req" "h req = Inr resp"
  shows "daemon_peer h m (append_u32 [] (u32_size (serialize_request req)) @ serialize_request req)
    = Inr (append_u32 [] (u32_size (serialize_response resp)) @ serialize_response resp)"
  using serve_connection_framed [where h = h, OF assms] by (simp add: daemon_peer_def handle_session_def Let_def)

section \<open>Properties\<close>

text \<open>C38. The test client and any daemon understand each other: with at least one argument it prints the
  three parts of the response that the handler gave for its working directory and its arguments, and
  exits with its exit code; when the daemon gives no response, because its handler threw an exception or
  nobody listens on the socket, it prints the error and exits with code 1.\<close>

theorem test_client_reports:
  assumes "rq = \<lparr>current_working_dir = cwd, cmd_line_args = arg # args\<rparr>" "request_fits rq"
  shows "(\<forall>resp. h rq = Inr resp \<longrightarrow> response_fits resp \<longrightarrow>
      unix_client_main what (daemon_peer h m) (Inr cwd) (prog # arg # args)
        = Inr (compiler_exit_code resp, report_response resp, []))
    \<and> (\<forall>e. h rq = Inl (Throw e) \<longrightarrow>
      unix_client_main what (daemon_peer h m) (Inr cwd) (prog # arg # args)
        = Inr (1, [], ''Client error: '' @ what Eof @ newline))
    \<and> (\<forall>e. unix_client_main what (\<lambda>_. Inl (Throw e)) (Inr cwd) (prog # arg # args)
        = Inr (1, [], ''Client error: '' @ what e @ newline))"
proof (intro conjI allI impI)
  fix resp
  assume "h rq = Inr resp" "response_fits resp"
  then show "unix_client_main what (daemon_peer h m) (Inr cwd) (prog # arg # args)
      = Inr (compiler_exit_code resp, report_response resp, [])"
    using daemon_answers [of rq h resp m] response_codec.read_frame_encode [of resp] assms
    by (simp add: unix_client_main_def Let_def)
next
  fix e
  assume "h rq = Inl (Throw e)"
  then have "daemon_peer h m (append_u32 [] (u32_size (serialize_request rq)) @ serialize_request rq) = Inr []"
    using request_codec.read_frame_encode [OF assms(2)]
    by (simp add: daemon_peer_def handle_session_def serve_connection_def)
  then show "unix_client_main what (daemon_peer h m) (Inr cwd) (prog # arg # args)
      = Inr (1, [], ''Client error: '' @ what Eof @ newline)"
    using assms(1) by (simp add: unix_client_main_def Let_def read_frame_def async_read_def)
qed (simp add: unix_client_main_def Let_def)

theorem test_client_reports_witness:
  "unix_client_main (\<lambda>_. ''x'') (daemon_peer (\<lambda>r. Inr (snd (unix_server_handler r))) \<lparr>active_connections = 0\<rparr>)
      (Inr ''/p'') [''t'', ''gcc'', ''a.c'']
    = Inr (0, ''Exit code: 0'' @ newline @ ''========== STDOUT =========='' @ newline @ ''Compilation successful'' @ newline
        @ ''========== STDERR =========='' @ newline @ newline, [])
   \<and> unix_client_main (\<lambda>_. ''x'') (\<lambda>_. Inl (Throw Socket_Error)) (Inr ''/p'') [''t'', ''gcc'', ''a.c'']
    = Inr (1, [], ''Client error: x'' @ newline)"
proof -
  let ?rq = "\<lparr>current_working_dir = ''/p'', cmd_line_args = ''gcc'' # [''a.c'']\<rparr>"
  have fits: "request_fits ?rq" "response_fits (mk_response 0 ''Compilation successful'' [])"
    by (simp_all add: request_fits_def response_fits_def serialize_request_flat serialize_response_flat mk_response_def)
  have zero: "print_int 0 = ''0''" by (simp add: print_int_def digits.simps) code_simp
  note r = test_client_reports [OF refl fits(1), where what = "\<lambda>_. ''x''" and prog = "''t''"
      and h = "\<lambda>r. Inr (snd (unix_server_handler r))" and m = "\<lparr>active_connections = 0\<rparr>"]
  from r [THEN conjunct1, rule_format, OF _ fits(2)] r [THEN conjunct2, THEN conjunct2, rule_format, of Socket_Error]
  show ?thesis using zero by (simp add: unix_server_handler_def report_response_def mk_response_def)
qed

end
