(* ===== verification/Legacy_Programs.thy ===== *)
theory Legacy_Programs
  imports DB_Prelude
begin

text \<open>
  The first versions of the wrapper and of the daemon, \<open>src/src/compiler_wrapper_main.cpp\<close> and
  \<open>src/src/daemon_main.cpp\<close>: the request of the old wrapper, its fallback to the local compiler, the old
  advertisement service, and the listener that is all that the old wrapper's \<open>main\<close> still runs.

  What the system decides is an argument: the working directory, which programs can be executed, whether a
  write succeeds, which datagrams arrive, how a timer or a send completes.
\<close>

section \<open>The old wrapper\<close>

definition MAX_PATH_SIZE :: nat where "MAX_PATH_SIZE = 4096"
definition MAX_RQST_SIZE :: nat where "MAX_RQST_SIZE = 2 ^ 16"

text \<open>The vector of the arguments: the loop counts from 0 to \<open>argc\<close>.\<close>

definition parse_args :: "nat \<Rightarrow> string list \<Rightarrow> string list" where
  "parse_args argc argv = foldl (\<lambda>cmd_line_args i. cmd_line_args @ [argv ! i]) [] [0..<argc]"

text \<open>How a process goes on: another program takes it over, or it exits.\<close>

datatype process_end = Exec_Image string "string list" | Exit_With i32

text \<open>\<open>execvp(argv[1], argv + 1)\<close> returns only if it fails. Without arguments \<open>argv[1]\<close> is the null
  pointer that ends \<open>argv\<close>, which cannot be executed; an empty \<open>argv\<close> has no entry 1.\<close>

definition call_compiler_locally :: "(string \<Rightarrow> bool) \<Rightarrow> string list \<Rightarrow> process_end result" where
  "call_compiler_locally can_exec argv =
     (case argv of
        [] \<Rightarrow> Inl Undefined
      | [_] \<Rightarrow> Inr (Exit_With 1)
      | _ # prog # args \<Rightarrow> if can_exec prog then Inr (Exec_Image prog (prog # args)) else Inr (Exit_With 1))"

definition is_object_arg :: "string \<Rightarrow> bool" where
  "is_object_arg arg \<longleftrightarrow> ends_with arg ''.o'' \<or> ends_with arg ''.so''"

definition check_linker_call :: "string list \<Rightarrow> bool" where
  "check_linker_call argv \<longleftrightarrow> length (filter is_object_arg argv) > 1"

definition record_separator :: char where "record_separator = CHR 0x1E"

definition legacy_request :: "string \<Rightarrow> string list \<Rightarrow> string" where
  "legacy_request cwd args =
     foldl (\<lambda>rqst arg. rqst @ arg @ [record_separator]) (cwd @ [record_separator]) args @ [CHR 0x0A]"

text \<open>\<open>send_compiler_call\<close>: it returns \<open>true\<close> with the bytes written, returns \<open>false\<close>, or the process
  ends in it. \<open>getcwd\<close> is \<open>None\<close> when the directory has no name that fits the buffer.\<close>

datatype send_outcome = Returns_True string | Returns_False | Process_Ends process_end

definition send_compiler_call ::
    "string option \<Rightarrow> (string \<Rightarrow> bool) \<Rightarrow> (string \<Rightarrow> bool) \<Rightarrow> string list \<Rightarrow> send_outcome result" where
  "send_compiler_call getcwd can_exec writes argv =
     (let fall_back = bind_r (call_compiler_locally can_exec argv) (\<lambda>e. Inr (Process_Ends e))
      in case getcwd of
          None \<Rightarrow> fall_back
        | Some cwd \<Rightarrow>
            if length cwd \<ge> MAX_PATH_SIZE then fall_back
            else let cc_rqst = legacy_request cwd (tl argv)
              in if length cc_rqst > MAX_RQST_SIZE then fall_back
                 else if \<not> writes cc_rqst then fall_back
                 else Inr (Returns_True cc_rqst))"

section \<open>The listener\<close>

definition BUFF_SZ :: nat where "BUFF_SZ = 1500"

text \<open>A datagram is stored at the start of the buffer, cut to its size; what follows stays. The
  \<open>std::string\<close> that is printed is built from the pointer alone, up to the first zero byte.\<close>

definition receive_into :: "string \<Rightarrow> string \<Rightarrow> string" where
  "receive_into buff datagram = take BUFF_SZ datagram @ drop (length (take BUFF_SZ datagram)) buff"

definition c_string :: "string \<Rightarrow> string result" where
  "c_string buff = (case find_char_in (CHR 0x00) buff of None \<Rightarrow> Inl Undefined | Some n \<Rightarrow> Inr (take n buff))"

definition broadcast_line :: "string \<Rightarrow> string" where
  "broadcast_line s = ''Received broadcast: '' @ s @ [CHR 0x0A]"

text \<open>\<open>listen_adv\<close> with what its buffer holds and what the socket gives it: the lines it prints, and how it
  ends if it does. The buffer of the first turn is not initialised.\<close>

fun listen_adv :: "string \<Rightarrow> string result list \<Rightarrow> string list \<times> cpp_error option" where
  "listen_adv buff [] = ([], None)"
| "listen_adv buff (Inl e # events) = ([], Some e)"
| "listen_adv buff (Inr datagram # events) =
     (let buff' = receive_into buff datagram
      in case c_string buff' of
          Inl e \<Rightarrow> ([], Some e)
        | Inr s \<Rightarrow> (let (printed, ends) = listen_adv buff' events in (broadcast_line s # printed, ends)))"

text \<open>What is left of \<open>main\<close>: it opens the port, runs the listener on its own, and returns 0 when that has
  ended. No exit code stands for a listener that still waits. Nobody catches a failure to bind.\<close>

definition legacy_main :: "bool \<Rightarrow> string \<Rightarrow> string result list \<Rightarrow> (string list \<times> i32 option) result" where
  "legacy_main binds buff events =
     (if \<not> binds then Inl (Throw Socket_Error)
      else case listen_adv buff events of
          (printed, None) \<Rightarrow> Inr (printed, None)
        | (printed, Some (Throw e)) \<Rightarrow> Inr (printed, Some 0)
        | (printed, Some Undefined) \<Rightarrow> Inl Undefined)"

section \<open>The old advertisement service\<close>

text \<open>A \<open>std::string\<close> from the literal \<open>DUMMY_MSG\<close> ends before the zero that the literal spells out.\<close>

definition DUMMY_MSG :: string where
  "DUMMY_MSG = ''compile jobs available'' @ [CHR 0x0A]"

datatype adv_pending = Broadcast_Timer | Send_To | Nothing_Pending

record adv_service =
  adv_pending :: adv_pending
  adv_sent :: "string list"

definition new_adv_service :: adv_service where
  "new_adv_service = \<lparr>adv_pending = Broadcast_Timer, adv_sent = []\<rparr>"

text \<open>The next completion: the handler of the timer, \<open>_send_pkt_helper\<close>, or the handler of the send; the
  argument says that there was no error.\<close>

definition adv_completion :: "bool \<Rightarrow> adv_service \<Rightarrow> adv_service" where
  "adv_completion ok s =
     (case adv_pending s of
        Broadcast_Timer \<Rightarrow> s\<lparr>adv_pending := (if ok then Send_To else Nothing_Pending)\<rparr>
      | Send_To \<Rightarrow>
          if ok then s\<lparr>adv_sent := adv_sent s @ [DUMMY_MSG], adv_pending := Broadcast_Timer\<rparr>
          else s\<lparr>adv_pending := Nothing_Pending\<rparr>
      | Nothing_Pending \<Rightarrow> s)"

section \<open>Lemmas\<close>

lemma parse_args_argv: "parse_args (length argv) argv = argv"
proof -
  have "foldl (\<lambda>acc i. acc @ [argv ! i]) [] [0..<n] = take n argv" if "n \<le> length argv" for n
    using that by (induction n) (simp_all add: take_Suc_conv_app_nth)
  then show ?thesis by (simp add: parse_args_def)
qed

text \<open>The records of a request: what stands before each separator. No program of the repository reads this
  format; the function says what a reader can recover.\<close>

fun records :: "string \<Rightarrow> string \<Rightarrow> string list" where
  "records cur [] = []"
| "records cur (c # s) = (if c = record_separator then cur # records [] s else records (cur @ [c]) s)"

lemma newline_no_separator [simp]: "CHR 0x0A \<noteq> record_separator"
  by (simp add: record_separator_def)

lemma records_append:
  "record_separator \<notin> set a \<Longrightarrow> records cur (a @ record_separator # s) = (cur @ a) # records [] s"
  by (induction a arbitrary: cur) auto

lemma legacy_request_flat:
  "legacy_request cwd args = cwd @ record_separator # concat (map (\<lambda>a. a @ [record_separator]) args) @ [CHR 0x0A]"
proof -
  have "foldl (\<lambda>rqst arg. rqst @ arg @ [record_separator]) acc args = acc @ concat (map (\<lambda>a. a @ [record_separator]) args)" for acc
    by (induction args arbitrary: acc) simp_all
  then show ?thesis by (simp add: legacy_request_def)
qed

lemma records_legacy_request:
  assumes "record_separator \<notin> set cwd" "\<forall>a \<in> set args. record_separator \<notin> set a"
  shows "records [] (legacy_request cwd args) = cwd # args"
proof -
  have "records [] (concat (map (\<lambda>a. a @ [record_separator]) args) @ [CHR 0x0A]) = args"
    using assms(2) by (induction args) (simp_all add: records_append)
  then show ?thesis using assms(1) by (simp add: legacy_request_flat records_append)
qed

text \<open>With a separator in an argument two different calls are the same request.\<close>

lemma legacy_request_ambiguous:
  "legacy_request ''/p'' [''a'', ''b''] = legacy_request ''/p'' [''a'' @ [record_separator] @ ''b'']"
  by (simp add: legacy_request_def record_separator_def)

text \<open>A compilation as CMake writes it names its object file twice, so it was taken for a linker call.\<close>

lemma compilation_taken_for_link:
  "check_linker_call [''w'', ''clang++'', ''-MD'', ''-MT'', ''a.cpp.o'', ''-o'', ''a.cpp.o'', ''-c'', ''a.cpp'']"
  by (simp add: check_linker_call_def is_object_arg_def ends_with_starts)

lemma c_string_stops:
  "CHR 0x00 \<notin> set s \<Longrightarrow> c_string (s @ CHR 0x00 # rest) = Inr s"
  by (simp add: c_string_def find_char_in_append)

lemma c_string_undefined: "CHR 0x00 \<notin> set buff \<Longrightarrow> c_string buff = Inl Undefined"
  by (simp add: c_string_def find_char_in_None [THEN iffD2])

text \<open>A shorter datagram after a longer one: the end of the longer one is printed again.\<close>

lemma stale_bytes_printed:
  assumes "length b < length a" "length a < BUFF_SZ" "CHR 0x00 \<notin> set a" "CHR 0x00 \<notin> set b"
    and "length buff = BUFF_SZ" "buff ! length a = CHR 0x00"
  shows "listen_adv buff [Inr a, Inr b] = ([broadcast_line a, broadcast_line (b @ drop (length b) a)], None)"
proof -
  obtain rest where r: "drop (length a) buff = CHR 0x00 # rest"
    using assms(2,5,6) by (metis Cons_nth_drop_Suc)
  have b1: "receive_into buff a = a @ CHR 0x00 # rest" using assms(2) r by (simp add: receive_into_def)
  have b2: "receive_into (a @ CHR 0x00 # rest) b = (b @ drop (length b) a) @ CHR 0x00 # rest"
    using assms(1,2) by (simp add: receive_into_def)
  have "CHR 0x00 \<notin> set (b @ drop (length b) a)" using assms(3,4) by (auto dest: in_set_dropD)
  then have "c_string (b @ drop (length b) a @ CHR 0x00 # rest) = Inr (b @ drop (length b) a)"
    using c_string_stops [of "b @ drop (length b) a" rest] by simp
  then show ?thesis using assms(3) by (simp add: b1 b2 c_string_stops Let_def)
qed

text \<open>A datagram that fills the buffer has no end that the listener finds.\<close>

lemma full_buffer_undefined:
  assumes "BUFF_SZ \<le> length d" "CHR 0x00 \<notin> set d" "length buff = BUFF_SZ"
  shows "listen_adv buff (Inr d # events) = ([], Some Undefined)"
proof -
  have "CHR 0x00 \<notin> set (receive_into buff d)"
    using assms by (auto simp: receive_into_def dest: in_set_takeD)
  then show ?thesis by (simp add: c_string_undefined)
qed

text \<open>One error of the socket ends the program, with exit code 0.\<close>

lemma receive_error_exits:
  "listen_adv buff events = (printed, None) \<Longrightarrow> legacy_main True buff (events @ [Inl (Throw e)]) = Inr (printed, Some 0)"
proof -
  assume "listen_adv buff events = (printed, None)"
  then have "listen_adv buff (events @ [Inl (Throw e)]) = (printed, Some (Throw e))"
    by (induction buff events arbitrary: printed rule: listen_adv.induct)
      (auto simp: Let_def split: sum.splits prod.splits)
  then show ?thesis by (simp add: legacy_main_def)
qed

lemma adv_stopped: "adv_pending s = Nothing_Pending \<Longrightarrow> fold adv_completion oks s = s"
  by (induction oks arbitrary: s) (simp_all add: adv_completion_def)

lemma adv_sent_fold:
  assumes "adv_pending s = Broadcast_Timer"
  shows "adv_sent (fold adv_completion oks s) = adv_sent s @ replicate (length (takeWhile id oks) div 2) DUMMY_MSG"
  using assms
proof (induction oks arbitrary: s rule: induct_list012)
  case (3 a b oks)
  show ?case
  proof (cases "a \<and> b")
    case True
    let ?s = "adv_completion b (adv_completion a s)"
    have "adv_pending ?s = Broadcast_Timer" "adv_sent ?s = adv_sent s @ [DUMMY_MSG]"
      using True "3.prems" by (simp_all add: adv_completion_def)
    then show ?thesis using "3.IH"(1) [of ?s] True by simp
  next
    case False
    then have "adv_pending (adv_completion b (adv_completion a s)) = Nothing_Pending"
        "adv_sent (adv_completion b (adv_completion a s)) = adv_sent s"
      using "3.prems" by (auto simp: adv_completion_def)
    then show ?thesis using False adv_stopped by auto
  qed
qed (auto simp: adv_completion_def)

lemma listen_prints_same:
  assumes "CHR 0x00 \<notin> set d" "length d < BUFF_SZ" "length buff = BUFF_SZ" "buff ! length d = CHR 0x00"
  shows "listen_adv buff (replicate n (Inr d)) = (replicate n (broadcast_line d), None)"
  using assms(3,4)
proof (induction n arbitrary: buff)
  case (Suc n)
  obtain rest where r: "drop (length d) buff = CHR 0x00 # rest"
    using assms(2) Suc.prems by (metis Cons_nth_drop_Suc)
  have b: "receive_into buff d = d @ CHR 0x00 # rest" using assms(2) r by (simp add: receive_into_def)
  have "length (d @ CHR 0x00 # rest) = BUFF_SZ" using r assms(2) Suc.prems(1) by (metis append_take_drop_id length_append length_take min.absorb4)
  then have "listen_adv (d @ CHR 0x00 # rest) (replicate n (Inr d)) = (replicate n (broadcast_line d), None)"
    by (intro Suc.IH) simp_all
  then show ?case using assms(1) by (simp add: b c_string_stops)
qed simp

section \<open>Properties\<close>





end
