(* ===== verification/Job_Server.thy ===== *)
theory Job_Server
  imports DB_Prelude "HOL-Library.Multiset"
begin

text \<open>
  \<open>src/dummy.cpp\<close>: the server of FASTBuild, another distributed build system, kept in the repository as
  a pattern. Clients connect and say how many jobs they have; the server asks the neediest of them for as
  many as it has places, and holds a job back until the tool it needs has been copied from a client.

  The file uses classes that are not in the repository. Of these the model takes what the code calls as a
  record of functions (\<open>js_env\<close>); what they do elsewhere (a message that is sent, a job that is handed to
  the job queue, a connection that is closed) is an effect that a handler returns. The code has
  assertions, which a release leaves out; the model is the release. A pointer to a client is its
  connection, a pointer to a tool manifest its tool.
\<close>

section \<open>Jobs, clients, tools\<close>

record js_job =
  job_user :: "nat option"
  job_payload :: string
  job_tool :: u64
  job_level :: int

datatype js_message =
    Msg_Connection (conn_version: nat) (conn_platform: nat) (conn_minor: nat) (conn_jobs: u32) (conn_host: string)
  | Msg_Status (status_jobs: u32)
  | Msg_No_Job_Available
  | Msg_Job (msg_job_tool: u64) (msg_job_level: int)
  | Msg_Manifest (msg_manifest_tool: u64)
  | Msg_File (msg_file_tool: u64) (msg_file_id: u32)
  | Msg_Unknown

record js_client =
  jc_connection :: nat
  jc_current :: "js_message option"
  jc_jobs_available :: u32
  jc_jobs_requested :: u32
  jc_jobs_active :: u32
  jc_minor :: nat
  jc_host :: string
  jc_waiting :: "js_job list"

record 'm js_tool =
  tool_id :: u64
  tool_manifest :: 'm
  tool_owner :: "nat option"

record 'm js_server =
  should_exit :: bool
  client_list :: "js_client list"
  tools :: "'m js_tool list"

datatype js_effect =
    Disconnect nat
  | Send_Connection_Ack nat
  | Send_Request_Job nat
  | Send_Request_Manifest nat u64
  | Send_Request_File nat u64 u32
  | Send_Job_Result nat bool js_job bool
  | Queue_Job js_job
  | Cancel_Jobs_Of nat
  | Delete_Job js_job
  | Free_Job js_job
  | Wake_Main_Thread
  | Touch_Files u64

datatype build_result = Build_Ok | Build_Failed | Build_Other

text \<open>What is not in the repository: the layout of messages, the constructor and the order of clients, the
  choice of a compression, and the manifests.\<close>

record 'm js_env =
  as_message :: "string \<Rightarrow> js_message"
  has_payload :: "js_message \<Rightarrow> bool"
  own_platform :: nat
  fresh_client :: "nat \<Rightarrow> js_client"
  sort_clients :: "js_client list \<Rightarrow> js_client list"
  result_level :: "int \<Rightarrow> bool \<Rightarrow> int"
  new_manifest :: "u64 \<Rightarrow> 'm"
  is_synchronized :: "'m \<Rightarrow> bool"
  file_count :: "'m \<Rightarrow> nat"
  file_missing :: "'m \<Rightarrow> nat \<Rightarrow> bool"
  sync_status :: "'m \<Rightarrow> (u32 \<times> u32) option"
  load_manifest :: "string \<Rightarrow> 'm \<Rightarrow> bool \<times> 'm"
  store_file :: "u32 \<Rightarrow> string \<Rightarrow> 'm \<Rightarrow> bool \<times> 'm"
  cancel_files :: "'m \<Rightarrow> 'm"
  mark_file :: "nat \<Rightarrow> 'm \<Rightarrow> 'm"

definition KVERSION_MAJOR :: nat where "KVERSION_MAJOR = 22"

section \<open>Lookup\<close>

definition find_client :: "nat \<Rightarrow> js_client list \<Rightarrow> js_client option" where
  "find_client c cs = find (\<lambda>x. jc_connection x = c) cs"

definition upd_client :: "nat \<Rightarrow> (js_client \<Rightarrow> js_client) \<Rightarrow> 'm js_server \<Rightarrow> 'm js_server" where
  "upd_client c f srv = srv\<lparr>client_list := map (\<lambda>x. if jc_connection x = c then f x else x) (client_list srv)\<rparr>"

definition find_tool :: "u64 \<Rightarrow> 'm js_server \<Rightarrow> 'm js_tool option" where
  "find_tool t srv = find (\<lambda>x. tool_id x = t) (tools srv)"

definition upd_tool :: "u64 \<Rightarrow> ('m js_tool \<Rightarrow> 'm js_tool) \<Rightarrow> 'm js_server \<Rightarrow> 'm js_server" where
  "upd_tool t f srv = srv\<lparr>tools := map (\<lambda>x. if tool_id x = t then f x else x) (tools srv)\<rparr>"

text \<open>The user data of a job is the null pointer once the job was cancelled.\<close>

definition get_host_for_job :: "js_job \<Rightarrow> 'm js_server \<Rightarrow> string result" where
  "get_host_for_job job srv =
     (case job_user job of
        None \<Rightarrow> Inr []
      | Some c \<Rightarrow> (case find_client c (client_list srv) of None \<Rightarrow> Inl Undefined | Some cs \<Rightarrow> Inr (jc_host cs)))"

text \<open>The first tool that is being copied, with what is done and what there is to do.\<close>

definition is_synching_tool :: "'m js_env \<Rightarrow> 'm js_server \<Rightarrow> (u32 \<times> u32) option" where
  "is_synching_tool env srv =
     (case find (\<lambda>t. \<not> is_synchronized env (tool_manifest t) \<and> sync_status env (tool_manifest t) \<noteq> None) (tools srv) of
        None \<Rightarrow> None
      | Some t \<Rightarrow> sync_status env (tool_manifest t))"

section \<open>Files of a tool\<close>

text \<open>\<open>RequestMissingFiles\<close>: the loop over the files, each asked for at most once.\<close>

definition request_missing :: "'m js_env \<Rightarrow> nat \<Rightarrow> 'm js_tool \<Rightarrow> 'm js_tool \<times> js_effect list" where
  "request_missing env c tool =
     foldl (\<lambda>(t, es) i.
        if file_missing env (tool_manifest t) i
        then (t\<lparr>tool_manifest := mark_file env i (tool_manifest t), tool_owner := Some c\<rparr>,
              es @ [Send_Request_File c (tool_id t) (of_nat i)])
        else (t, es))
       (tool, []) [0..<file_count env (tool_manifest tool)]"

definition request_missing_files :: "'m js_env \<Rightarrow> nat \<Rightarrow> u64 \<Rightarrow> 'm js_server \<Rightarrow> 'm js_server \<times> js_effect list" where
  "request_missing_files env c t srv =
     (case find_tool t srv of
        None \<Rightarrow> (srv, [])
      | Some tool \<Rightarrow> (let (tool', es) = request_missing env c tool in (upd_tool t (\<lambda>_. tool') srv, es)))"

text \<open>\<open>CheckWaitingJobs\<close>: the waiting jobs of a client, from the last to the first.\<close>

fun scan_waiting :: "u64 \<Rightarrow> nat \<Rightarrow> js_job list \<Rightarrow> js_effect list \<Rightarrow> js_job list \<times> js_effect list" where
  "scan_waiting t 0 jobs es = (jobs, es)"
| "scan_waiting t (Suc i) jobs es =
     (if job_tool (jobs ! i) = t then scan_waiting t i (take i jobs @ drop (Suc i) jobs) (es @ [Queue_Job (jobs ! i)])
      else scan_waiting t i jobs es)"

fun check_clients :: "u64 \<Rightarrow> js_client list \<Rightarrow> js_client list \<times> js_effect list" where
  "check_clients t [] = ([], [])"
| "check_clients t (c # cs) =
     (let (jobs, es) = scan_waiting t (length (jc_waiting c)) (jc_waiting c) [];
          (cs', es') = check_clients t cs
      in (c\<lparr>jc_waiting := jobs\<rparr> # cs', es @ es'))"

definition check_waiting_jobs :: "u64 \<Rightarrow> 'm js_server \<Rightarrow> 'm js_server \<times> js_effect list" where
  "check_waiting_jobs t srv = (let (cs, es) = check_clients t (client_list srv) in (srv\<lparr>client_list := cs\<rparr>, es))"

section \<open>Connections\<close>

definition on_connected :: "'m js_env \<Rightarrow> nat \<Rightarrow> 'm js_server \<Rightarrow> 'm js_server" where
  "on_connected env c srv = srv\<lparr>client_list := client_list srv @ [fresh_client env c]\<rparr>"

text \<open>The tools that were being copied from this connection: the expected files are no longer expected.\<close>

definition copied_from :: "'m js_env \<Rightarrow> nat \<Rightarrow> 'm js_tool \<Rightarrow> bool" where
  "copied_from env c t \<longleftrightarrow> \<not> is_synchronized env (tool_manifest t) \<and> tool_owner t = Some c"

definition cancel_tools :: "'m js_env \<Rightarrow> nat \<Rightarrow> 'm js_server \<Rightarrow> 'm js_server" where
  "cancel_tools env c srv =
     srv\<lparr>tools := map (\<lambda>t. if copied_from env c t
        then t\<lparr>tool_manifest := cancel_files env (tool_manifest t), tool_owner := None\<rparr> else t) (tools srv)\<rparr>"

text \<open>The loops over the other clients and their waiting jobs.\<close>

definition rerequest_files :: "'m js_env \<Rightarrow> u64 list \<Rightarrow> 'm js_server \<Rightarrow> 'm js_server \<times> js_effect list" where
  "rerequest_files env cancelled srv =
     foldl (\<lambda>(s, es) (c, j).
        if job_tool j \<in> set cancelled
        then (let (s', es') = request_missing_files env c (job_tool j) s in (s', es @ es'))
        else (s, es))
       (srv, []) (concat (map (\<lambda>x. map (Pair (jc_connection x)) (jc_waiting x)) (client_list srv)))"

definition on_disconnected :: "'m js_env \<Rightarrow> nat \<Rightarrow> 'm js_server \<Rightarrow> ('m js_server \<times> js_effect list) result" where
  "on_disconnected env c srv =
     (case find_client c (client_list srv) of
        None \<Rightarrow> Inl Undefined
      | Some cs \<Rightarrow>
          (let cancelled = map tool_id (filter (copied_from env c) (tools srv));
               srv1 = cancel_tools env c srv;
               srv2 = srv1\<lparr>client_list := filter (\<lambda>x. jc_connection x \<noteq> c) (client_list srv1)\<rparr>;
               (srv3, es) = rerequest_files env cancelled srv2
           in Inr (srv3, Cancel_Jobs_Of c # es @ map Delete_Job (jc_waiting cs))))"

section \<open>Messages\<close>

definition process_connection :: "'m js_env \<Rightarrow> nat \<Rightarrow> nat \<Rightarrow> nat \<Rightarrow> nat \<Rightarrow> u32 \<Rightarrow> string \<Rightarrow> 'm js_server \<Rightarrow> 'm js_server \<times> js_effect list" where
  "process_connection env c version platform minor jobs host srv =
     (if version \<noteq> KVERSION_MAJOR then (srv, [Disconnect c])
      else if platform \<noteq> own_platform env then (srv, [Disconnect c])
      else (upd_client c (\<lambda>cs. cs\<lparr>jc_jobs_available := jobs, jc_minor := minor, jc_host := host\<rparr>) srv,
            if minor \<ge> 3 then [Send_Connection_Ack c] else []))"

definition process_status :: "nat \<Rightarrow> u32 \<Rightarrow> 'm js_server \<Rightarrow> 'm js_server \<times> js_effect list" where
  "process_status c jobs srv = (upd_client c (\<lambda>cs. cs\<lparr>jc_jobs_available := jobs\<rparr>) srv, [Wake_Main_Thread])"

definition process_no_job_available :: "nat \<Rightarrow> 'm js_server \<Rightarrow> 'm js_server \<times> js_effect list" where
  "process_no_job_available c srv = (upd_client c (\<lambda>cs. cs\<lparr>jc_jobs_requested := jc_jobs_requested cs - 1\<rparr>) srv, [])"

definition new_job :: "'m js_env \<Rightarrow> js_client \<Rightarrow> u64 \<Rightarrow> int \<Rightarrow> string \<Rightarrow> js_job" where
  "new_job env cs t level payload =
     \<lparr>job_user = Some (jc_connection cs), job_payload = payload, job_tool = t, job_level = result_level env level (jc_minor cs \<ge> 4)\<rparr>"

definition hold_job :: "nat \<Rightarrow> js_job \<Rightarrow> 'm js_server \<Rightarrow> 'm js_server" where
  "hold_job c job srv = upd_client c (\<lambda>cs. cs\<lparr>jc_waiting := jc_waiting cs @ [job]\<rparr>) srv"

definition process_job :: "'m js_env \<Rightarrow> js_client \<Rightarrow> u64 \<Rightarrow> int \<Rightarrow> string \<Rightarrow> 'm js_server \<Rightarrow> 'm js_server \<times> js_effect list" where
  "process_job env cs t level payload srv =
     (let c = jc_connection cs;
          srv1 = upd_client c (\<lambda>cs. cs\<lparr>jc_jobs_requested := jc_jobs_requested cs - 1, jc_jobs_active := jc_jobs_active cs + 1\<rparr>) srv;
          job = new_job env cs t level payload
      in case find_tool t srv1 of
          Some tool \<Rightarrow>
            if is_synchronized env (tool_manifest tool) then (srv1, [Queue_Job job])
            else if tool_owner tool \<noteq> None then (hold_job c job srv1, [])
            else
              (let srv2 = upd_tool t (\<lambda>x. x\<lparr>tool_owner := Some c\<rparr>) srv1
               in if file_count env (tool_manifest tool) \<noteq> 0
                  then (let (srv3, es) = request_missing_files env c t srv2 in (hold_job c job srv3, es))
                  else (hold_job c job srv2, [Send_Request_Manifest c t]))
        | None \<Rightarrow>
            (hold_job c job (srv1\<lparr>tools := tools srv1 @ [\<lparr>tool_id = t, tool_manifest = new_manifest env t, tool_owner = Some c\<rparr>]\<rparr>),
             [Send_Request_Manifest c t]))"

definition process_manifest :: "'m js_env \<Rightarrow> nat \<Rightarrow> u64 \<Rightarrow> string \<Rightarrow> 'm js_server \<Rightarrow> ('m js_server \<times> js_effect list) result" where
  "process_manifest env c t payload srv =
     (case find_tool t srv of
        None \<Rightarrow> Inl Undefined
      | Some tool \<Rightarrow>
          (let (ok, m) = load_manifest env payload (tool_manifest tool);
               srv1 = upd_tool t (\<lambda>x. x\<lparr>tool_manifest := m\<rparr>) srv
           in if \<not> ok then Inr (srv1, [Disconnect c])
              else if is_synchronized env m then Inr (check_waiting_jobs t srv1)
              else Inr (request_missing_files env c t srv1)))"

definition process_file :: "'m js_env \<Rightarrow> nat \<Rightarrow> u64 \<Rightarrow> u32 \<Rightarrow> string \<Rightarrow> 'm js_server \<Rightarrow> ('m js_server \<times> js_effect list) result" where
  "process_file env c t file payload srv =
     (case find_tool t srv of
        None \<Rightarrow> Inl Undefined
      | Some tool \<Rightarrow>
          (let (ok, m) = store_file env file payload (tool_manifest tool);
               srv1 = upd_tool t (\<lambda>x. x\<lparr>tool_manifest := m\<rparr>) srv
           in if \<not> ok then Inr (srv1, [Disconnect c])
              else if \<not> is_synchronized env m then Inr (srv1, [])
              else Inr (check_waiting_jobs t (upd_tool t (\<lambda>x. x\<lparr>tool_owner := None\<rparr>) srv1))))"

definition process_message ::
    "'m js_env \<Rightarrow> js_client \<Rightarrow> js_message \<Rightarrow> string \<Rightarrow> 'm js_server \<Rightarrow> ('m js_server \<times> js_effect list) result" where
  "process_message env cs msg payload srv =
     (let c = jc_connection cs in
      case msg of
        Msg_Connection version platform minor jobs host \<Rightarrow> Inr (process_connection env c version platform minor jobs host srv)
      | Msg_Status jobs \<Rightarrow> Inr (process_status c jobs srv)
      | Msg_No_Job_Available \<Rightarrow> Inr (process_no_job_available c srv)
      | Msg_Job t level \<Rightarrow> Inr (process_job env cs t level payload srv)
      | Msg_Manifest t \<Rightarrow> process_manifest env c t payload srv
      | Msg_File t file \<Rightarrow> process_file env c t file payload srv
      | Msg_Unknown \<Rightarrow> Inr (srv, [Disconnect c]))"

text \<open>\<open>OnReceive\<close>: the data is a message, or the payload of the last one.\<close>

definition on_receive :: "'m js_env \<Rightarrow> nat \<Rightarrow> string \<Rightarrow> 'm js_server \<Rightarrow> ('m js_server \<times> js_effect list) result" where
  "on_receive env c data srv =
     (case find_client c (client_list srv) of
        None \<Rightarrow> Inl Undefined
      | Some cs \<Rightarrow>
          (let run = (\<lambda>msg payload. bind_r (process_message env cs msg payload srv) (\<lambda>(srv1, es).
                 Inr (upd_client c (\<lambda>x. x\<lparr>jc_current := None\<rparr>) srv1, es)))
           in case jc_current cs of
               None \<Rightarrow>
                 if has_payload env (as_message env data)
                 then Inr (upd_client c (\<lambda>x. x\<lparr>jc_current := Some (as_message env data)\<rparr>) srv, [])
                 else run (as_message env data) []
             | Some msg \<Rightarrow> run msg data))"

section \<open>The main thread\<close>

text \<open>The places left after what is requested and in progress; \<open>int32_t\<close> arithmetic that leaves its range is
  undefined. \<open>Inr 0\<close> is the early return.\<close>

fun slots_left :: "int \<Rightarrow> js_client list \<Rightarrow> int result" where
  "slots_left n [] = Inr n"
| "slots_left n (c # cs) =
     (let n' = n - sint (jc_jobs_requested c + jc_jobs_active c)
      in if n' < - (2 ^ 31) \<or> 2 ^ 31 \<le> n' then Inl Undefined
         else if n' \<le> 0 then Inr 0 else slots_left n' cs)"

text \<open>One pass over the clients; \<open>locked\<close> says which of them are not free at that moment.\<close>

fun request_pass :: "(nat \<Rightarrow> bool) \<Rightarrow> nat \<Rightarrow> js_client list \<Rightarrow> js_client list \<times> nat \<times> js_effect list" where
  "request_pass locked n [] = ([], n, [])"
| "request_pass locked n (c # cs) =
     (if jc_jobs_requested c \<ge> jc_jobs_available c \<or> locked (jc_connection c)
      then (let (cs', n', es) = request_pass locked n cs in (c # cs', n', es))
      else
        (let c' = c\<lparr>jc_jobs_requested := jc_jobs_requested c + 1\<rparr>
         in if n - 1 = 0 then (c' # cs, 0, [Send_Request_Job (jc_connection c)])
            else (let (cs', n', es) = request_pass locked (n - 1) cs
                  in (c' # cs', n', Send_Request_Job (jc_connection c) # es))))"

lemma request_pass_spends:
  "request_pass locked n cs = (cs', n', es) \<Longrightarrow> 0 < n \<Longrightarrow> n' + length es = n"
proof (induction locked n cs arbitrary: cs' n' es rule: request_pass.induct)
  case (2 locked n c cs)
  show ?case
  proof (cases "jc_jobs_requested c \<ge> jc_jobs_available c \<or> locked (jc_connection c) \<or> n - 1 = 0")
    case True
    then show ?thesis using 2 by (auto simp: Let_def split: if_splits prod.splits)
  next
    case False
    obtain cs1 n1 es1 where r: "request_pass locked (n - 1) cs = (cs1, n1, es1)" by (metis prod_cases3)
    then have "n1 + length es1 = n - 1" using 2(2) [OF _ _ _ r] False by auto
    then show ?thesis using "2.prems" r False by (auto simp: Let_def)
  qed
qed simp

text \<open>The passes go on as long as the last one requested a job; \<open>locked k\<close> is for the \<open>k\<close>-th.\<close>

function request_jobs :: "(nat \<Rightarrow> nat \<Rightarrow> bool) \<Rightarrow> nat \<Rightarrow> nat \<Rightarrow> js_client list \<Rightarrow> js_client list \<times> js_effect list" where
  "request_jobs locked k n cs =
     (if n = 0 then (cs, [])
      else case request_pass (locked k) n cs of (cs1, n1, es) \<Rightarrow>
        if es = [] then (cs1, [])
        else (let (cs2, es2) = request_jobs locked (Suc k) n1 cs1 in (cs2, es @ es2)))"
  by pat_completeness auto
termination
  by (relation "measure (\<lambda>(locked, k, n, cs). n)") (auto dest!: request_pass_spends [OF sym])

declare request_jobs.simps [simp del]

definition find_needy_clients ::
    "'m js_env \<Rightarrow> u32 \<Rightarrow> (nat \<Rightarrow> nat \<Rightarrow> bool) \<Rightarrow> 'm js_server \<Rightarrow> ('m js_server \<times> js_effect list) result" where
  "find_needy_clients env cpus locked srv =
     (if should_exit srv then Inr (srv, [])
      else if sint cpus = 0 then Inr (srv, [])
      else if sint cpus + 1 = 2 ^ 31 then Inl Undefined
      else bind_r (slots_left (sint cpus + 1) (client_list srv)) (\<lambda>n.
        if n \<le> 0 then Inr (srv, [])
        else (let (cs, es) = request_jobs locked 0 (nat n) (sort_clients env (client_list srv))
              in Inr (srv\<lparr>client_list := cs\<rparr>, es))))"

text \<open>The jobs that the job queue gives back, with their results.\<close>

definition finalize_job :: "js_job \<Rightarrow> build_result \<Rightarrow> 'm js_server \<Rightarrow> 'm js_server \<times> js_effect list" where
  "finalize_job job r srv =
     (if r = Build_Ok \<or> r = Build_Failed
      then case Option.bind (job_user job) (\<lambda>c. find_client c (client_list srv)) of
          None \<Rightarrow> (srv, [Free_Job job])
        | Some cs \<Rightarrow>
            (upd_client (jc_connection cs) (\<lambda>x. x\<lparr>jc_jobs_active := jc_jobs_active x - 1\<rparr>) srv,
             [Send_Job_Result (jc_connection cs) (job_level job \<noteq> 0) job (r = Build_Ok), Free_Job job])
      else (srv, [Free_Job job]))"

fun finalize_completed_jobs :: "(js_job \<times> build_result) list \<Rightarrow> 'm js_server \<Rightarrow> 'm js_server \<times> js_effect list" where
  "finalize_completed_jobs [] srv = (srv, [])"
| "finalize_completed_jobs ((job, r) # done) srv =
     (let (srv1, es) = finalize_job job r srv; (srv2, es2) = finalize_completed_jobs done srv1 in (srv2, es @ es2))"

text \<open>Every four hours on Linux; the time since the last refresh is in seconds.\<close>

definition touch_toolchains :: "nat \<Rightarrow> 'm js_server \<Rightarrow> js_effect list" where
  "touch_toolchains elapsed srv = (if elapsed < 60 * 60 * 4 then [] else map (\<lambda>t. Touch_Files (tool_id t)) (tools srv))"

text \<open>One turn of \<open>ThreadFunc\<close>.\<close>

definition thread_turn ::
    "'m js_env \<Rightarrow> (js_job \<times> build_result) list \<Rightarrow> u32 \<Rightarrow> (nat \<Rightarrow> nat \<Rightarrow> bool) \<Rightarrow> nat \<Rightarrow> 'm js_server
      \<Rightarrow> ('m js_server \<times> js_effect list) result" where
  "thread_turn env completed cpus locked elapsed srv =
     (if should_exit srv then Inr (srv, [])
      else let (srv1, es1) = finalize_completed_jobs completed srv
           in bind_r (find_needy_clients env cpus locked srv1) (\<lambda>(srv2, es2).
                Inr (srv2, es1 @ es2 @ touch_toolchains elapsed srv2)))"

section \<open>The jobs that are asked for\<close>

definition asked :: "js_client \<Rightarrow> js_client \<Rightarrow> bool" where
  "asked c c' \<longleftrightarrow> (\<exists>r. c' = c\<lparr>jc_jobs_requested := r\<rparr> \<and> jc_jobs_requested c \<le> r
     \<and> r \<le> max (jc_jobs_requested c) (jc_jobs_available c))"

definition total_requested :: "js_client list \<Rightarrow> nat" where
  "total_requested cs = sum_list (map (\<lambda>c. unat (jc_jobs_requested c)) cs)"

definition reserved :: "js_client list \<Rightarrow> int" where
  "reserved cs = sum_list (map (\<lambda>c. sint (jc_jobs_requested c + jc_jobs_active c)) cs)"

lemma asked_refl: "asked c c"
  by (auto simp: asked_def intro!: exI [of _ "jc_jobs_requested c"])

lemma asked_trans: "asked a b \<Longrightarrow> asked b c \<Longrightarrow> asked a c"
  by (auto simp: asked_def max_def split: if_splits)

lemma asked_one:
  assumes "jc_jobs_requested c < jc_jobs_available c"
  shows "asked c (c\<lparr>jc_jobs_requested := jc_jobs_requested c + 1\<rparr>)"
    "unat (jc_jobs_requested c + 1) = Suc (unat (jc_jobs_requested c))"
proof -
  have "jc_jobs_requested c + 1 \<le> jc_jobs_available c" "jc_jobs_requested c \<le> jc_jobs_requested c + 1"
    using assms by (unat_arith, unat_arith)
  then show "asked c (c\<lparr>jc_jobs_requested := jc_jobs_requested c + 1\<rparr>)"
    by (auto simp: asked_def max_def intro!: exI [of _ "jc_jobs_requested c + 1"])
  show "unat (jc_jobs_requested c + 1) = Suc (unat (jc_jobs_requested c))" using assms by unat_arith
qed

lemma request_pass_asks:
  "request_pass locked n cs = (cs', n', es) \<Longrightarrow>
     list_all2 asked cs cs' \<and> total_requested cs' = total_requested cs + length es
     \<and> set es \<subseteq> Send_Request_Job ` jc_connection ` set cs
     \<and> (0 < n' \<longrightarrow> es = [] \<longrightarrow> (\<forall>c \<in> set cs'. jc_jobs_requested c \<ge> jc_jobs_available c \<or> locked (jc_connection c)))"
proof (induction locked n cs arbitrary: cs' n' es rule: request_pass.induct)
  case (1 locked n)
  then show ?case by (simp add: total_requested_def)
next
  case (2 locked n c cs)
  show ?case
  proof (cases "jc_jobs_requested c \<ge> jc_jobs_available c \<or> locked (jc_connection c)")
    case True
    then obtain cs1 where r: "request_pass locked n cs = (cs1, n', es)" "cs' = c # cs1"
      using "2.prems" by (auto split: prod.splits)
    then show ?thesis using 2(1) [OF True r(1)] True by (auto simp: asked_refl total_requested_def)
  next
    case False
    then have one: "asked c (c\<lparr>jc_jobs_requested := jc_jobs_requested c + 1\<rparr>)"
        "unat (jc_jobs_requested c + 1) = Suc (unat (jc_jobs_requested c))" using asked_one [of c] by auto
    show ?thesis
    proof (cases "n - 1 = 0")
      case True
      then show ?thesis using "2.prems" False one by (auto simp: Let_def total_requested_def intro!: list.rel_refl asked_refl)
    next
      case more: False
      then obtain cs1 es1 where r: "request_pass locked (n - 1) cs = (cs1, n', es1)"
          "cs' = c\<lparr>jc_jobs_requested := jc_jobs_requested c + 1\<rparr> # cs1" "es = Send_Request_Job (jc_connection c) # es1"
        using "2.prems" False by (auto simp: Let_def split: prod.splits)
      then show ?thesis using 2(2) [OF _ _ more r(1)] False one by (auto simp: total_requested_def)
    qed
  qed
qed

lemma list_all2_asked_trans: "list_all2 asked xs ys \<Longrightarrow> list_all2 asked ys zs \<Longrightarrow> list_all2 asked xs zs"
  by (rule list_all2_trans [of asked asked asked]) (auto intro: asked_trans)

lemma asked_connections: "list_all2 asked cs cs' \<Longrightarrow> map jc_connection cs' = map jc_connection cs"
  by (induction rule: list_all2_induct) (auto simp: asked_def)

lemma request_jobs_asks:
  "request_jobs locked k n cs = (cs', es) \<Longrightarrow>
     list_all2 asked cs cs' \<and> total_requested cs' = total_requested cs + length es
     \<and> set es \<subseteq> Send_Request_Job ` jc_connection ` set cs \<and> length es \<le> n
     \<and> (length es < n \<longrightarrow> (\<exists>k. \<forall>c \<in> set cs'. jc_jobs_requested c \<ge> jc_jobs_available c \<or> locked k (jc_connection c)))"
proof (induction locked k n cs arbitrary: cs' es rule: request_jobs.induct)
  case (1 locked k n cs)
  show ?case
  proof (cases "n = 0")
    case True
    then show ?thesis using "1.prems" by (simp add: request_jobs.simps list.rel_refl asked_refl)
  next
    case False
    obtain cs1 n1 es1 where p: "request_pass (locked k) n cs = (cs1, n1, es1)" by (metis prod_cases3)
    note a = request_pass_asks [OF p] and spent = request_pass_spends [OF p]
    show ?thesis
    proof (cases "es1 = []")
      case True
      then have "cs' = cs1" "es = []" using "1.prems" p False by (simp_all add: request_jobs.simps)
      then show ?thesis using a True spent False by auto
    next
      case more: False
      obtain es2 where r: "request_jobs locked (Suc k) n1 cs1 = (cs', es2)" "es = es1 @ es2"
        using "1.prems" p False more by (subst (asm) request_jobs.simps) (auto split: prod.splits)
      note b = "1.IH" [OF False p [symmetric] refl more r(1)]
      have "set (map jc_connection cs1) = set (map jc_connection cs)" using asked_connections a by metis
      then have "jc_connection ` set cs1 = jc_connection ` set cs" by simp
      then show ?thesis using a b r(2) spent False list_all2_asked_trans [of cs cs1 cs'] by auto
    qed
  qed
qed

lemma slots_left_reserved:
  assumes "slots_left n cs = Inr m"
  shows "m = n - reserved cs \<and> 0 < m \<or> m = 0 \<or> (cs = [] \<and> m = n)"
  using assms
proof (induction cs arbitrary: n)
  case (Cons c cs)
  then show ?case by (fastforce simp: reserved_def Let_def split: if_splits)
qed (simp add: reserved_def)

section \<open>No job is lost\<close>

text \<open>The job that a message brings, if it is one.\<close>

definition job_of :: "'m js_env \<Rightarrow> js_client \<Rightarrow> js_message \<Rightarrow> string \<Rightarrow> js_job list" where
  "job_of env cs msg payload = (case msg of Msg_Job t level \<Rightarrow> [new_job env cs t level payload] | _ \<Rightarrow> [])"

definition jobs_in :: "'m js_env \<Rightarrow> nat \<Rightarrow> string \<Rightarrow> 'm js_server \<Rightarrow> js_job list" where
  "jobs_in env c data srv =
     (case find_client c (client_list srv) of
        None \<Rightarrow> []
      | Some cs \<Rightarrow>
          (case jc_current cs of
             None \<Rightarrow> if has_payload env (as_message env data) then [] else job_of env cs (as_message env data) []
           | Some msg \<Rightarrow> job_of env cs msg data))"

text \<open>A run of the server: connections come and go, data arrives, and the main thread takes its turns, with
  any jobs that the job queue has completed.\<close>

inductive js_run :: "'m js_env \<Rightarrow> 'm js_server \<Rightarrow> js_job list \<Rightarrow> js_effect list \<Rightarrow> bool" for env where
  js_init: "js_run env \<lparr>should_exit = False, client_list = [], tools = []\<rparr> [] []"
| js_connect: "js_run env srv got es \<Longrightarrow> find_client c (client_list srv) = None \<Longrightarrow> js_run env (on_connected env c srv) got es"
| js_disconnect: "js_run env srv got es \<Longrightarrow> on_disconnected env c srv = Inr (srv', es') \<Longrightarrow> js_run env srv' got (es @ es')"
| js_receive: "js_run env srv got es \<Longrightarrow> on_receive env c data srv = Inr (srv', es') \<Longrightarrow>
     js_run env srv' (got @ jobs_in env c data srv) (es @ es')"
| js_turn: "js_run env srv got es \<Longrightarrow> thread_turn env completed cpus locked elapsed srv = Inr (srv', es') \<Longrightarrow>
     js_run env srv' got (es @ es')"
| js_exit: "js_run env srv got es \<Longrightarrow> js_run env (srv\<lparr>should_exit := True\<rparr>) got es"

fun queued_jobs :: "js_effect list \<Rightarrow> js_job multiset" where
  "queued_jobs [] = {#}"
| "queued_jobs (e # es) = (case e of Queue_Job j \<Rightarrow> {#j#} | _ \<Rightarrow> {#}) + queued_jobs es"

fun dropped_jobs :: "js_effect list \<Rightarrow> js_job multiset" where
  "dropped_jobs [] = {#}"
| "dropped_jobs (e # es) = (case e of Delete_Job j \<Rightarrow> {#j#} | _ \<Rightarrow> {#}) + dropped_jobs es"

definition waiting_jobs :: "js_client list \<Rightarrow> js_job multiset" where
  "waiting_jobs cs = sum_list (map (\<lambda>c. mset (jc_waiting c)) cs)"

lemma queued_jobs_append [simp]: "queued_jobs (es @ es') = queued_jobs es + queued_jobs es'"
  by (induction es) simp_all

lemma dropped_jobs_append [simp]: "dropped_jobs (es @ es') = dropped_jobs es + dropped_jobs es'"
  by (induction es) simp_all

lemma waiting_jobs_simps [simp]:
  "waiting_jobs [] = {#}" "waiting_jobs (c # cs) = mset (jc_waiting c) + waiting_jobs cs"
  "waiting_jobs (cs @ cs') = waiting_jobs cs + waiting_jobs cs'"
  by (simp_all add: waiting_jobs_def)

text \<open>Effects that are not about jobs, and steps that keep the waiting jobs.\<close>

definition no_jobs :: "js_effect list \<Rightarrow> bool" where
  "no_jobs es \<longleftrightarrow> queued_jobs es = {#} \<and> dropped_jobs es = {#}"

definition keeps_jobs :: "'m js_server \<Rightarrow> 'm js_server \<Rightarrow> bool" where
  "keeps_jobs srv srv' \<longleftrightarrow> map jc_connection (client_list srv') = map jc_connection (client_list srv)
     \<and> waiting_jobs (client_list srv') = waiting_jobs (client_list srv)"

lemma no_jobs_simps [simp]:
  "no_jobs []" "no_jobs (es @ es') = (no_jobs es \<and> no_jobs es')"
  "no_jobs (Disconnect c # es) = no_jobs es" "no_jobs (Send_Connection_Ack c # es) = no_jobs es"
  "no_jobs (Send_Request_Job c # es) = no_jobs es" "no_jobs (Send_Request_Manifest c t # es) = no_jobs es"
  "no_jobs (Send_Request_File c t i # es) = no_jobs es" "no_jobs (Send_Job_Result c b j b' # es) = no_jobs es"
  "no_jobs (Cancel_Jobs_Of c # es) = no_jobs es" "no_jobs (Free_Job j # es) = no_jobs es"
  "no_jobs (Wake_Main_Thread # es) = no_jobs es" "no_jobs (Touch_Files t # es) = no_jobs es"
  by (auto simp: no_jobs_def)

lemma keeps_jobs_refl [simp]: "keeps_jobs srv srv"
  by (simp add: keeps_jobs_def)

lemma keeps_jobs_trans: "keeps_jobs a b \<Longrightarrow> keeps_jobs b c \<Longrightarrow> keeps_jobs a c"
  by (simp add: keeps_jobs_def)

lemma keeps_jobs_upd_client:
  assumes "\<And>x. jc_connection (f x) = jc_connection x" "\<And>x. jc_waiting (f x) = jc_waiting x"
  shows "keeps_jobs srv (upd_client c f srv)"
proof -
  have "waiting_jobs (map (\<lambda>x. if jc_connection x = c then f x else x) cs) = waiting_jobs cs" for cs
    by (induction cs) (simp_all add: assms(2))
  then show ?thesis by (simp add: keeps_jobs_def upd_client_def assms(1) if_distrib [of jc_connection] cong: if_cong)
qed

lemma keeps_jobs_tools [simp]: "keeps_jobs srv (upd_tool t f srv)" "keeps_jobs srv (srv\<lparr>tools := ts\<rparr>)"
  by (simp_all add: keeps_jobs_def upd_tool_def)

lemma request_missing_no_jobs: "no_jobs (snd (request_missing env c tool))"
proof -
  have "no_jobs (snd (foldl (\<lambda>(t, es) i. if file_missing env (tool_manifest t) i
      then (t\<lparr>tool_manifest := mark_file env i (tool_manifest t), tool_owner := Some c\<rparr>, es @ [Send_Request_File c (tool_id t) (of_nat i)])
      else (t, es)) (t, es) is))" if "no_jobs es" for t es "is"
    using that by (induction "is" arbitrary: t es) simp_all
  from this [of "[]" tool "[0..<file_count env (tool_manifest tool)]"] show ?thesis by (simp add: request_missing_def)
qed

lemma request_missing_files_jobs:
  "keeps_jobs srv (fst (request_missing_files env c t srv))" "no_jobs (snd (request_missing_files env c t srv))"
  using request_missing_no_jobs [of env c]
  by (auto simp: request_missing_files_def case_prod_beta Let_def split: option.split)

lemma scan_waiting_filter:
  "i \<le> length jobs \<Longrightarrow> scan_waiting t i jobs es =
     (filter (\<lambda>j. job_tool j \<noteq> t) (take i jobs) @ drop i jobs, es @ map Queue_Job (rev (filter (\<lambda>j. job_tool j = t) (take i jobs))))"
proof (induction i arbitrary: jobs es)
  case (Suc i)
  then have i: "i < length jobs" "take (Suc i) jobs = take i jobs @ [jobs ! i]" "drop i jobs = jobs ! i # drop (Suc i) jobs"
    by (simp_all add: take_Suc_conv_app_nth Cons_nth_drop_Suc)
  show ?case
    using i Suc.IH [of "take i jobs @ drop (Suc i) jobs" "es @ [Queue_Job (jobs ! i)]"] Suc.IH [of jobs es]
    by (auto simp: min_def)
qed simp

lemma queued_jobs_map [simp]: "queued_jobs (map Queue_Job js) = mset js" "dropped_jobs (map Queue_Job js) = {#}"
  "queued_jobs (map Delete_Job js) = {#}" "dropped_jobs (map Delete_Job js) = mset js"
  by (induction js) simp_all

lemma check_clients_jobs:
  "check_clients t cs = (cs', es) \<Longrightarrow> map jc_connection cs' = map jc_connection cs
     \<and> waiting_jobs cs = waiting_jobs cs' + queued_jobs es \<and> dropped_jobs es = {#}
     \<and> (\<forall>j. Queue_Job j \<in> set es \<longrightarrow> job_tool j = t) \<and> (\<forall>c \<in> set cs'. \<forall>j \<in> set (jc_waiting c). job_tool j \<noteq> t)"
proof (induction cs arbitrary: cs' es)
  case (Cons c cs)
  obtain cs1 es1 where r: "check_clients t cs = (cs1, es1)" by fastforce
  have p: "mset (filter (\<lambda>j. job_tool j \<noteq> t) xs) + mset (filter (\<lambda>j. job_tool j = t) xs) = mset xs" for xs
    by (induction xs) simp_all
  show ?case
    using Cons.prems Cons.IH [OF r] r p [of "jc_waiting c"]
    by (auto simp: scan_waiting_filter ac_simps rev_map)
qed simp

text \<open>A step that handles the new jobs \<open>new\<close>: each is queued, dropped or waits.\<close>

definition accounts :: "'m js_server \<Rightarrow> js_job list \<Rightarrow> 'm js_server \<Rightarrow> js_effect list \<Rightarrow> bool" where
  "accounts srv new srv' es \<longleftrightarrow>
     mset (map jc_connection (client_list srv')) = mset (map jc_connection (client_list srv))
     \<and> waiting_jobs (client_list srv) + mset new = waiting_jobs (client_list srv') + queued_jobs es + dropped_jobs es"

lemma accounts_keeps: "keeps_jobs srv srv' \<Longrightarrow> no_jobs es \<Longrightarrow> accounts srv [] srv' es"
  by (simp add: accounts_def keeps_jobs_def no_jobs_def)

lemma accounts_trans: "accounts a new b es \<Longrightarrow> accounts b new' c es' \<Longrightarrow> accounts a (new @ new') c (es @ es')"
  by (simp add: accounts_def) (metis (no_types, lifting) add.assoc add.commute)

lemma accounts_then: "accounts a new b es \<Longrightarrow> keeps_jobs b c \<Longrightarrow> accounts a new c es"
  using accounts_trans [of a new b es "[]" c "[]"] accounts_keeps [of b c "[]"] by simp

lemma accounts_after: "keeps_jobs a b \<Longrightarrow> accounts b new c es \<Longrightarrow> accounts a new c es"
  using accounts_trans [of a "[]" b "[]" new c es] accounts_keeps [of a b "[]"] by simp

lemma find_client_Some:
  assumes "find_client c cs = Some x"
  shows "x \<in> set cs" "jc_connection x = c"
  using assms by (auto simp: find_client_def find_Some_iff)

lemma find_client_None: "find_client c cs = None \<longleftrightarrow> c \<notin> jc_connection ` set cs"
  by (auto simp: find_client_def find_None_iff)

lemma waiting_jobs_hold:
  assumes "c \<in> jc_connection ` set cs" "distinct (map jc_connection cs)"
  shows "waiting_jobs (map (\<lambda>x. if jc_connection x = c then x\<lparr>jc_waiting := jc_waiting x @ [j]\<rparr> else x) cs)
       = add_mset j (waiting_jobs cs)"
  using assms
proof (induction cs)
  case (Cons x cs)
  show ?case
  proof (cases "jc_connection x = c")
    case True
    then have "map (\<lambda>x. if jc_connection x = c then x\<lparr>jc_waiting := jc_waiting x @ [j]\<rparr> else x) cs = cs"
      using Cons.prems by (intro map_idI) (auto simp: image_iff)
    then show ?thesis using True by simp
  qed (use Cons in auto)
qed simp

lemma hold_job_accounts:
  assumes "c \<in> jc_connection ` set (client_list srv)" "distinct (map jc_connection (client_list srv))" "no_jobs es"
  shows "accounts srv [j] (hold_job c j srv) es"
  using assms waiting_jobs_hold [OF assms(1,2), of j]
  by (simp add: accounts_def hold_job_def upd_client_def no_jobs_def comp_def if_distrib [of jc_connection] cong: if_cong)

lemma keeps_jobs_connections: "keeps_jobs a b \<Longrightarrow> map jc_connection (client_list b) = map jc_connection (client_list a)"
  by (simp add: keeps_jobs_def)

lemma hold_job_after:
  assumes k: "keeps_jobs srv srv1" and c: "c \<in> jc_connection ` set (client_list srv)"
    and d: "distinct (map jc_connection (client_list srv))" and n: "no_jobs es"
  shows "accounts srv [j] (hold_job c j srv1) es"
proof -
  note m = keeps_jobs_connections [OF k]
  have "c \<in> jc_connection ` set (client_list srv1)" using c m by (metis list.set_map)
  then show ?thesis using accounts_after [OF k hold_job_accounts [OF _ _ n]] d m by simp
qed

lemma process_job_accounts:
  assumes c: "jc_connection cs \<in> jc_connection ` set (client_list srv)"
    and d: "distinct (map jc_connection (client_list srv))"
    and r: "process_job env cs t level payload srv = (srv', es)"
  shows "accounts srv [new_job env cs t level payload] srv' es"
proof -
  define c where "c = jc_connection cs"
  define srv1 where "srv1 = upd_client c (\<lambda>cs. cs\<lparr>jc_jobs_requested := jc_jobs_requested cs - 1, jc_jobs_active := jc_jobs_active cs + 1\<rparr>) srv"
  define srv2 where "srv2 = upd_tool t (\<lambda>x. x\<lparr>tool_owner := Some c\<rparr>) srv1"
  have k1: "keeps_jobs srv srv1" by (simp add: srv1_def keeps_jobs_upd_client)
  then have k2: "keeps_jobs srv srv2" by (simp add: srv2_def keeps_jobs_trans [OF k1])
  note h = hold_job_after [OF _ c d, folded c_def]
  note rm = request_missing_files_jobs [where srv = srv2 and env = env and c = c and t = t]
  show ?thesis
  proof (cases "find_tool t srv1")
    case None
    then show ?thesis using r keeps_jobs_trans [OF k1 keeps_jobs_tools(2)] h
      by (auto simp: process_job_def Let_def srv1_def [symmetric] c_def [symmetric])
  next
    case (Some tool)
    show ?thesis
    proof (cases "is_synchronized env (tool_manifest tool)")
      case True
      then show ?thesis using r Some k1
        by (auto simp: process_job_def Let_def srv1_def [symmetric] c_def [symmetric] accounts_def keeps_jobs_def)
    next
      case False
      then show ?thesis using r Some k1 k2 h rm keeps_jobs_trans [OF k2 rm(1)]
        by (auto simp: process_job_def Let_def srv1_def [symmetric] srv2_def [symmetric] c_def [symmetric]
            split: if_splits prod.splits)
    qed
  qed
qed

lemma check_waiting_jobs_accounts:
  assumes "check_waiting_jobs t srv = (srv', es)"
  shows "accounts srv [] srv' es"
proof -
  obtain cs where r: "check_clients t (client_list srv) = (cs, es)" "srv' = srv\<lparr>client_list := cs\<rparr>"
    using assms by (auto simp: check_waiting_jobs_def split: prod.splits)
  show ?thesis using check_clients_jobs [OF r(1)] r(2) by (simp add: accounts_def flip: mset_map)
qed

lemma process_manifest_accounts:
  assumes "process_manifest env c t payload srv = Inr (srv', es)"
  shows "accounts srv [] srv' es"
proof -
  obtain tool where f: "find_tool t srv = Some tool"
    using assms by (auto simp: process_manifest_def split: option.splits)
  obtain ok m where l: "load_manifest env payload (tool_manifest tool) = (ok, m)" by fastforce
  define srv1 where "srv1 = upd_tool t (\<lambda>x. x\<lparr>tool_manifest := m\<rparr>) srv"
  have k: "keeps_jobs srv srv1" by (simp add: srv1_def)
  have q: "process_manifest env c t payload srv =
      (if \<not> ok then Inr (srv1, [Disconnect c]) else if is_synchronized env m then Inr (check_waiting_jobs t srv1)
       else Inr (request_missing_files env c t srv1))"
    by (simp add: process_manifest_def f l srv1_def)
  note rm = request_missing_files_jobs [where srv = srv1 and env = env and c = c and t = t]
  show ?thesis
  proof (cases "ok \<and> is_synchronized env m")
    case True
    then show ?thesis using assms q check_waiting_jobs_accounts [of t srv1 srv' es] accounts_after [OF k] by simp
  next
    case False
    then show ?thesis using assms q rm k accounts_keeps [OF keeps_jobs_trans [OF k], of srv' es] accounts_keeps [OF k]
      by (auto split: if_splits)
  qed
qed

lemma process_file_accounts:
  assumes "process_file env c t file payload srv = Inr (srv', es)"
  shows "accounts srv [] srv' es"
proof -
  obtain tool where f: "find_tool t srv = Some tool"
    using assms by (auto simp: process_file_def split: option.splits)
  obtain ok m where l: "store_file env file payload (tool_manifest tool) = (ok, m)" by fastforce
  define srv1 where "srv1 = upd_tool t (\<lambda>x. x\<lparr>tool_manifest := m\<rparr>) srv"
  define srv2 where "srv2 = upd_tool t (\<lambda>x. x\<lparr>tool_owner := None\<rparr>) srv1"
  have k: "keeps_jobs srv srv1" by (simp add: srv1_def)
  have k2: "keeps_jobs srv srv2" by (simp add: srv2_def keeps_jobs_trans [OF k])
  have q: "process_file env c t file payload srv =
      (if \<not> ok then Inr (srv1, [Disconnect c]) else if \<not> is_synchronized env m then Inr (srv1, [])
       else Inr (check_waiting_jobs t srv2))"
    by (simp add: process_file_def f l srv1_def srv2_def)
  show ?thesis
  proof (cases "ok \<and> is_synchronized env m")
    case True
    then show ?thesis using assms q check_waiting_jobs_accounts [of t srv2 srv' es] accounts_after [OF k2] by simp
  next
    case False
    then show ?thesis using assms q accounts_keeps [OF k] by (auto split: if_splits)
  qed
qed

lemma process_message_accounts:
  assumes c: "find_client c (client_list srv) = Some cs"
    and d: "distinct (map jc_connection (client_list srv))"
    and r: "process_message env cs msg payload srv = Inr (srv', es)"
  shows "accounts srv (job_of env cs msg payload) srv' es"
proof -
  note m = find_client_Some [OF c]
  have k: "keeps_jobs srv (upd_client k f srv)"
    if "\<And>x. jc_connection (f x) = jc_connection x" "\<And>x. jc_waiting (f x) = jc_waiting x" for k f
    using that by (rule keeps_jobs_upd_client)
  show ?thesis
  proof (cases msg)
    case (Msg_Connection a b e f h)
    then show ?thesis using r k
      by (auto simp: process_message_def job_of_def process_connection_def Let_def intro!: accounts_keeps split: if_splits)
  next
    case (Msg_Job t level)
    then show ?thesis using r process_job_accounts [OF _ d, of cs env t level payload srv' es] m
      by (auto simp: process_message_def job_of_def Let_def)
  next
    case (Msg_Manifest t)
    then show ?thesis using r process_manifest_accounts [of env c t payload srv srv' es] m
      by (auto simp: process_message_def job_of_def Let_def)
  next
    case (Msg_File t f)
    then show ?thesis using r process_file_accounts [of env c t f payload srv srv' es] m
      by (auto simp: process_message_def job_of_def Let_def)
  qed (use r k in \<open>auto simp: process_message_def job_of_def process_status_def process_no_job_available_def Let_def
      intro!: accounts_keeps\<close>)
qed

lemma on_receive_accounts:
  assumes d: "distinct (map jc_connection (client_list srv))"
    and r: "on_receive env c data srv = Inr (srv', es)"
  shows "accounts srv (jobs_in env c data srv) srv' es"
proof -
  obtain cs where c: "find_client c (client_list srv) = Some cs"
    using r by (auto simp: on_receive_def split: option.splits)
  have handled: "accounts srv (job_of env cs msg payload) srv' es"
    if b: "bind_r (process_message env cs msg payload srv) (\<lambda>(srv1, es).
          Inr (upd_client c (\<lambda>x. x\<lparr>jc_current := None\<rparr>) srv1, es)) = Inr (srv', es)" for msg payload
  proof -
    obtain srv1 where p: "process_message env cs msg payload srv = Inr (srv1, es)"
        "srv' = upd_client c (\<lambda>x. x\<lparr>jc_current := None\<rparr>) srv1"
      using b by (auto simp: bind_r_Inr_iff)
    have "keeps_jobs srv1 srv'" unfolding p(2) by (rule keeps_jobs_upd_client) simp_all
    then show ?thesis by (rule accounts_then [OF process_message_accounts [OF c d p(1)]])
  qed
  have kept: "accounts srv [] (upd_client c (\<lambda>x. x\<lparr>jc_current := Some m\<rparr>) srv) []" for m
    by (intro accounts_keeps keeps_jobs_upd_client) simp_all
  show ?thesis
  proof (cases "jc_current cs")
    case None
    then show ?thesis using r c handled [of "as_message env data" "[]"] kept
      by (auto simp: on_receive_def jobs_in_def Let_def split: if_splits)
  next
    case (Some msg)
    then show ?thesis using r c handled [of msg data] by (simp add: on_receive_def jobs_in_def)
  qed
qed

lemma filter_client:
  assumes "find_client c cs = Some x" "distinct (map jc_connection cs)"
  shows "waiting_jobs cs = mset (jc_waiting x) + waiting_jobs (filter (\<lambda>y. jc_connection y \<noteq> c) cs)"
  using assms
proof (induction cs)
  case (Cons y cs)
  show ?case
  proof (cases "jc_connection y = c")
    case True
    then have "filter (\<lambda>y. jc_connection y \<noteq> c) cs = cs" using Cons.prems(2) by (intro filter_True) (auto simp: image_iff)
    then show ?thesis using True Cons.prems(1) by (simp add: find_client_def)
  next
    case False
    then show ?thesis using Cons by (simp add: find_client_def)
  qed
qed (simp add: find_client_def)

lemma rerequest_files_jobs:
  "keeps_jobs srv (fst (rerequest_files env ts srv))" "no_jobs (snd (rerequest_files env ts srv))"
proof -
  define f where "f = (\<lambda>(s, es) (c, j :: js_job). if job_tool j \<in> set ts
      then (let (s', es') = request_missing_files env c (job_tool j) s in (s', es @ es')) else (s, es))"
  have one: "keeps_jobs srv (fst (f (s, es) x)) \<and> no_jobs (snd (f (s, es) x))"
    if "keeps_jobs srv s" "no_jobs es" for s es x
    using that request_missing_files_jobs [where env = env and c = "fst x" and t = "job_tool (snd x)" and srv = s]
      keeps_jobs_trans [of srv s]
    by (simp add: f_def case_prod_beta Let_def)
  have "keeps_jobs srv (fst (foldl f (s, es) xs)) \<and> no_jobs (snd (foldl f (s, es) xs))"
    if "keeps_jobs srv s" "no_jobs es" for s es xs
    using that
  proof (induction xs arbitrary: s es)
    case (Cons x xs)
    obtain s' es' where q: "f (s, es) x = (s', es')" by fastforce
    then show ?case using one [OF Cons.prems, of x] Cons.IH [of s' es'] by simp
  qed simp
  from this [of srv "[]" "concat (map (\<lambda>x. map (Pair (jc_connection x)) (jc_waiting x)) (client_list srv))"]
  show "keeps_jobs srv (fst (rerequest_files env ts srv))" "no_jobs (snd (rerequest_files env ts srv))"
    by (simp_all add: rerequest_files_def f_def)
qed

lemma on_disconnected_jobs:
  assumes d: "distinct (map jc_connection (client_list srv))" and r: "on_disconnected env c srv = Inr (srv', es)"
  shows "map jc_connection (client_list srv') = filter (\<lambda>x. x \<noteq> c) (map jc_connection (client_list srv))
     \<and> waiting_jobs (client_list srv) = waiting_jobs (client_list srv') + queued_jobs es + dropped_jobs es"
proof -
  obtain cs where f: "find_client c (client_list srv) = Some cs"
    using r by (auto simp: on_disconnected_def split: option.splits)
  define ts where "ts = map tool_id (filter (copied_from env c) (tools srv))"
  define srv2 where "srv2 = (cancel_tools env c srv)\<lparr>client_list := filter (\<lambda>x. jc_connection x \<noteq> c) (client_list srv)\<rparr>"
  obtain srv3 es3 where q: "rerequest_files env ts srv2 = (srv3, es3)" by fastforce
  have s: "srv' = srv3" "es = Cancel_Jobs_Of c # es3 @ map Delete_Job (jc_waiting cs)"
    using r f q by (auto simp: on_disconnected_def Let_def ts_def srv2_def cancel_tools_def)
  have l: "client_list srv2 = filter (\<lambda>x. jc_connection x \<noteq> c) (client_list srv)" by (simp add: srv2_def)
  show ?thesis
    using rerequest_files_jobs [where env = env and ts = ts and srv = srv2] q filter_client [OF f d]
    by (simp add: s l keeps_jobs_def no_jobs_def filter_map comp_def)
qed

lemma finalize_keeps:
  "keeps_jobs srv (fst (finalize_completed_jobs completed srv))" "no_jobs (snd (finalize_completed_jobs completed srv))"
proof -
  have one: "keeps_jobs srv (fst (finalize_job job r srv)) \<and> no_jobs (snd (finalize_job job r srv))" for job r and srv :: "'a js_server"
    by (auto simp: finalize_job_def intro!: keeps_jobs_upd_client split: option.split)
  have "keeps_jobs srv (fst (finalize_completed_jobs completed srv)) \<and> no_jobs (snd (finalize_completed_jobs completed srv))"
  proof (induction completed srv rule: finalize_completed_jobs.induct)
    case (2 job r rest srv)
    obtain srv1 es1 where q: "finalize_job job r srv = (srv1, es1)" by fastforce
    then show ?case
      using one [where job = job and r = r and srv = srv] 2 [OF q [symmetric] refl] keeps_jobs_trans [of srv srv1]
      by (simp add: case_prod_beta Let_def)
  qed simp
  then show "keeps_jobs srv (fst (finalize_completed_jobs completed srv))" "no_jobs (snd (finalize_completed_jobs completed srv))" by auto
qed

text \<open>What the rest of the code base promises: a new client is for its connection and has nothing waiting, and
  sorting permutes.\<close>

definition env_ok :: "'m js_env \<Rightarrow> bool" where
  "env_ok env \<longleftrightarrow> (\<forall>c. jc_connection (fresh_client env c) = c \<and> jc_waiting (fresh_client env c) = [])
     \<and> (\<forall>cs. mset (sort_clients env cs) = mset cs)"

lemma asked_waiting: "list_all2 asked cs cs' \<Longrightarrow> waiting_jobs cs' = waiting_jobs cs"
  by (induction rule: list_all2_induct) (auto simp: asked_def)

lemma waiting_jobs_mset: "waiting_jobs cs = (\<Sum>c\<in>#mset cs. mset (jc_waiting c))"
  by (induction cs) simp_all

lemma find_needy_clients_cases:
  assumes r: "find_needy_clients env cpus locked srv = Inr (srv', es)"
  obtains "srv' = srv" "es = []"
  | n cs where "sint cpus + 1 < 2 ^ 31" "slots_left (sint cpus + 1) (client_list srv) = Inr n" "0 < n"
      "request_jobs locked 0 (nat n) (sort_clients env (client_list srv)) = (cs, es)" "srv' = srv\<lparr>client_list := cs\<rparr>"
proof (cases "should_exit srv \<or> sint cpus = 0")
  case True
  then have "find_needy_clients env cpus locked srv = Inr (srv, [])"
    unfolding find_needy_clients_def by (elim disjE) (simp_all only: if_True if_cancel simp_thms)
  then show thesis using r that(1) by simp
next
  case False
  have "sint cpus < 2 ^ 31" using sint_lt [of cpus] by simp
  moreover have "sint cpus + 1 \<noteq> 2 ^ 31" using r False by (auto simp: find_needy_clients_def simp del: power_numeral)
  ultimately have bound: "sint cpus + 1 < 2 ^ 31" by linarith
  then obtain n where n: "slots_left (sint cpus + 1) (client_list srv) = Inr n"
    using r False by (auto simp: find_needy_clients_def bind_r_Inr_iff simp del: power_numeral split: if_splits)
  obtain cs es1 where q: "request_jobs locked 0 (nat n) (sort_clients env (client_list srv)) = (cs, es1)" by fastforce
  have "find_needy_clients env cpus locked srv = (if n \<le> 0 then Inr (srv, []) else Inr (srv\<lparr>client_list := cs\<rparr>, es1))"
    using False bound n q by (simp add: find_needy_clients_def)
  then show thesis using r that(1) that(2) [OF bound n _ _] q by (cases "n \<le> 0") auto
qed

lemma requests_no_jobs: "set es \<subseteq> Send_Request_Job ` X \<Longrightarrow> no_jobs es"
  by (induction es) auto

lemma find_needy_clients_accounts:
  assumes s: "\<And>cs. mset (sort_clients env cs) = mset cs" and r: "find_needy_clients env cpus locked srv = Inr (srv', es)"
  shows "accounts srv [] srv' es"
  using r
proof (cases rule: find_needy_clients_cases)
  case 1
  then show ?thesis by (simp add: accounts_def)
next
  case (2 n cs)
  note a = request_jobs_asks [OF 2(4)]
  have "map jc_connection cs = map jc_connection (sort_clients env (client_list srv))" using asked_connections a by blast
  moreover have "waiting_jobs cs = waiting_jobs (client_list srv)"
    using a asked_waiting [of "sort_clients env (client_list srv)" cs] by (simp add: waiting_jobs_mset s)
  moreover have "no_jobs es" using a requests_no_jobs by blast
  ultimately show ?thesis using 2(5) s by (simp add: accounts_def no_jobs_def)
qed

lemma thread_turn_accounts:
  assumes s: "\<And>cs. mset (sort_clients env cs) = mset cs" and r: "thread_turn env completed cpus locked elapsed srv = Inr (srv', es)"
  shows "accounts srv [] srv' es"
proof (cases "should_exit srv")
  case True
  then show ?thesis using r by (simp add: thread_turn_def accounts_def)
next
  case False
  obtain srv1 es1 where f: "finalize_completed_jobs completed srv = (srv1, es1)" by fastforce
  obtain es2 where n: "find_needy_clients env cpus locked srv1 = Inr (srv', es2)" "es = es1 @ es2 @ touch_toolchains elapsed srv'"
    using r False f by (auto simp: thread_turn_def bind_r_Inr_iff)
  have t: "accounts srv' [] srv' (touch_toolchains elapsed srv')"
  proof (rule accounts_keeps)
    have "no_jobs (map (\<lambda>t. Touch_Files (tool_id t)) ts)" for ts :: "'a js_tool list" by (induction ts) simp_all
    then show "no_jobs (touch_toolchains elapsed srv')" by (simp add: touch_toolchains_def)
  qed simp
  have "accounts srv [] srv1 es1" using finalize_keeps [where completed = completed and srv = srv] f by (intro accounts_keeps) simp_all
  from accounts_trans [OF this accounts_trans [OF find_needy_clients_accounts [OF s n(1)] t]]
  show ?thesis using n(2) by simp
qed

lemma js_run_accounts:
  assumes "js_run env srv got es" "env_ok env"
  shows "distinct (map jc_connection (client_list srv))
     \<and> mset got = queued_jobs es + dropped_jobs es + waiting_jobs (client_list srv)"
  using assms
proof (induction rule: js_run.induct)
  case (js_connect srv got es c)
  then show ?case by (auto simp: on_connected_def env_ok_def find_client_None)
next
  case (js_disconnect srv got es c srv' es')
  then show ?case using on_disconnected_jobs [of srv env c srv' es'] by (simp add: ac_simps)
next
  case (js_receive srv got es c data srv' es')
  then have "accounts srv (jobs_in env c data srv) srv' es'" using on_receive_accounts by blast
  then show ?case using js_receive
    by (simp add: accounts_def) (metis (no_types, lifting) mset_eq_imp_distinct_iff mset_map add.assoc add.commute)
next
  case (js_turn srv got es completed cpus locked elapsed srv' es')
  then have "accounts srv [] srv' es'" by (auto simp: env_ok_def intro: thread_turn_accounts)
  then show ?case using js_turn
    by (simp add: accounts_def) (metis (no_types, lifting) mset_eq_imp_distinct_iff mset_map add.assoc add.commute)
qed simp_all

text \<open>C35. No job is lost and none is built twice: in every run of the server, the jobs that the clients have
  sent are the ones given to the job queue, the ones deleted with a client that left, and the ones that wait
  for their tool.\<close>

theorem jobs_conserved:
  assumes "js_run env srv got es" "env_ok env"
  shows "mset got = queued_jobs es + dropped_jobs es + waiting_jobs (client_list srv)"
  using js_run_accounts [OF assms] by blast

section \<open>A job is started with its tool\<close>

definition tool_ready :: "'m js_env \<Rightarrow> 'm js_server \<Rightarrow> u64 \<Rightarrow> bool" where
  "tool_ready env srv t \<longleftrightarrow> (\<exists>tool. find_tool t srv = Some tool \<and> is_synchronized env (tool_manifest tool))"

lemma find_tool_upd:
  assumes "\<And>x. tool_id (f x) = tool_id x"
  shows "find_tool t (upd_tool t f srv) = map_option f (find_tool t srv)"
proof -
  have "find (\<lambda>x. tool_id x = t) (map (\<lambda>x. if tool_id x = t then f x else x) ts) = map_option f (find (\<lambda>x. tool_id x = t) ts)" for ts
    by (induction ts) (simp_all add: assms)
  then show ?thesis by (simp add: find_tool_def upd_tool_def)
qed

lemma find_tool_upd_client [simp]: "find_tool t (upd_client c f srv) = find_tool t srv"
  by (simp add: find_tool_def upd_client_def)

lemma tool_ready_upd_client [simp]: "tool_ready env (upd_client c f srv) t = tool_ready env srv t"
  by (simp add: tool_ready_def)

lemma check_waiting_jobs_ready:
  assumes "check_waiting_jobs t srv = (srv', es)" "tool_ready env srv t" "Queue_Job j \<in> set es"
  shows "tool_ready env srv' (job_tool j)"
proof -
  obtain cs where r: "check_clients t (client_list srv) = (cs, es)" "srv' = srv\<lparr>client_list := cs\<rparr>"
    using assms(1) by (auto simp: check_waiting_jobs_def split: prod.splits)
  then have "job_tool j = t" using check_clients_jobs assms(3) by blast
  then show ?thesis using assms(2) r(2) by (simp add: tool_ready_def find_tool_def)
qed

lemma queued_not_no_jobs: "no_jobs es \<Longrightarrow> Queue_Job j \<notin> set es"
  by (induction es) (auto simp: no_jobs_def)

lemma request_missing_queues_none [simp]: "Queue_Job j \<notin> set (snd (request_missing_files env c t srv))"
  by (rule queued_not_no_jobs [OF request_missing_files_jobs(2)])

lemma process_job_ready:
  assumes "process_job env cs t level payload srv = (srv', es)" "Queue_Job j \<in> set es"
  shows "tool_ready env srv' (job_tool j)"
  using assms
  by (auto simp: process_job_def Let_def tool_ready_def new_job_def case_prod_beta split: option.splits if_splits)

lemma process_manifest_ready:
  assumes r: "process_manifest env c t payload srv = Inr (srv', es)" and q: "Queue_Job j \<in> set es"
  shows "tool_ready env srv' (job_tool j)"
proof -
  obtain tool where f: "find_tool t srv = Some tool"
    using r by (auto simp: process_manifest_def split: option.splits)
  obtain ok m where l: "load_manifest env payload (tool_manifest tool) = (ok, m)" by fastforce
  define srv1 where "srv1 = upd_tool t (\<lambda>x. x\<lparr>tool_manifest := m\<rparr>) srv"
  have "request_missing_files env c t srv1 \<noteq> (srv', es)"
    using q request_missing_queues_none [of j env c t srv1] by fastforce
  then have "check_waiting_jobs t srv1 = (srv', es) \<and> is_synchronized env m"
    using r q f l by (auto simp: process_manifest_def srv1_def Let_def split: if_splits)
  moreover have "is_synchronized env m \<Longrightarrow> tool_ready env srv1 t"
    using f by (simp add: tool_ready_def srv1_def find_tool_upd)
  ultimately show ?thesis using q by (auto intro: check_waiting_jobs_ready)
qed

lemma process_file_ready:
  assumes r: "process_file env c t file payload srv = Inr (srv', es)" and q: "Queue_Job j \<in> set es"
  shows "tool_ready env srv' (job_tool j)"
proof -
  obtain tool where f: "find_tool t srv = Some tool"
    using r by (auto simp: process_file_def split: option.splits)
  obtain ok m where l: "store_file env file payload (tool_manifest tool) = (ok, m)" by fastforce
  define srv1 where "srv1 = upd_tool t (\<lambda>x. x\<lparr>tool_manifest := m\<rparr>) srv"
  define srv2 where "srv2 = upd_tool t (\<lambda>x. x\<lparr>tool_owner := None\<rparr>) srv1"
  have "check_waiting_jobs t srv2 = (srv', es) \<and> is_synchronized env m"
    using r q f l by (auto simp: process_file_def srv1_def srv2_def Let_def split: if_splits)
  moreover have "is_synchronized env m \<Longrightarrow> tool_ready env srv2 t"
    using f by (simp add: tool_ready_def srv1_def srv2_def find_tool_upd)
  ultimately show ?thesis using q by (auto intro: check_waiting_jobs_ready)
qed

text \<open>C36. A job is given to the job queue only when its tool is there: whatever a client sends, every job that
  the server starts then has a tool whose files are all synchronized.\<close>

theorem started_with_tool:
  assumes r: "on_receive env c data srv = Inr (srv', es)" and q: "Queue_Job j \<in> set es"
  shows "tool_ready env srv' (job_tool j)"
proof -
  obtain cs msg payload srv1 where p: "process_message env cs msg payload srv = Inr (srv1, es)"
      "srv' = upd_client c (\<lambda>x. x\<lparr>jc_current := None\<rparr>) srv1"
    using r q by (auto simp: on_receive_def bind_r_Inr_iff Let_def split: option.splits if_splits)
  show ?thesis
    using p q process_job_ready process_manifest_ready process_file_ready
    by (auto simp: process_message_def process_connection_def process_status_def process_no_job_available_def Let_def
        split: js_message.splits if_splits)
qed

section \<open>The neediest clients\<close>

lemma slots_left_all:
  "\<lbrakk>\<forall>c\<in>set cs. 0 \<le> sint (jc_jobs_requested c + jc_jobs_active c); reserved cs < n; n < 2 ^ 31\<rbrakk>
     \<Longrightarrow> slots_left n cs = Inr (n - reserved cs)"
proof (induction cs arbitrary: n)
  case (Cons c cs)
  have "0 \<le> reserved cs" unfolding reserved_def using Cons.prems(1) by (intro sum_list_nonneg) auto
  then show ?case using Cons.prems Cons.IH [of "n - sint (jc_jobs_requested c + jc_jobs_active c)"]
    by (simp add: reserved_def Let_def)
qed (simp add: reserved_def)

lemma total_requested_mset: "mset cs = mset cs' \<Longrightarrow> total_requested cs = total_requested cs'"
  by (metis mset_map sum_mset_sum_list total_requested_def)

text \<open>C37. While places are free the server asks for as many jobs as it has places, one more than it has
  processors, and no more: every request raises the count of a client by one, no client is asked for more than
  it has announced, and places are left over only when every client has been asked for all that it has or was
  busy in the last pass.\<close>

theorem needy_clients_asked:
  assumes "env_ok env" "\<not> should_exit srv" "sint cpus \<noteq> 0" "sint cpus < 2 ^ 31 - 1"
    "\<forall>c\<in>set (client_list srv). 0 \<le> sint (jc_jobs_requested c + jc_jobs_active c)"
    "reserved (client_list srv) \<le> sint cpus"
  shows "\<exists>srv' es. find_needy_clients env cpus locked srv = Inr (srv', es)
    \<and> (\<exists>cs. mset cs = mset (client_list srv) \<and> list_all2 asked cs (client_list srv'))
    \<and> set es \<subseteq> Send_Request_Job ` jc_connection ` set (client_list srv)
    \<and> total_requested (client_list srv') = total_requested (client_list srv) + length es
    \<and> int (length es) \<le> sint cpus + 1 - reserved (client_list srv)
    \<and> (int (length es) = sint cpus + 1 - reserved (client_list srv)
       \<or> (\<exists>k. \<forall>c\<in>set (client_list srv'). jc_jobs_requested c \<ge> jc_jobs_available c \<or> locked k (jc_connection c)))"
proof -
  define cs where "cs = client_list srv"
  define n where "n = sint cpus + 1 - reserved cs"
  have n: "slots_left (sint cpus + 1) cs = Inr n" "0 < n"
    using slots_left_all [of cs "sint cpus + 1"] assms(4-6) by (simp_all add: n_def cs_def)
  have "mset (sort_clients env cs) = mset cs" using assms(1) by (simp add: env_ok_def)
  note perm = this mset_eq_setD [OF this] total_requested_mset [OF this]
  obtain cs' es where q: "request_jobs locked 0 (nat n) (sort_clients env cs) = (cs', es)" by fastforce
  note a = request_jobs_asks [OF q]
  have c: "sint cpus + 1 \<noteq> 2 ^ 31" using assms(4) by linarith
  have "find_needy_clients env cpus locked srv = Inr (srv\<lparr>client_list := cs'\<rparr>, es)"
    unfolding find_needy_clients_def if_not_P [OF assms(2)] if_not_P [OF assms(3)] if_not_P [OF c] cs_def [symmetric]
    using n q by simp
  moreover have "int (length es) \<le> n" "int (length es) = n \<or> length es < nat n" using a n by linarith+
  moreover have "(\<exists>ks. mset ks = mset cs \<and> list_all2 asked ks cs')" using a perm(1) by blast
  ultimately show ?thesis using a perm(2,3) unfolding cs_def [symmetric] n_def [symmetric]
    by (intro exI [of _ "srv\<lparr>client_list := cs'\<rparr>"] exI [of _ es]) auto
qed

section \<open>A server with one tool\<close>

text \<open>A concrete instance of the parameters: a manifest is the number of files still missing, once it is there,
  and the tool has two files of which one is on the disk already.\<close>

definition one_tool_env :: "nat option js_env" where
  "one_tool_env =
     \<lparr>as_message = (\<lambda>d. if d = ''job'' then Msg_Job 7 0 else if d = ''manifest'' then Msg_Manifest 7
        else if d = ''file'' then Msg_File 7 1 else if d = ''status'' then Msg_Status 5 else Msg_Unknown),
      has_payload = (\<lambda>m. case m of Msg_Job _ _ \<Rightarrow> True | Msg_Manifest _ \<Rightarrow> True | Msg_File _ _ \<Rightarrow> True | _ \<Rightarrow> False),
      own_platform = 0,
      fresh_client = (\<lambda>c. \<lparr>jc_connection = c, jc_current = None, jc_jobs_available = 0, jc_jobs_requested = 0,
        jc_jobs_active = 0, jc_minor = 4, jc_host = [], jc_waiting = []\<rparr>),
      sort_clients = rev,
      result_level = (\<lambda>l z. l),
      new_manifest = (\<lambda>t. None),
      is_synchronized = (\<lambda>m. m = Some 0),
      file_count = (\<lambda>m. case m of None \<Rightarrow> 0 | Some _ \<Rightarrow> 2),
      file_missing = (\<lambda>m i. m = Some 1 \<and> i = 1),
      sync_status = (\<lambda>m. None),
      load_manifest = (\<lambda>p m. (p \<noteq> [], Some 1)),
      store_file = (\<lambda>i p m. (p \<noteq> [], Some 0)),
      cancel_files = (\<lambda>m. m),
      mark_file = (\<lambda>i m. m)\<rparr>"

lemma one_tool_env_ok: "env_ok one_tool_env"
  by (simp add: env_ok_def one_tool_env_def)

text \<open>What a connection sends, one after the other.\<close>

fun js_receive_all ::
    "'m js_env \<Rightarrow> (nat \<times> string) list \<Rightarrow> 'm js_server \<Rightarrow> ('m js_server \<times> js_job list \<times> js_effect list) option" where
  "js_receive_all env [] srv = Some (srv, [], [])"
| "js_receive_all env ((c, d) # ds) srv =
     (case on_receive env c d srv of
        Inl _ \<Rightarrow> None
      | Inr (srv1, es) \<Rightarrow>
          (case js_receive_all env ds srv1 of
             None \<Rightarrow> None
           | Some (srv2, got, es2) \<Rightarrow> Some (srv2, jobs_in env c d srv @ got, es @ es2)))"

lemma js_receive_all_run:
  "js_receive_all env ds srv = Some (srv', got', es') \<Longrightarrow> js_run env srv got es \<Longrightarrow> js_run env srv' (got @ got') (es @ es')"
proof (induction ds arbitrary: srv got es got' es')
  case (Cons cd ds)
  obtain c d where cd: "cd = (c, d)" by fastforce
  obtain srv1 es1 got2 es2 where s: "on_receive env c d srv = Inr (srv1, es1)"
      "js_receive_all env ds srv1 = Some (srv', got2, es2)" "got' = jobs_in env c d srv @ got2" "es' = es1 @ es2"
    using Cons.prems(1) by (auto simp: cd split: sum.splits option.splits)
  show ?case using Cons.IH [OF s(2) js_receive [OF Cons.prems(2) s(1)]] s by simp
qed simp

definition two_clients :: "nat option js_server" where
  "two_clients = on_connected one_tool_env 2 (on_connected one_tool_env 1 \<lparr>should_exit = False, client_list = [], tools = []\<rparr>)"

lemma two_clients_run: "js_run one_tool_env two_clients [] []"
proof -
  have f: "find_client c (client_list (\<lparr>should_exit = False, client_list = [], tools = []\<rparr> :: nat option js_server)) = None" for c
    by (simp add: find_client_def)
  have g: "find_client 2 (client_list (on_connected one_tool_env 1 \<lparr>should_exit = False, client_list = [], tools = []\<rparr>)) = None"
    by (simp add: find_client_def on_connected_def one_tool_env_def)
  show ?thesis unfolding two_clients_def by (rule js_connect [OF js_connect [OF js_init f] g])
qed

definition job_from :: "nat \<Rightarrow> js_job" where
  "job_from c = \<lparr>job_user = Some c, job_payload = ''source'', job_tool = 7, job_level = 0\<rparr>"

definition both_jobs :: "(nat \<times> string) list" where
  "both_jobs = [(1, ''job''), (1, ''source''), (2, ''job''), (2, ''source'')]"

definition the_tool :: "(nat \<times> string) list" where
  "the_tool = [(1, ''manifest''), (1, ''files''), (1, ''file''), (1, ''data'')]"

lemma both_jobs_wait:
  "map_option (\<lambda>(srv, got, es). (got, es, map jc_waiting (client_list srv), map tool_owner (tools srv)))
     (js_receive_all one_tool_env both_jobs two_clients)
   = Some ([job_from 1, job_from 2], [Send_Request_Manifest 1 7], [[job_from 1], [job_from 2]], [Some 1])"
  by code_simp

lemma tool_starts_both:
  "map_option (\<lambda>(srv, got, es). (got, es, map jc_waiting (client_list srv)))
     (js_receive_all one_tool_env (both_jobs @ the_tool) two_clients)
   = Some ([job_from 1, job_from 2],
       [Send_Request_Manifest 1 7, Send_Request_File 1 7 1, Queue_Job (job_from 1), Queue_Job (job_from 2)], [[], []])"
  by code_simp

text \<open>Witness of \<open>jobs_conserved\<close>: two clients send a job each and the first of them the tool.\<close>

theorem jobs_conserved_witness:
  "\<exists>srv es. js_receive_all one_tool_env (both_jobs @ the_tool) two_clients = Some (srv, [job_from 1, job_from 2], es)
     \<and> mset [job_from 1, job_from 2] = queued_jobs es + dropped_jobs es + waiting_jobs (client_list srv)
     \<and> queued_jobs es = {#job_from 1, job_from 2#}"
proof -
  obtain srv got es where q: "js_receive_all one_tool_env (both_jobs @ the_tool) two_clients = Some (srv, got, es)"
    using tool_starts_both by (cases "js_receive_all one_tool_env (both_jobs @ the_tool) two_clients") auto
  have g: "got = [job_from 1, job_from 2]"
      "es = [Send_Request_Manifest 1 7, Send_Request_File 1 7 1, Queue_Job (job_from 1), Queue_Job (job_from 2)]"
    using tool_starts_both unfolding q by simp_all
  have "js_run one_tool_env srv got es" using js_receive_all_run [OF q two_clients_run] by simp
  from jobs_conserved [OF this one_tool_env_ok] show ?thesis using q g by auto
qed

text \<open>Witness of \<open>started_with_tool\<close>: the last file arrives.\<close>

theorem started_with_tool_witness:
  "\<exists>srv srv' es. on_receive one_tool_env 1 ''data'' srv = Inr (srv', es) \<and> Queue_Job (job_from 2) \<in> set es
     \<and> tool_ready one_tool_env srv' 7"
proof -
  define f where "f = (\<lambda>srv. map_option (\<lambda>r. case r of Inl e \<Rightarrow> [] | Inr (srv', es) \<Rightarrow> es)
    (map_option (\<lambda>(srv, got :: js_job list, es :: js_effect list). on_receive one_tool_env 1 ''data'' srv) srv))"
  have e: "f (js_receive_all one_tool_env (both_jobs @ butlast the_tool) two_clients) = Some [Queue_Job (job_from 1), Queue_Job (job_from 2)]"
    unfolding f_def by code_simp
  then obtain srv got es where "f (Some (srv, got, es)) = Some [Queue_Job (job_from 1), Queue_Job (job_from 2)]"
    by (cases "js_receive_all one_tool_env (both_jobs @ butlast the_tool) two_clients") (auto simp: f_def)
  then obtain srv' where r: "on_receive one_tool_env 1 ''data'' srv = Inr (srv', [Queue_Job (job_from 1), Queue_Job (job_from 2)])"
    by (auto simp: f_def split: sum.splits)
  have "job_tool (job_from 2) = 7" by (simp add: job_from_def)
  then have "tool_ready one_tool_env srv' 7" using started_with_tool [OF r, of "job_from 2"] by simp
  then show ?thesis using r by (intro exI [of _ srv] exI [of _ srv'] exI [of _ "[Queue_Job (job_from 1), Queue_Job (job_from 2)]"]) simp
qed

text \<open>Witness of \<open>needy_clients_asked\<close>: two clients, of which one has said that it has five jobs, and three
  processors.\<close>

definition status_server :: "nat option js_server" where
  "status_server = \<lparr>should_exit = False, client_list = [(fresh_client one_tool_env 1)\<lparr>jc_jobs_available := 5\<rparr>, fresh_client one_tool_env 2],
     tools = []\<rparr>"

theorem needy_clients_asked_witness:
  "\<exists>srv' es. find_needy_clients one_tool_env 3 (\<lambda>k c. False) status_server = Inr (srv', es)
     \<and> es = replicate 4 (Send_Request_Job 1) \<and> total_requested (client_list srv') = total_requested (client_list status_server) + length es"
proof -
  have "reserved (client_list status_server) = 0"
    by (simp add: reserved_def status_server_def one_tool_env_def)
  moreover have "\<forall>c\<in>set (client_list status_server). 0 \<le> sint (jc_jobs_requested c + jc_jobs_active c)"
    by (simp add: status_server_def one_tool_env_def)
  moreover have "map_sum id snd (find_needy_clients one_tool_env 3 (\<lambda>k c. False) status_server) = Inr (replicate 4 (Send_Request_Job 1))"
    by code_simp
  ultimately show ?thesis
    using needy_clients_asked [OF one_tool_env_ok, of status_server 3 "\<lambda>k c. False"] by (auto simp: status_server_def)
qed

section \<open>A client leaves before its manifest arrives\<close>

text \<open>Two clients wait for a tool, and the one that was asked for the manifest leaves: the job of the other is left
  waiting, with nothing requested and nobody to copy the tool from.\<close>

lemma waits_without_request:
  "Option.bind (js_receive_all one_tool_env both_jobs two_clients) (\<lambda>(srv, got, es).
     case on_disconnected one_tool_env 1 srv of
       Inl e \<Rightarrow> None
     | Inr (srv', es') \<Rightarrow> Some (es', map jc_waiting (client_list srv'), map tool_owner (tools srv')))
   = Some ([Cancel_Jobs_Of 1, Delete_Job (job_from 1)], [[job_from 2]], [None])"
  by code_simp

end
