(* ===== verification/Spec2Isabelle.thy ===== *)
theory Spec2Isabelle
  imports Ipc_Daemon Whole_System Conversation Node_Config Server_Faults Job_Pool Lru_Storage Test_Programs Legacy_Programs Job_Server
begin

text \<open>
  DistBuildSys, a distributed build system: a compiler wrapper catches the calls of a build tool and
  hands them to a daemon on the same machine (the client), which finds a server with a free compiler,
  uploads the source file and the headers it needs, and gets the object file back; whatever goes wrong
  ends in a compilation on the client. This development models the C++ sources under \<open>src/src\<close> and
  proves what makes them correct.

  \<^bold>\<open>The parts and how they interact.\<close>
  The wrapper (\<open>distbuild_wrapper.cpp\<close>) sends one request per compiler call over a local socket
  (\<open>unix_ipc_socket.hpp\<close>) to \<open>Client\<close> (\<open>client.cpp\<close>). The client splits the command line
  (\<open>compiler_call.cpp\<close>), scans the includes (\<open>includes_rework.cpp\<close>), writes dependency files
  (\<open>dep_files.cpp\<close>), picks a server from what the servers broadcast (\<open>resource_listener.hpp\<close>,
  \<open>resource_broadcaster.hpp\<close>), and starts a \<open>ClientSession\<close> (\<open>client_session.cpp\<close>). On the
  server \<open>Server\<close> and \<open>ClientViewsStorage\<close> keep one \<open>ClientView\<close> per client, with the files it
  has uploaded and its \<open>ServerSession\<close>s (\<open>server_session.cpp\<close>); sessions of the same client share
  the files; \<open>CompilerManager\<close> (\<open>compiler_manager.cpp\<close>) runs the compilers in a pool of threads.
  Messages are protobuf frames (\<open>proto_io.cpp\<close>).

  \<^bold>\<open>The theories.\<close>
  \<^item> \<open>DB_Prelude\<close>, \<open>Std_Fs\<close>: machine types, failures of a C++ call (an exception, or undefined
    behaviour) as the type \<open>result\<close>, strings, paths, the file store and its output streams.
  \<^item> \<open>Unix_Ipc\<close>: both copies of the codec of the local socket, the daemon's connection handler and the
    wrapper program. The locale \<open>wire_codec\<close> is the contract of a codec; it is interpreted on requests
    (encoded by the wrapper, decoded by the daemon) and on responses. A call reaches the daemon
    unchanged and its response comes back; a connection that is cut leaves nothing behind.
  \<^item> \<open>Ipc_Daemon\<close>: the daemon's end of the socket with its accept loop and any number of connections,
    interleaved at their suspension points. The counter of active connections is exact, and connections
    neither disturb nor wait for each other.
  \<^item> \<open>Messages\<close>, \<open>Proto_Io\<close>: the messages, their framing, and the writer coroutines of both session
    classes as step relations. The locale \<open>fifo_transport\<close> is what both promise: all messages,
    in order, under every schedule, with at most one writer.
  \<^item> \<open>File_State\<close>, \<open>Server_Session\<close>, \<open>Server_Upload\<close>: \<open>FileStateView\<close>, path translation,
    \<open>ClientView\<close> and \<open>ServerSession\<close>, one definition per handler. The locale \<open>object_table\<close> gives
    the equations of the two tables of a view. The lemmas follow an upload chunk by chunk.
  \<^item> \<open>Server_Views\<close>: the table of views, \<open>Server::handle_new_connection\<close>, and what the set-up of a
    session achieves.
  \<^item> \<open>Server_Machine\<close>: the server as a step relation over connections, messages and worker steps.
    In every reachable state the tables are consistent, a compilation is requested at most once per
    session, no session that has its files is left waiting, and a message writes only to the file that
    the path translation assigns to it.
  \<^item> \<open>Server_Faults\<close>: uploads that go wrong, and the end of a session.
  \<^item> \<open>Compiler_Manager\<close>, \<open>Job_Pool\<close>: the queue and the workers as a step relation, the counter of
    active jobs as an invariant, and a specification, a first-in first-out pool, that the steps of the
    manager implement (locale \<open>simulation\<close>).
  \<^item> \<open>Includes\<close>, \<open>Dep_Files\<close>, \<open>Compiler_Call\<close>: the include scanner, exactly the headers that the
    search rules reach (locale \<open>search_contract\<close>, interpreted for soundness and for completeness), the
    dependency files with their round trip, and the command line.
  \<^item> \<open>Client_Session\<close>, \<open>Session_Transfer\<close>: the client's side of a session, and both sides together:
    files arrive unchanged, all requested files are uploaded in as many rounds, the object file returns.
  \<^item> \<open>Build_Session\<close>, \<open>Build_Result\<close>: the composition, from the start request to the compilation
    request, and from the worker that takes it to the object file on the client.
  \<^item> \<open>Full_Build\<close>: the whole of it, the handler of the wrapper's request on one side and the server in
    any reachable state on the other: the messages of one side are what the other side makes of its own,
    and the wrapper gets the object file, or the result of a local compilation.
  \<^item> \<open>Conversation\<close>: the same two sides as programs that answer each other one message at a time. However
    the two directions of the connection interleave, there is no deadlock before all is said, and what is
    delivered is always a beginning of the same two sequences.
  \<^item> \<open>Whole_System\<close>: the wrapper, the client and the server over their sockets, byte for byte: the messages
    pass the write queues and the framing, the request and the response the local socket, and the
    wrapper exits with the result of the distributed build, or of its own command.
  \<^item> \<open>Resource_Adv\<close>, \<open>Client\<close>, \<open>Node_Config\<close>: advertisements and the choice of a server; the handler
    of a wrapper's request with all its fallbacks; the configuration and the start of a node.
  \<^item> \<open>Lru_Storage\<close>: the storage with a capacity and least-recently-used eviction.
  \<^item> \<open>Test_Programs\<close>: the two programs that try out the local socket (\<open>unix_client_test.cpp\<close> with the third
    copy of the codec, \<open>unix_server_test.cpp\<close>); \<open>wire_codec\<close> is interpreted on this copy too.
  \<^item> \<open>Legacy_Programs\<close>: the first versions of the wrapper (\<open>compiler_wrapper_main.cpp\<close>) and of the daemon
    (\<open>daemon_main.cpp\<close>): a text format of requests, the fallback to the local compiler, the old
    advertisements and their listener.
  \<^item> \<open>Job_Server\<close>: \<open>src/dummy.cpp\<close>, the server of FASTBuild, which is kept in the repository as a pattern
    and which no target builds. No job is lost or started twice, a job is started only with its tool, and
    the clients are asked for as many jobs as there are places. The classes that it uses are not in the
    repository: they are a record of functions, and what they do elsewhere is an effect that a handler
    returns.

  \<^bold>\<open>State and effects.\<close>
  Objects are records and handlers are functions on them. Pointers into maps are keys. Messages handed
  to a \<open>send_msg\<close> are appended to a list of the session; the write queues deliver such lists in
  order. Handlers are atomic, as the mutexes make them; threads and coroutines are steps. Ports,
  counters, sizes and offsets are words of the width of the source.

  \<^bold>\<open>Fuel.\<close>
  The recursion of the include scanner is bounded by fuel, because headers may include each other. Every
  level of the recursion has recorded a new readable file before it goes deeper, so one more than the
  number of readable files is enough; the theorems on the scanner are stated with that bound and prove
  that it returns. All other loops are structural or have a measure. In \<open>Client\<close>, \<open>None\<close> also
  stands for waiting without end, when no server appears or a session never responds.

  \<^bold>\<open>Arguments.\<close>
  What is not part of the program is an argument of the definitions: the encoder and decoder of
  protobuf, the digest of boost, the generator of uuids, the YAML library, the compilers that are run and
  what they do to the files, the random choice of a server, clocks, and whether a file can be opened or
  an address bound.

  \<^bold>\<open>Not modelled.\<close>
  Socket system calls and timers, which only call the network library; the threads that run
  the event loop; the code that protobuf generates; data races outside the mutexes (they are listed as
  findings); log output; the parts of \<open>daemon_main.cpp\<close> and \<open>compiler_wrapper_main.cpp\<close> that are commented
  out or disabled by the preprocessor; \<open>resource_adv_server.cpp\<close> and \<open>resource_adv_client.cpp\<close>, which
  only construct a broadcaster and a listener; the two object storages, which have no operations.
  Of \<open>src/dummy.cpp\<close> the destructor, the text of the status line and the log are left out.
\<close>

end
